(* ===== verification/Prelude.thy ===== *)
theory Prelude
  imports Main "HOL-Library.Monad_Syntax"
begin

text \<open>
  Shared vocabulary of the development: C integers and their conversions, memory
  blocks with checked accesses, C strings, the little-endian layout of \<open>int\<close>, and
  the generic lemmas the component theories use.

  Convention. Every operation of the model that touches memory returns an
  \<^typ>\<open>'a option\<close>: \<^term>\<open>None\<close> means that the C code has undefined behaviour there
  (an access outside its array, a dereference of NULL, a signed overflow), and
  \<^term>\<open>Some r\<close> that it runs and yields \<open>r\<close>. An error the code itself reports
  (a return of \<open>-1\<close>, \<open>NULL\<close> or an enum value) is part of \<open>r\<close>.
\<close>

named_theorems mem_simps "rewriting of checked memory accesses"
named_theorems mem_lens "lengths kept by memory updates"

section \<open>C integers\<close>

type_synonym byte = char

abbreviation NUL :: byte where
  "NUL \<equiv> CHR 0x00"

definition NL :: byte where "NL = CHR 0x0A"

text \<open>The target is LP64 with a little-endian, two's complement \<open>int\<close> of 32 bits.\<close>

definition INT_MAX :: int where
  "INT_MAX = 2147483647"

definition in_int32 :: "int \<Rightarrow> bool" where
  "in_int32 i \<longleftrightarrow> - 2147483648 \<le> i \<and> i \<le> 2147483647"

definition to_int32 :: "int \<Rightarrow> int" where
  "to_int32 i = (i + 2147483648) mod 4294967296 - 2147483648"

definition to_uint32 :: "int \<Rightarrow> int" where
  "to_uint32 i = i mod 4294967296"

definition SIZE_MOD :: nat where
  "SIZE_MOD = 18446744073709551616"

text \<open>Conversion of a C \<open>int\<close> to \<open>size_t\<close>, and the wrap-around of \<open>size_t\<close> arithmetic.\<close>

definition to_size :: "int \<Rightarrow> nat" where
  "to_size i = nat (i mod 18446744073709551616)"

definition wrap64 :: "nat \<Rightarrow> nat" where
  "wrap64 n = n mod SIZE_MOD"

lemma wrap64_small [simp]: "n < SIZE_MOD \<Longrightarrow> wrap64 n = n"
  by (simp add: wrap64_def)

lemma to_size_nonneg: "0 \<le> i \<Longrightarrow> in_int32 i \<Longrightarrow> to_size i = nat i"
  by (simp add: to_size_def in_int32_def)

lemma to_size_neg:
  assumes "i < 0" and "in_int32 i"
  shows "to_size i = SIZE_MOD - nat (- i)"
proof -
  have "i mod 18446744073709551616 = (i + 18446744073709551616) mod 18446744073709551616"
    by simp
  also have "\<dots> = i + 18446744073709551616"
    using assms by (intro mod_pos_pos_trivial) (auto simp: in_int32_def)
  finally have "i mod 18446744073709551616 = i + 18446744073709551616" .
  then show ?thesis
    using assms by (simp add: to_size_def SIZE_MOD_def in_int32_def)
qed

lemma to_int32_id [simp]: "in_int32 i \<Longrightarrow> to_int32 i = i"
  by (simp add: to_int32_def in_int32_def)

lemma to_int32_range [simp]: "in_int32 (to_int32 i)"
proof -
  have "0 \<le> (i + 2147483648) mod 4294967296" "(i + 2147483648) mod 4294967296 < 4294967296"
    by simp_all
  then show ?thesis unfolding to_int32_def in_int32_def by linarith
qed

section \<open>Outcomes\<close>

text \<open>A call either returns to its caller or ends the process with \<open>exit\<close>.\<close>

datatype 'a outcome = Exit int | Ret 'a

section \<open>Memory blocks with checked accesses\<close>

text \<open>A block is a list of cells; an index is a C integer, so it may be negative.\<close>

definition rd :: "'a list \<Rightarrow> int \<Rightarrow> 'a option" where
  "rd xs i = (if 0 \<le> i \<and> i < int (length xs) then Some (xs ! nat i) else None)"

definition wr :: "'a list \<Rightarrow> int \<Rightarrow> 'a \<Rightarrow> 'a list option" where
  "wr xs i v = (if 0 \<le> i \<and> i < int (length xs) then Some (xs[nat i := v]) else None)"

text \<open>\<open>memcpy\<close> out of a block and into a block.\<close>

definition rd_block :: "'a list \<Rightarrow> int \<Rightarrow> nat \<Rightarrow> 'a list option" where
  "rd_block xs i n =
     (if 0 \<le> i \<and> i + int n \<le> int (length xs) then Some (take n (drop (nat i) xs)) else None)"

definition wr_block :: "'a list \<Rightarrow> int \<Rightarrow> 'a list \<Rightarrow> 'a list option" where
  "wr_block xs i ys =
     (if 0 \<le> i \<and> i + int (length ys) \<le> int (length xs)
      then Some (take (nat i) xs @ ys @ drop (nat i + length ys) xs) else None)"

lemma rd_Some [mem_simps]: "0 \<le> i \<Longrightarrow> i < int (length xs) \<Longrightarrow> rd xs i = Some (xs ! nat i)"
  by (simp add: rd_def)

lemma rd_nat [simp]: "rd xs (int n) = (if n < length xs then Some (xs ! n) else None)"
  by (simp add: rd_def)

lemma rd_eq_Some_iff: "rd xs i = Some v \<longleftrightarrow> 0 \<le> i \<and> i < int (length xs) \<and> v = xs ! nat i"
  by (auto simp: rd_def)

lemma rd_None_iff: "rd xs i = None \<longleftrightarrow> i < 0 \<or> int (length xs) \<le> i"
  by (auto simp: rd_def)

lemma wr_Some [mem_simps]:
  "0 \<le> i \<Longrightarrow> i < int (length xs) \<Longrightarrow> wr xs i v = Some (xs[nat i := v])"
  by (simp add: wr_def)

lemma wr_nat [simp]: "wr xs (int n) v = (if n < length xs then Some (xs[n := v]) else None)"
  by (simp add: wr_def)

lemma wr_None_iff: "wr xs i v = None \<longleftrightarrow> i < 0 \<or> int (length xs) \<le> i"
  by (auto simp: wr_def)

lemma wr_eq_Some_iff:
  "wr xs i v = Some ys \<longleftrightarrow> 0 \<le> i \<and> i < int (length xs) \<and> ys = xs[nat i := v]"
  by (auto simp: wr_def)

lemma wr_length [mem_lens]: "wr xs i v = Some ys \<Longrightarrow> length ys = length xs"
  by (auto simp: wr_def split: if_splits)

lemma rd_wr_same: "wr xs i v = Some ys \<Longrightarrow> rd ys i = Some v"
  by (auto simp: wr_def rd_def split: if_splits)

lemma rd_wr_other: "wr xs i v = Some ys \<Longrightarrow> j \<noteq> i \<Longrightarrow> rd ys j = rd xs j"
  by (auto simp: wr_def rd_def split: if_splits)

lemma rd_block_nat:
  "rd_block xs (int n) k = (if n + k \<le> length xs then Some (take k (drop n xs)) else None)"
  unfolding rd_block_def by (auto simp: nat_int_add)

lemma wr_block_nat:
  "wr_block xs (int n) ys =
     (if n + length ys \<le> length xs then Some (take n xs @ ys @ drop (n + length ys) xs) else None)"
  unfolding wr_block_def by (auto simp: nat_int_add)

lemma wr_block_0:
  "wr_block xs 0 ys = (if length ys \<le> length xs then Some (ys @ drop (length ys) xs) else None)"
  by (simp add: wr_block_def)

lemma wr_None_block:
  "wr_block xs i ys = None \<longleftrightarrow> i < 0 \<or> int (length xs) < i + int (length ys)"
  by (auto simp: wr_block_def)

lemma rd_None_block: "rd_block xs i n = None \<longleftrightarrow> i < 0 \<or> int (length xs) < i + int n"
  by (auto simp: rd_block_def)

lemma rd_block_length [mem_lens]: "rd_block xs i n = Some ys \<Longrightarrow> length ys = n"
  by (auto simp: rd_block_def split: if_splits)

lemma wr_block_length [mem_lens]: "wr_block xs i ys = Some zs \<Longrightarrow> length zs = length xs"
  by (auto simp: wr_block_def split: if_splits)

lemma wr_block_nth:
  assumes "wr_block xs (int n) ys = Some zs" and "k < length xs"
  shows "zs ! k = (if n \<le> k \<and> k < n + length ys then ys ! (k - n) else xs ! k)"
proof -
  from assms(1) have le: "n + length ys \<le> length xs"
    and zs: "zs = take n xs @ ys @ drop (n + length ys) xs"
    by (auto simp: wr_block_nat split: if_splits)
  then show ?thesis using assms(2) by (auto simp: nth_append min_def)
qed

lemma rd_wr_block_same:
  assumes "wr_block xs i ys = Some zs"
  shows "rd_block zs i (length ys) = Some ys"
  using assms by (auto simp: wr_block_def rd_block_def split: if_splits)

lemma wr_block_append:
  assumes "n \<le> length xs"
  shows "wr_block xs (int n) (ys @ zs) =
    Option.bind (wr_block xs (int n) ys) (\<lambda>xs'. wr_block xs' (int (n + length ys)) zs)"
  unfolding wr_block_nat using assms by (auto simp: min_def ac_simps)

lemma wr_block_Cons:
  "wr_block xs (int n) (b # bs) = Option.bind (wr xs (int n) b) (\<lambda>xs'. wr_block xs' (int (Suc n)) bs)"
proof (cases "n < length xs")
  case True
  then show ?thesis unfolding wr_block_nat by (simp add: take_Suc_conv_app_nth)
qed (simp add: wr_block_nat)

lemma wr_block_one: "wr_block xs (int n) [b] = wr xs (int n) b"
  by (simp add: wr_block_nat upd_conv_take_nth_drop)

lemma rd_wr_block_other:
  assumes w: "wr_block xs (int n) ys = Some zs" and d: "m + k \<le> n \<or> n + length ys \<le> m"
  shows "rd_block zs (int m) k = rd_block xs (int m) k"
proof -
  have len: "length zs = length xs" using w by (rule wr_block_length)
  show ?thesis
  proof (cases "m + k \<le> length xs")
    case True
    have "take k (drop m zs) = take k (drop m xs)"
    proof (rule nth_equalityI)
      show "length (take k (drop m zs)) = length (take k (drop m xs))" by (simp add: len)
      fix j assume "j < length (take k (drop m zs))"
      then have j: "j < k" "m + j < length xs" by (auto simp: len)
      then have "zs ! (m + j) = xs ! (m + j)" using wr_block_nth [OF w, of "m + j"] d by auto
      then show "take k (drop m zs) ! j = take k (drop m xs) ! j" using j len by simp
    qed
    then show ?thesis by (simp add: rd_block_nat len)
  qed (simp add: rd_block_nat len)
qed

subsection \<open>Arrays of fixed-width elements\<close>

lemma concat_at:
  assumes w: "\<And>x. x \<in> set xss \<Longrightarrow> length x = w" and k: "k < length xss"
  obtains p r where "concat xss = p @ xss ! k @ r" and "length p = k * w"
    and "\<And>y. concat (xss[k := y]) = p @ y @ r"
proof
  show "concat xss = concat (take k xss) @ xss ! k @ concat (drop (Suc k) xss)"
    using id_take_nth_drop [OF k] by (metis concat.simps(2) concat_append)
  have "length (concat (take k xss)) = (\<Sum>x\<leftarrow>take k xss. w)"
    unfolding length_concat using w by (intro arg_cong [of _ _ sum_list] map_cong) (auto dest: in_set_takeD)
  then show "length (concat (take k xss)) = k * w" using k by (simp add: sum_list_triv)
  show "concat (xss[k := y]) = concat (take k xss) @ y @ concat (drop (Suc k) xss)" for y
    using k by (simp add: upd_conv_take_nth_drop)
qed

lemma length_concat_width: "(\<And>x. x \<in> set xss \<Longrightarrow> length x = w) \<Longrightarrow> length (concat xss) = length xss * w"
  by (induction xss) auto

lemma chunk_concat:
  assumes w: "\<And>x. x \<in> set xss \<Longrightarrow> length x = w" and k: "k < length xss"
  shows "take w (drop (k * w) (concat xss)) = xss ! k"
proof -
  obtain p r where "concat xss = p @ xss ! k @ r" "length p = k * w"
    using concat_at [OF w k] by metis
  moreover have "length (xss ! k) = w" using w k by simp
  ultimately show ?thesis by simp
qed

text \<open>Element \<open>i\<close> of such an array starts at \<open>i * w\<close>; an index outside it is outside the block.\<close>

lemma rd_concat_head:
  assumes w: "\<And>x. x \<in> set xss \<Longrightarrow> length x = Suc n"
  shows "rd (concat xss) (i * (int n + 1)) = map_option hd (rd xss i)"
proof (cases "0 \<le> i \<and> i < int (length xss)")
  case True
  define k where "k = nat i"
  have k: "k < length xss" and i: "i = int k" using True by (auto simp: k_def)
  have pos: "i * (int n + 1) = int (k * Suc n)" using i by (simp add: algebra_simps)
  obtain p r where "concat xss = p @ xss ! k @ r" "length p = k * Suc n"
    using concat_at [OF w k] by metis
  moreover obtain c cs where "xss ! k = c # cs" using w k by (metis Suc_length_conv nth_mem)
  ultimately have "rd (concat xss) (int (k * Suc n)) = Some (hd (xss ! k))"
    unfolding rd_nat by (simp add: nth_append)
  then have "rd (concat xss) (i * (int n + 1)) = Some (hd (xss ! k))" by (simp only: pos)
  then show ?thesis using k i by simp
next
  case False
  have "length (concat xss) = length xss * Suc n" using w by (rule length_concat_width)
  then have "int (length (concat xss)) = int (length xss) * (int n + 1)" by (simp add: algebra_simps)
  moreover have "i * (int n + 1) < 0 \<or> int (length xss) * (int n + 1) \<le> i * (int n + 1)"
    using False by (auto simp: mult_less_0_iff)
  ultimately have "rd (concat xss) (i * (int n + 1)) = None" by (simp add: rd_None_iff)
  then show ?thesis using False by (simp add: rd_def)
qed

lemma wr_concat_head:
  assumes w: "\<And>x. x \<in> set xss \<Longrightarrow> length x = Suc n" and k: "k < length xss"
  shows "wr (concat xss) (int k * (int n + 1)) b = Some (concat (xss[k := b # tl (xss ! k)]))"
proof -
  have pos: "int k * (int n + 1) = int (k * Suc n)" by (simp add: algebra_simps)
  obtain p r where "concat xss = p @ xss ! k @ r" "length p = k * Suc n"
    "\<And>y. concat (xss[k := y]) = p @ y @ r"
    using concat_at [OF w k] by metis
  moreover obtain c cs where "xss ! k = c # cs" using w k by (metis Suc_length_conv nth_mem)
  ultimately show ?thesis unfolding pos wr_nat by (simp add: list_update_append)
qed

lemma wr_concat_tail:
  assumes w: "\<And>x. x \<in> set xss \<Longrightarrow> length x = Suc n" and k: "k < length xss" and v: "length v = n"
  shows "wr_block (concat xss) (int k * (int n + 1) + 1) v = Some (concat (xss[k := hd (xss ! k) # v]))"
proof -
  have pos: "int k * (int n + 1) + 1 = int (k * Suc n + 1)" by (simp add: algebra_simps)
  obtain p r where "concat xss = p @ xss ! k @ r" "length p = k * Suc n"
    "\<And>y. concat (xss[k := y]) = p @ y @ r"
    using concat_at [OF w k] by metis
  moreover obtain c cs where "xss ! k = c # cs" "length cs = n" using w k by (metis Suc_length_conv nth_mem)
  ultimately show ?thesis unfolding pos wr_block_nat using v by simp
qed

text \<open>Evaluation on numerals.\<close>

lemma replicate_numeral_Cons [simp]:
  "replicate (numeral k) x = x # replicate (pred_numeral k) x"
  by (simp add: numeral_eq_Suc)

section \<open>C strings\<close>

text \<open>The string a pointer to offset \<open>i\<close> of a block denotes; \<^term>\<open>None\<close> when no NUL follows.\<close>

definition cstr_at :: "byte list \<Rightarrow> int \<Rightarrow> string option" where
  "cstr_at xs i =
     (if 0 \<le> i \<and> NUL \<in> set (drop (nat i) xs)
      then Some (takeWhile (\<lambda>c. c \<noteq> NUL) (drop (nat i) xs)) else None)"

definition cstring :: "string \<Rightarrow> bool" where
  "cstring s \<longleftrightarrow> NUL \<notin> set s"

lemma takeWhile_NUL: "cstring s \<Longrightarrow> takeWhile (\<lambda>c. c \<noteq> NUL) (s @ NUL # r) = s"
proof -
  assume "cstring s"
  then have "\<And>x. x \<in> set s \<Longrightarrow> x \<noteq> NUL" by (auto simp: cstring_def)
  then show ?thesis by (simp add: takeWhile_append2)
qed

lemma cstr_at_append:
  "cstring s \<Longrightarrow> cstr_at (p @ s @ NUL # r) (int (length p)) = Some s"
  by (simp add: cstr_at_def takeWhile_NUL)

lemma cstring_takeWhile [simp]: "cstring (takeWhile (\<lambda>c. c \<noteq> NUL) xs)"
  by (auto simp: cstring_def dest: set_takeWhileD)

lemma cstr_at_cstring: "cstr_at xs i = Some s \<Longrightarrow> cstring s"
  by (auto simp: cstr_at_def split: if_splits)

text \<open>\<open>strcmp(a, b) == 0\<close> and \<open>strncmp(a, b, n) == 0\<close> on C strings.\<close>

definition strcmp_eq :: "string \<Rightarrow> string \<Rightarrow> bool" where
  "strcmp_eq a b \<longleftrightarrow> a = b"

definition strncmp_eq :: "string \<Rightarrow> string \<Rightarrow> nat \<Rightarrow> bool" where
  "strncmp_eq a b n \<longleftrightarrow> take n a = take n b"

section \<open>The bytes of an int\<close>

definition int_bytes :: "int \<Rightarrow> byte list" where
  "int_bytes i = [char_of i, char_of (i div 256), char_of (i div 65536), char_of (i div 16777216)]"

definition bytes_uint :: "byte list \<Rightarrow> int" where
  "bytes_uint bs = foldr (\<lambda>b acc. of_char b + 256 * acc) bs 0"

definition bytes_int :: "byte list \<Rightarrow> int" where
  "bytes_int bs = to_int32 (bytes_uint bs)"

definition rd_int :: "byte list \<Rightarrow> int \<Rightarrow> int option" where
  "rd_int xs i = map_option bytes_int (rd_block xs i 4)"

definition wr_int :: "byte list \<Rightarrow> int \<Rightarrow> int \<Rightarrow> byte list option" where
  "wr_int xs i v = wr_block xs i (int_bytes v)"

lemma int_bytes_length [simp]: "length (int_bytes i) = 4"
  by (simp add: int_bytes_def)

lemma mod_byte_step: "0 \<le> m \<Longrightarrow> i mod 256 + 256 * (i div 256 mod m) = i mod (256 * m)" for i m :: int
  by (simp add: zmod_zmult2_eq)

lemma uint_int_bytes: "bytes_uint (int_bytes i) = to_uint32 i"
proof -
  have d: "i div 65536 = i div 256 div 256" "i div 16777216 = i div 256 div 256 div 256"
    by (simp_all add: zdiv_zmult2_eq [symmetric])
  have "bytes_uint (int_bytes i) = i mod 256 + 256 * (i div 256 mod 256
      + 256 * (i div 256 div 256 mod 256 + 256 * (i div 256 div 256 div 256 mod 256)))"
    by (simp add: bytes_uint_def int_bytes_def d)
  also have "\<dots> = i mod (256 * (256 * (256 * 256)))"
    by (simp only: mod_byte_step)
  finally show ?thesis by (simp add: to_uint32_def)
qed

lemma to_int32_to_uint32 [simp]: "to_int32 (to_uint32 i) = to_int32 i"
  by (simp add: to_int32_def to_uint32_def mod_add_left_eq)

lemma bytes_int_bytes: "bytes_int (int_bytes i) = to_int32 i"
  by (simp add: bytes_int_def uint_int_bytes)

lemma rd_wr_int: "wr_int xs i v = Some ys \<Longrightarrow> rd_int ys i = Some (to_int32 v)"
  using rd_wr_block_same [of xs i "int_bytes v" ys]
  by (simp add: wr_int_def rd_int_def bytes_int_bytes)

lemma wr_int_length [mem_lens]: "wr_int xs i v = Some ys \<Longrightarrow> length ys = length xs"
  by (auto simp: wr_int_def dest: wr_block_length)

lemma in_int32_bytes_int [simp]: "in_int32 (bytes_int bs)"
  by (simp add: bytes_int_def)

end
