(* ===== verification/Store.thy ===== *)
theory Store
  imports Prelude
begin

text \<open>
  The slot store of \<open>src/src/store.h\<close>, byte for byte: \<open>capacity\<close> slots of \<open>item_size + 1\<close>
  bytes (a used flag and the value) and the array \<open>open\<close> of free slot numbers with its
  length \<open>open_cnt\<close>. A value pointer is its offset from \<open>data\<close>. The operations are over an
  optional store, since most of them test for NULL. What they guarantee is proved in the
  theory \<open>Slots\<close>.
\<close>

record KeyValue =
  kv_key :: nat
  kv_value :: "int option"

definition KEYVALUE_NONE :: KeyValue where
  "KEYVALUE_NONE = \<lparr>kv_key = SIZE_MOD - 1, kv_value = None\<rparr>"

record Store =
  sr_capacity :: int
  sr_item_size :: nat
  sr_open_cnt :: int
  sr_open :: "int list"
  sr_data :: "byte list"

definition sizeof_Store :: nat where
  "sizeof_Store = 40"

text \<open>The offset in \<open>data\<close>. The product is taken in \<open>size_t\<close> and added to a pointer; for an \<open>int\<close> index and an
  item size below \<open>2^32\<close> that is the exact offset, negative ones included.\<close>

definition ITEM_IDX :: "Store \<Rightarrow> int \<Rightarrow> int" where
  "ITEM_IDX s idx = idx * (int (sr_item_size s) + 1)"

definition ITEM_USED :: "Store \<Rightarrow> int \<Rightarrow> byte option" where
  "ITEM_USED s ptr = rd (sr_data s) ptr"

definition set_used :: "Store \<Rightarrow> int \<Rightarrow> byte \<Rightarrow> Store option" where
  "set_used s ptr b = do { d \<leftarrow> wr (sr_data s) ptr b; Some (s\<lparr>sr_data := d\<rparr>) }"

definition ITEM_VALUE :: "int \<Rightarrow> int" where
  "ITEM_VALUE ptr = ptr + 1"

definition KEYVALUE :: "Store \<Rightarrow> int \<Rightarrow> KeyValue" where
  "KEYVALUE s idx = \<lparr>kv_key = to_size idx, kv_value = Some (ITEM_VALUE (ITEM_IDX s idx))\<rparr>"

definition get_push_index :: "Store \<Rightarrow> (int \<times> Store) option" where
  "get_push_index s =
     (if 0 < sr_open_cnt s
      then do {
        let c = sr_open_cnt s - 1;
        idx \<leftarrow> rd (sr_open s) c;
        Some (idx, s\<lparr>sr_open_cnt := c\<rparr>)
      }
      else Some (-1, s))"

function reset_open_loop :: "int \<Rightarrow> int \<Rightarrow> int list \<Rightarrow> int list option" where
  "reset_open_loop capacity i op =
     (if i < capacity
      then do { op' \<leftarrow> wr op i ((capacity - 1) - i); reset_open_loop capacity (i + 1) op' }
      else Some op)"
  by pat_completeness auto
termination
  by (relation "measure (\<lambda>(c, i, op). nat (c - i))") auto

declare reset_open_loop.simps [simp del]

definition reset_open :: "Store \<Rightarrow> Store option" where
  "reset_open s =
     do {
       op \<leftarrow> reset_open_loop (sr_capacity s) 0 (sr_open s);
       Some (s\<lparr>sr_open_cnt := sr_capacity s, sr_open := op\<rparr>)
     }"

text \<open>
  \<open>MMALLOC\<close> is the parameter \<open>mmalloc\<close>, which returns the bytes of the block or NULL. Writing the
  header, the array and the data needs the unwrapped sum of their sizes; the request wraps.
\<close>

definition store_new :: "(nat \<Rightarrow> byte list option) \<Rightarrow> int \<Rightarrow> nat \<Rightarrow> Store option option" where
  "store_new mmalloc capacity item_size =
     (let n = to_size capacity in
      case mmalloc (wrap64 (sizeof_Store + 4 * n + (item_size + 1) * n)) of
        None \<Rightarrow> Some None
      | Some mem \<Rightarrow>
          if length mem < sizeof_Store + 4 * n + (item_size + 1) * n then None
          else do {
            s \<leftarrow> reset_open
              \<lparr>sr_capacity = capacity, sr_item_size = item_size, sr_open_cnt = capacity,
               sr_open = map (\<lambda>k. bytes_int (take 4 (drop (sizeof_Store + 4 * k) mem))) [0..<n],
               sr_data = replicate ((item_size + 1) * n) NUL\<rparr>;
            Some (Some s)
          })"

text \<open>\<open>store_free\<close>: whether the block is handed to \<open>free\<close>. \<open>FREE_FUNC\<close> is not defined anywhere.\<close>

definition store_free :: "Store option \<Rightarrow> bool" where
  "store_free store = (store \<noteq> None)"

definition store_push :: "Store option \<Rightarrow> byte list \<Rightarrow> (KeyValue \<times> Store option) option" where
  "store_push so data =
     (case so of
        None \<Rightarrow> Some (KEYVALUE_NONE, None)
      | Some s \<Rightarrow> do {
          (idx, s1) \<leftarrow> get_push_index s;
          if idx < 0 then Some (KEYVALUE_NONE, Some s1)
          else do {
            let ptr = ITEM_IDX s1 idx;
            s2 \<leftarrow> set_used s1 ptr (CHR 0x01);
            x \<leftarrow> rd_block data 0 (sr_item_size s2);
            d \<leftarrow> wr_block (sr_data s2) (ITEM_VALUE ptr) x;
            let s3 = s2\<lparr>sr_data := d\<rparr>;
            Some (KEYVALUE s3 idx, Some s3)
          }
        })"

definition store_push_empty :: "Store option \<Rightarrow> (KeyValue \<times> Store option) option" where
  "store_push_empty so =
     (case so of
        None \<Rightarrow> Some (KEYVALUE_NONE, None)
      | Some s \<Rightarrow> do {
          (idx, s1) \<leftarrow> get_push_index s;
          if idx < 0 then Some (KEYVALUE_NONE, Some s1)
          else do {
            let ptr = ITEM_IDX s1 idx;
            s2 \<leftarrow> set_used s1 ptr (CHR 0x01);
            d \<leftarrow> wr_block (sr_data s2) (ITEM_VALUE ptr) (replicate (sr_item_size s2) NUL);
            let s3 = s2\<lparr>sr_data := d\<rparr>;
            Some (KEYVALUE s3 idx, Some s3)
          }
        })"

definition store_get :: "Store option \<Rightarrow> int \<Rightarrow> KeyValue option" where
  "store_get so idx =
     (case so of
        None \<Rightarrow> Some KEYVALUE_NONE
      | Some s \<Rightarrow> do {
          u \<leftarrow> ITEM_USED s (ITEM_IDX s idx);
          Some (if u = NUL then KEYVALUE_NONE else KEYVALUE s idx)
        })"

definition store_is_used :: "Store option \<Rightarrow> int \<Rightarrow> byte option" where
  "store_is_used so idx =
     (case so of None \<Rightarrow> None | Some s \<Rightarrow> ITEM_USED s (ITEM_IDX s idx))"

definition store_replace :: "Store option \<Rightarrow> int \<Rightarrow> byte list \<Rightarrow> (nat \<times> Store option) option" where
  "store_replace so idx data =
     (case so of
        None \<Rightarrow> Some (0, None)
      | Some s \<Rightarrow>
          if sr_capacity s \<le> idx then Some (0, Some s)
          else do {
            let ptr = ITEM_IDX s idx;
            u \<leftarrow> ITEM_USED s ptr;
            if u = NUL then Some (0, Some s)
            else do {
              x \<leftarrow> rd_block data 0 (sr_item_size s);
              d \<leftarrow> wr_block (sr_data s) (ITEM_VALUE ptr) x;
              s' \<leftarrow> set_used (s\<lparr>sr_data := d\<rparr>) ptr (CHR 0x01);
              Some (1, Some s')
            }
          })"

definition store_remove_at :: "Store option \<Rightarrow> int \<Rightarrow> (nat \<times> Store option) option" where
  "store_remove_at so idx =
     (case so of
        None \<Rightarrow> Some (0, None)
      | Some s \<Rightarrow>
          if sr_capacity s \<le> idx then Some (0, Some s)
          else do {
            let ptr = ITEM_IDX s idx;
            u \<leftarrow> ITEM_USED s ptr;
            if u = NUL then Some (0, Some s)
            else do {
              s1 \<leftarrow> set_used s ptr NUL;
              op \<leftarrow> wr (sr_open s1) (sr_open_cnt s1) idx;
              Some (1, Some (s1\<lparr>sr_open := op, sr_open_cnt := sr_open_cnt s1 + 1\<rparr>))
            }
          })"

definition store_length :: "Store option \<Rightarrow> int" where
  "store_length so = (case so of None \<Rightarrow> -1 | Some s \<Rightarrow> sr_capacity s - sr_open_cnt s)"

definition store_reset :: "Store option \<Rightarrow> Store option option" where
  "store_reset so =
     (case so of
        None \<Rightarrow> Some None
      | Some s \<Rightarrow> do {
          d \<leftarrow> wr_block (sr_data s) 0
                 (replicate (wrap64 ((sr_item_size s + 1) * to_size (sr_capacity s))) NUL);
          s' \<leftarrow> reset_open (s\<lparr>sr_data := d\<rparr>);
          Some (Some s')
        })"

end
