(* ===== verification/Slots.thy ===== *)
theory Slots
  imports Store
begin

text \<open>
  The store with typed values. The server keeps two stores, one of tasks and one of
  processes, and reads and writes their items as C structs. Here a slot is a used flag and
  a value of any type; \<open>to_bytes\<close> lays such a table out as the bytes of a store, and every
  operation commutes with it, so the typed table is the byte-level store of \<open>store.h\<close> seen
  through its struct type. The locale \<open>slot_table\<close> is the contract of a slot store,
  interpreted on the typed table and on the byte-level store.
\<close>

section \<open>The typed table\<close>

record 'a slots =
  sl_capacity :: int
  sl_open_cnt :: int
  sl_open :: "int list"
  sl_cells :: "(bool \<times> 'a) list"

definition slots_new :: "int \<Rightarrow> 'a \<Rightarrow> 'a slots" where
  "slots_new capacity z =
     \<lparr>sl_capacity = capacity, sl_open_cnt = capacity,
      sl_open = map (\<lambda>i. capacity - 1 - int i) [0..<nat capacity],
      sl_cells = replicate (nat capacity) (False, z)\<rparr>"

definition slots_push_index :: "'a slots \<Rightarrow> (int \<times> 'a slots) option" where
  "slots_push_index t =
     (if 0 < sl_open_cnt t
      then do {
        let c = sl_open_cnt t - 1;
        idx \<leftarrow> rd (sl_open t) c;
        Some (idx, t\<lparr>sl_open_cnt := c\<rparr>)
      }
      else Some (-1, t))"

text \<open>The key of the new item, \<^term>\<open>None\<close> for \<open>KEYVALUE_NONE\<close>.\<close>

definition slots_push :: "'a slots \<Rightarrow> 'a \<Rightarrow> (int option \<times> 'a slots) option" where
  "slots_push t x =
     do {
       (idx, t1) \<leftarrow> slots_push_index t;
       if idx < 0 then Some (None, t1)
       else do {
         cs \<leftarrow> wr (sl_cells t1) idx (True, x);
         Some (Some idx, t1\<lparr>sl_cells := cs\<rparr>)
       }
     }"

definition slots_get :: "'a slots \<Rightarrow> int \<Rightarrow> 'a option option" where
  "slots_get t idx =
     do { (u, x) \<leftarrow> rd (sl_cells t) idx; Some (if u then Some x else None) }"

definition slots_replace :: "'a slots \<Rightarrow> int \<Rightarrow> 'a \<Rightarrow> (nat \<times> 'a slots) option" where
  "slots_replace t idx x =
     (if sl_capacity t \<le> idx then Some (0, t)
      else do {
        (u, _) \<leftarrow> rd (sl_cells t) idx;
        if \<not> u then Some (0, t)
        else do {
          cs \<leftarrow> wr (sl_cells t) idx (True, x);
          Some (1, t\<lparr>sl_cells := cs\<rparr>)
        }
      })"

definition slots_remove_at :: "'a slots \<Rightarrow> int \<Rightarrow> (nat \<times> 'a slots) option" where
  "slots_remove_at t idx =
     (if sl_capacity t \<le> idx then Some (0, t)
      else do {
        (u, x) \<leftarrow> rd (sl_cells t) idx;
        if \<not> u then Some (0, t)
        else do {
          cs \<leftarrow> wr (sl_cells t) idx (False, x);
          op \<leftarrow> wr (sl_open t) (sl_open_cnt t) idx;
          Some (1, t\<lparr>sl_cells := cs, sl_open := op, sl_open_cnt := sl_open_cnt t + 1\<rparr>)
        }
      })"

definition slots_length :: "'a slots \<Rightarrow> int" where
  "slots_length t = sl_capacity t - sl_open_cnt t"

section \<open>Invariant and view\<close>

definition free_list :: "'a slots \<Rightarrow> int list" where
  "free_list t = take (nat (sl_open_cnt t)) (sl_open t)"

definition free_set :: "'a slots \<Rightarrow> int set" where
  "free_set t = {i. 0 \<le> i \<and> i < sl_capacity t \<and> \<not> fst (sl_cells t ! nat i)}"

text \<open>The free list holds every unused slot number exactly once.\<close>

definition slots_ok :: "'a slots \<Rightarrow> bool" where
  "slots_ok t \<longleftrightarrow> 0 \<le> sl_capacity t \<and> sl_capacity t \<le> INT_MAX
     \<and> length (sl_cells t) = nat (sl_capacity t) \<and> length (sl_open t) = nat (sl_capacity t)
     \<and> 0 \<le> sl_open_cnt t \<and> sl_open_cnt t \<le> sl_capacity t
     \<and> distinct (free_list t) \<and> set (free_list t) = free_set t"

definition slots_view :: "'a slots \<Rightarrow> (int \<rightharpoonup> 'a)" where
  "slots_view t i =
     (if 0 \<le> i \<and> i < int (length (sl_cells t)) \<and> fst (sl_cells t ! nat i)
      then Some (snd (sl_cells t ! nat i)) else None)"

definition in_range :: "'a slots \<Rightarrow> int \<Rightarrow> bool" where
  "in_range t i \<longleftrightarrow> 0 \<le> i \<and> i < sl_capacity t"

lemma slots_okD:
  assumes "slots_ok t"
  shows "int (length (sl_cells t)) = sl_capacity t" and "int (length (sl_open t)) = sl_capacity t"
    and "0 \<le> sl_open_cnt t" and "sl_open_cnt t \<le> sl_capacity t"
  using assms by (auto simp: slots_ok_def)

lemma free_list_length: "slots_ok t \<Longrightarrow> length (free_list t) = nat (sl_open_cnt t)"
  by (auto simp: slots_ok_def free_list_def)

lemma dom_view: "slots_ok t \<Longrightarrow> dom (slots_view t) = {i. in_range t i} - free_set t"
  by (auto simp: slots_ok_def slots_view_def free_set_def in_range_def dom_def split: if_splits)

lemma view_in_range: "slots_ok t \<Longrightarrow> slots_view t i = Some x \<Longrightarrow> in_range t i"
  by (auto simp: slots_ok_def slots_view_def in_range_def split: if_splits)

lemma card_free: "slots_ok t \<Longrightarrow> int (card (free_set t)) = sl_open_cnt t"
  using free_list_length distinct_card [of "free_list t"] by (fastforce simp: slots_ok_def)

lemma card_used: "slots_ok t \<Longrightarrow> int (card (dom (slots_view t))) = slots_length t"
proof -
  assume ok: "slots_ok t"
  have r: "{i. in_range t i} = {0..<sl_capacity t}" by (auto simp: in_range_def)
  have "free_set t \<subseteq> {0..<sl_capacity t}" by (auto simp: free_set_def)
  then have "card (dom (slots_view t)) = card {0..<sl_capacity t} - card (free_set t)"
    using dom_view [OF ok] r by (simp add: card_Diff_subset finite_subset)
  then show ?thesis
    using ok card_free [OF ok] slots_okD [OF ok] by (simp add: slots_length_def slots_ok_def)
qed

lemma slots_new_ok:
  assumes "0 \<le> c" and "c \<le> INT_MAX"
  shows "slots_ok (slots_new c z)" and "slots_view (slots_new c z) = Map.empty"
proof -
  have fl: "free_list (slots_new c z) = map (\<lambda>i. c - 1 - int i) [0..<nat c]"
    by (simp add: free_list_def slots_new_def)
  have "set (free_list (slots_new c z)) = {0..<c}"
  proof (intro set_eqI iffI)
    fix x assume "x \<in> {0..<c}"
    then have "x = c - 1 - int (nat (c - 1 - x))" "nat (c - 1 - x) \<in> set [0..<nat c]" by auto
    then show "x \<in> set (free_list (slots_new c z))" unfolding fl set_map by (rule image_eqI)
  qed (use assms in \<open>auto simp: fl\<close>)
  moreover have "free_set (slots_new c z) = {0..<c}"
    using assms by (auto simp: free_set_def slots_new_def)
  moreover have "distinct (free_list (slots_new c z))"
    unfolding fl by (auto simp: distinct_map inj_on_def)
  ultimately show "slots_ok (slots_new c z)"
    using assms by (simp add: slots_ok_def) (simp add: slots_new_def)
  show "slots_view (slots_new c z) = Map.empty"
    by (auto simp: slots_view_def slots_new_def fun_eq_iff)
qed

section \<open>The operations on the view\<close>

lemma take_butlast_nth: "0 < n \<Longrightarrow> n \<le> length xs \<Longrightarrow> take n xs = take (n - 1) xs @ [xs ! (n - 1)]"
  by (metis Suc_diff_1 Suc_le_lessD diff_less le_trans less_imp_le_nat take_Suc_conv_app_nth
      zero_less_one less_le_trans diff_le_self)

lemma set_butlast_distinct: "distinct xs \<Longrightarrow> xs \<noteq> [] \<Longrightarrow> set (butlast xs) = set xs - {last xs}"
  by (induction xs rule: rev_induct) auto

lemma slots_push_index_ok:
  assumes ok: "slots_ok t" and pos: "0 < sl_open_cnt t"
  shows "\<exists>idx. slots_push_index t = Some (idx, t\<lparr>sl_open_cnt := sl_open_cnt t - 1\<rparr>)
    \<and> idx \<in> free_set t \<and> take (nat (sl_open_cnt t - 1)) (sl_open t) = butlast (free_list t)
    \<and> idx = last (free_list t) \<and> free_list t \<noteq> []"
proof -
  let ?c = "nat (sl_open_cnt t)"
  have c: "0 < ?c" "?c \<le> length (sl_open t)" "nat (sl_open_cnt t - 1) = ?c - 1"
    using ok pos by (auto simp: slots_ok_def)
  have fl: "free_list t = take (?c - 1) (sl_open t) @ [sl_open t ! (?c - 1)]"
    unfolding free_list_def by (rule take_butlast_nth [OF c(1,2)])
  then have "sl_open t ! (?c - 1) \<in> free_set t" using ok by (auto simp: slots_ok_def)
  moreover have "rd (sl_open t) (sl_open_cnt t - 1) = Some (sl_open t ! (?c - 1))"
    using pos c by (simp add: rd_def)
  ultimately show ?thesis using pos fl c(3) by (simp add: slots_push_index_def)
qed

lemma view_update:
  "0 \<le> i \<Longrightarrow> i < int (length (sl_cells t)) \<Longrightarrow>
   slots_view (t\<lparr>sl_open_cnt := c, sl_cells := (sl_cells t)[nat i := (True, x)]\<rparr>) = (slots_view t)(i \<mapsto> x)"
  by (auto simp: slots_view_def fun_eq_iff nth_list_update)

lemma slots_push_view:
  assumes ok: "slots_ok t" and pos: "0 < sl_open_cnt t"
  shows "\<exists>idx t'. slots_push t x = Some (Some idx, t') \<and> slots_ok t' \<and> in_range t idx
    \<and> slots_view t idx = None \<and> slots_view t' = (slots_view t)(idx \<mapsto> x)
    \<and> sl_capacity t' = sl_capacity t \<and> idx = last (free_list t)"
proof -
  let ?t1 = "t\<lparr>sl_open_cnt := sl_open_cnt t - 1\<rparr>"
  obtain idx where pi: "slots_push_index t = Some (idx, ?t1)" and fr: "idx \<in> free_set t"
    and bl: "take (nat (sl_open_cnt t - 1)) (sl_open t) = butlast (free_list t)"
    and la: "idx = last (free_list t)" and ne: "free_list t \<noteq> []"
    using slots_push_index_ok [OF ok pos] by blast
  have i: "0 \<le> idx" "idx < int (length (sl_cells t))" "idx < sl_capacity t"
    using fr ok by (auto simp: free_set_def slots_ok_def)
  let ?t' = "t\<lparr>sl_open_cnt := sl_open_cnt t - 1, sl_cells := (sl_cells t)[nat idx := (True, x)]\<rparr>"
  have "slots_push t x = Some (Some idx, ?t')"
    using pi i by (simp add: slots_push_def wr_def)
  moreover have "slots_ok ?t'"
  proof -
    have fl': "free_list ?t' = butlast (free_list t)" using bl by (simp add: free_list_def)
    have d: "distinct (free_list t)" using ok by (simp add: slots_ok_def)
    then have "set (free_list ?t') = free_set t - {idx}"
      unfolding fl' using ok la ne by (simp add: set_butlast_distinct slots_ok_def)
    also have "\<dots> = free_set ?t'"
      using i by (auto simp: free_set_def nth_list_update nat_eq_iff)
    finally have "set (free_list ?t') = free_set ?t'" .
    then show ?thesis
      using ok pos d by (simp add: slots_ok_def fl' distinct_butlast)
  qed
  moreover have "slots_view ?t' = (slots_view t)(idx \<mapsto> x)" using i by (intro view_update)
  moreover have "slots_view t idx = None" using fr by (simp add: slots_view_def free_set_def)
  ultimately show ?thesis using i la by (auto simp: in_range_def)
qed

lemma slots_push_full: "slots_ok t \<Longrightarrow> sl_open_cnt t = 0 \<Longrightarrow> slots_push t x = Some (None, t)"
  by (simp add: slots_push_def slots_push_index_def)

lemma slots_get_view: "slots_ok t \<Longrightarrow> in_range t i \<Longrightarrow> slots_get t i = Some (slots_view t i)"
  by (auto simp: slots_get_def rd_def slots_view_def slots_ok_def in_range_def split: prod.splits)

lemma slots_get_out: "slots_ok t \<Longrightarrow> \<not> in_range t i \<Longrightarrow> slots_get t i = None"
  by (auto simp: slots_get_def rd_def slots_ok_def in_range_def)

lemma open_room: "slots_ok t \<Longrightarrow> slots_view t i = Some x \<Longrightarrow> sl_open_cnt t < sl_capacity t"
proof -
  assume ok: "slots_ok t" and v: "slots_view t i = Some x"
  have "finite (dom (slots_view t))"
    using dom_view [OF ok] by (auto simp: in_range_def intro: finite_subset [of _ "{0..<sl_capacity t}"])
  moreover have "i \<in> dom (slots_view t)" using v by auto
  ultimately have "0 < card (dom (slots_view t))" by (auto simp: card_gt_0_iff)
  then show ?thesis using card_used [OF ok] by (simp add: slots_length_def)
qed

lemma slots_replace_view:
  assumes ok: "slots_ok t" and v: "slots_view t i = Some y"
  shows "\<exists>t'. slots_replace t i x = Some (1, t') \<and> slots_ok t' \<and> slots_view t' = (slots_view t)(i \<mapsto> x)
    \<and> sl_capacity t' = sl_capacity t"
proof -
  have i: "0 \<le> i" "i < int (length (sl_cells t))" "i < sl_capacity t" "fst (sl_cells t ! nat i)"
    using view_in_range [OF ok v] v ok
    by (auto simp: in_range_def slots_ok_def slots_view_def split: if_splits)
  let ?t' = "t\<lparr>sl_open_cnt := sl_open_cnt t, sl_cells := (sl_cells t)[nat i := (True, x)]\<rparr>"
  have "slots_replace t i x = Some (1, ?t')"
    using i by (auto simp: slots_replace_def rd_def wr_def split: prod.splits)
  moreover have "free_set ?t' = free_set t"
    using i by (auto simp: free_set_def nth_list_update nat_eq_iff)
  then have "slots_ok ?t'" using ok by (simp add: slots_ok_def free_list_def)
  moreover have "slots_view ?t' = (slots_view t)(i \<mapsto> x)" using i(1,2) by (rule view_update)
  ultimately show ?thesis by auto
qed

lemma slots_remove_view:
  assumes ok: "slots_ok t" and v: "slots_view t i = Some x"
  shows "\<exists>t'. slots_remove_at t i = Some (1, t') \<and> slots_ok t' \<and> slots_view t' = (slots_view t)(i := None)
    \<and> sl_capacity t' = sl_capacity t \<and> free_list t' = free_list t @ [i]"
proof -
  have i: "0 \<le> i" "i < int (length (sl_cells t))" "i < sl_capacity t" "fst (sl_cells t ! nat i)"
    and x: "snd (sl_cells t ! nat i) = x"
    using view_in_range [OF ok v] v ok
    by (auto simp: in_range_def slots_ok_def slots_view_def split: if_splits)
  have lt: "sl_open_cnt t < sl_capacity t" using ok v by (rule open_room)
  then have o: "0 \<le> sl_open_cnt t" "nat (sl_open_cnt t) < length (sl_open t)"
    using ok by (auto simp: slots_ok_def)
  let ?t' = "t\<lparr>sl_cells := (sl_cells t)[nat i := (False, x)],
    sl_open := (sl_open t)[nat (sl_open_cnt t) := i], sl_open_cnt := sl_open_cnt t + 1\<rparr>"
  have "slots_remove_at t i = Some (1, ?t')"
    using i x o by (auto simp: slots_remove_at_def rd_def wr_def split: prod.splits)
  moreover have fl: "free_list ?t' = free_list t @ [i]"
    using o by (simp add: free_list_def nat_add_distrib take_Suc_conv_app_nth)
  moreover have "slots_ok ?t'"
  proof -
    have "free_set ?t' = insert i (free_set t)"
      using i by (auto simp: free_set_def nth_list_update nat_eq_iff)
    moreover have "i \<notin> free_set t" using i by (simp add: free_set_def)
    ultimately show ?thesis using ok lt fl by (simp add: slots_ok_def)
  qed
  moreover have "slots_view ?t' = (slots_view t)(i := None)"
    using i by (auto simp: slots_view_def fun_eq_iff nth_list_update)
  ultimately show ?thesis by auto
qed

lemma slots_remove_unused:
  assumes "slots_ok t" and "0 \<le> i" and "slots_view t i = None"
  shows "slots_remove_at t i = Some (0, t)" and "slots_replace t i x = Some (0, t)"
  using assms
  by (auto simp: slots_remove_at_def slots_replace_def slots_ok_def slots_view_def rd_def
      split: prod.splits if_splits)

section \<open>The slot table interface\<close>

locale slot_table =
  fixes inv :: "'s \<Rightarrow> bool"
    and view :: "'s \<Rightarrow> (int \<rightharpoonup> 'a)"
    and cap :: "'s \<Rightarrow> int"
    and fit :: "'s \<Rightarrow> 'a \<Rightarrow> bool"
    and push :: "'s \<Rightarrow> 'a \<Rightarrow> (int option \<times> 's) option"
    and remove :: "'s \<Rightarrow> int \<Rightarrow> (nat \<times> 's) option"
    and used :: "'s \<Rightarrow> int"
  assumes view_range: "inv s \<Longrightarrow> view s i = Some x \<Longrightarrow> 0 \<le> i \<and> i < cap s"
    and used_card: "inv s \<Longrightarrow> used s = int (card (dom (view s)))"
    and push_room: "inv s \<Longrightarrow> fit s x \<Longrightarrow> used s < cap s \<Longrightarrow>
      \<exists>i s'. push s x = Some (Some i, s') \<and> inv s' \<and> 0 \<le> i \<and> i < cap s \<and> view s i = None
        \<and> view s' = (view s)(i \<mapsto> x) \<and> cap s' = cap s"
    and push_full: "inv s \<Longrightarrow> used s = cap s \<Longrightarrow> push s x = Some (None, s)"
    and remove_used: "inv s \<Longrightarrow> view s i = Some x \<Longrightarrow>
      \<exists>s'. remove s i = Some (1, s') \<and> inv s' \<and> view s' = (view s)(i := None) \<and> cap s' = cap s"
    and remove_unused: "inv s \<Longrightarrow> 0 \<le> i \<Longrightarrow> view s i = None \<Longrightarrow> remove s i = Some (0, s)"
begin

lemma finite_view: "inv s \<Longrightarrow> finite (dom (view s))"
  by (rule finite_subset [of _ "{0..<cap s}"]) (auto dest: view_range)

lemma used_le_cap: "inv s \<Longrightarrow> used s \<le> max 0 (cap s)"
proof -
  assume i: "inv s"
  have "card (dom (view s)) \<le> card {0..<cap s}"
    using i by (intro card_mono) (auto dest: view_range)
  then show ?thesis using used_card [OF i] by simp
qed

text \<open>A push that is answered takes one free slot; removing it again restores the view.\<close>

lemma push_remove:
  assumes "inv s" and "fit s x" and "used s < cap s"
  shows "\<exists>i s1 s2. push s x = Some (Some i, s1) \<and> view s1 i = Some x \<and> remove s1 i = Some (1, s2)
    \<and> view s2 = view s \<and> inv s2"
proof -
  obtain i s1 where p: "push s x = Some (Some i, s1)" "inv s1" "view s i = None"
    and v: "view s1 = (view s)(i \<mapsto> x)"
    using push_room [OF assms] by blast
  then have vi: "view s1 i = Some x" by simp
  obtain s2 where "remove s1 i = Some (1, s2)" "inv s2" "view s2 = (view s1)(i := None)"
    using remove_used [OF p(2) vi] by blast
  then show ?thesis using p v vi by (metis fun_upd_triv fun_upd_upd)
qed

text \<open>The second of two removals of one slot fails and changes nothing.\<close>

lemma remove_twice:
  assumes "inv s" and "view s i = Some x"
  shows "\<exists>s'. remove s i = Some (1, s') \<and> remove s' i = Some (0, s') \<and> inv s'"
proof -
  obtain s' where s': "remove s i = Some (1, s')" "inv s'" "view s' = (view s)(i := None)"
    using remove_used [OF assms] by blast
  then have "remove s' i = Some (0, s')"
    using remove_unused [OF s'(2), of i] view_range [OF assms] by simp
  then show ?thesis using s' by blast
qed

lemma push_used:
  assumes "inv s" and "fit s x" and "used s < cap s"
  shows "\<exists>i s'. push s x = Some (Some i, s') \<and> inv s' \<and> used s' = used s + 1"
proof -
  obtain i s' where "push s x = Some (Some i, s')" "inv s'" "view s i = None"
    and v: "view s' = (view s)(i \<mapsto> x)"
    using push_room [OF assms] by blast
  moreover have "card (dom (view s')) = Suc (card (dom (view s)))"
    using v \<open>view s i = None\<close> finite_view [OF assms(1)] by (simp add: domIff)
  ultimately show ?thesis using used_card [OF assms(1)] used_card [of s'] by auto
qed

lemma remove_count:
  assumes "inv s" and "view s i = Some x"
  shows "\<exists>s'. remove s i = Some (1, s') \<and> inv s' \<and> used s' = used s - 1"
proof -
  obtain s' where s': "remove s i = Some (1, s')" "inv s'" "view s' = (view s)(i := None)"
    using remove_used [OF assms] by blast
  have "i \<in> dom (view s)" using assms(2) by auto
  then have "card (dom (view s)) = Suc (card (dom (view s) - {i}))"
    using finite_view [OF assms(1)] by (metis card.remove)
  then show ?thesis using s' used_card [OF assms(1)] used_card [OF s'(2)] by auto
qed

end

lemma used_lt_cap: "slots_ok t \<Longrightarrow> slots_length t < sl_capacity t \<longleftrightarrow> 0 < sl_open_cnt t"
  by (simp add: slots_length_def)

interpretation typed_slots: slot_table slots_ok slots_view sl_capacity "\<lambda>_ _. True"
  slots_push slots_remove_at slots_length
proof unfold_locales
  fix t :: "'a slots" and x assume "slots_ok t" "slots_length t < sl_capacity t"
  then show "\<exists>i s'. slots_push t x = Some (Some i, s') \<and> slots_ok s' \<and> 0 \<le> i \<and> i < sl_capacity t
      \<and> slots_view t i = None \<and> slots_view s' = (slots_view t)(i \<mapsto> x) \<and> sl_capacity s' = sl_capacity t"
    using slots_push_view [of t x] by (auto simp: used_lt_cap in_range_def)
next
  fix t :: "'a slots" and i x assume "slots_ok t" "slots_view t i = Some x"
  then show "\<exists>s'. slots_remove_at t i = Some (1, s') \<and> slots_ok s' \<and> slots_view s' = (slots_view t)(i := None)
      \<and> sl_capacity s' = sl_capacity t"
    using slots_remove_view [of t i x] by blast
qed (auto simp: card_used slots_push_full slots_remove_unused slots_length_def in_range_def
      dest: view_in_range)

section \<open>The byte-level store is the typed table laid out in memory\<close>

text \<open>
  \<open>enc\<close> lays a value out as the \<open>n\<close> bytes of its struct.
\<close>

definition cell_bytes :: "('a \<Rightarrow> byte list) \<Rightarrow> bool \<times> 'a \<Rightarrow> byte list" where
  "cell_bytes enc c = (if fst c then CHR 0x01 else NUL) # enc (snd c)"

definition to_bytes :: "('a \<Rightarrow> byte list) \<Rightarrow> nat \<Rightarrow> 'a slots \<Rightarrow> Store" where
  "to_bytes enc n t =
     \<lparr>sr_capacity = sl_capacity t, sr_item_size = n, sr_open_cnt = sl_open_cnt t,
      sr_open = sl_open t, sr_data = concat (map (cell_bytes enc) (sl_cells t))\<rparr>"

definition fits_enc :: "('a \<Rightarrow> byte list) \<Rightarrow> nat \<Rightarrow> 'a slots \<Rightarrow> bool" where
  "fits_enc enc n t \<longleftrightarrow> (\<forall>c \<in> set (sl_cells t). length (enc (snd c)) = n)"

definition kv_of :: "nat \<Rightarrow> int option \<Rightarrow> KeyValue" where
  "kv_of n k =
     (case k of None \<Rightarrow> KEYVALUE_NONE
      | Some i \<Rightarrow> \<lparr>kv_key = to_size i, kv_value = Some (i * (int n + 1) + 1)\<rparr>)"

lemma cell_bytes_length: "fits_enc enc n t \<Longrightarrow> x \<in> set (map (cell_bytes enc) (sl_cells t)) \<Longrightarrow> length x = Suc n"
  by (auto simp: fits_enc_def cell_bytes_def)

lemma used_to_bytes:
  assumes "fits_enc enc n t"
  shows "ITEM_USED (to_bytes enc n t) (ITEM_IDX (to_bytes enc n t) i) =
    map_option (\<lambda>c. if fst c then CHR 0x01 else NUL) (rd (sl_cells t) i)"
proof -
  have "ITEM_USED (to_bytes enc n t) (ITEM_IDX (to_bytes enc n t) i) =
      map_option hd (rd (map (cell_bytes enc) (sl_cells t)) i)"
    unfolding ITEM_USED_def ITEM_IDX_def to_bytes_def Store.select_convs
    by (rule rd_concat_head [OF cell_bytes_length [OF assms]])
  also have "\<dots> = map_option (\<lambda>c. if fst c then CHR 0x01 else NUL) (rd (sl_cells t) i)"
    by (auto simp: rd_def cell_bytes_def nat_less_iff)
  finally show ?thesis .
qed

lemma set_used_to_bytes:
  assumes e: "fits_enc enc n t" and i: "0 \<le> i" "i < int (length (sl_cells t))"
  shows "set_used (to_bytes enc n t) (i * (int n + 1)) (if u then CHR 0x01 else NUL) =
    Some (to_bytes enc n (t\<lparr>sl_cells := (sl_cells t)[nat i := (u, snd (sl_cells t ! nat i))]\<rparr>))"
proof -
  have k: "nat i < length (map (cell_bytes enc) (sl_cells t))" and ii: "i = int (nat i)"
    using i by auto
  show ?thesis
    using wr_concat_head [OF cell_bytes_length [OF e] k] k
    by (subst ii) (simp add: set_used_def to_bytes_def map_update cell_bytes_def)
qed

lemma set_value_to_bytes:
  assumes e: "fits_enc enc n t" and i: "0 \<le> i" "i < int (length (sl_cells t))" and x: "length (enc x) = n"
  shows "wr_block (sr_data (to_bytes enc n t)) (i * (int n + 1) + 1) (enc x) =
    Some (sr_data (to_bytes enc n (t\<lparr>sl_cells := (sl_cells t)[nat i := (fst (sl_cells t ! nat i), x)]\<rparr>)))"
proof -
  have k: "nat i < length (map (cell_bytes enc) (sl_cells t))" and ii: "i = int (nat i)"
    using i by auto
  show ?thesis
    using wr_concat_tail [OF cell_bytes_length [OF e] k x] k
    by (subst ii) (simp add: to_bytes_def map_update cell_bytes_def)
qed

lemma fits_enc_update:
  "fits_enc enc n t \<Longrightarrow> length (enc x) = n \<Longrightarrow> fits_enc enc n (t\<lparr>sl_cells := (sl_cells t)[k := (u, x)]\<rparr>)"
  using set_update_subset_insert [of "sl_cells t" k "(u, x)"] by (auto simp: fits_enc_def)

lemma fits_enc_nth:
  "fits_enc enc n t \<Longrightarrow> k < length (sl_cells t) \<Longrightarrow> length (enc (snd (sl_cells t ! k))) = n"
  by (simp add: fits_enc_def)

lemma get_push_index_to_bytes:
  "get_push_index (to_bytes enc n t) =
     map_option (\<lambda>(i, t'). (i, to_bytes enc n t')) (slots_push_index t)"
  by (simp add: get_push_index_def slots_push_index_def to_bytes_def rd_def Let_def)

lemma slots_push_index_cells: "slots_push_index t = Some (i, t') \<Longrightarrow> sl_cells t' = sl_cells t"
  by (auto simp: slots_push_index_def rd_def Let_def split: if_splits)

text \<open>Filling a slot with the bytes of \<open>x\<close>, as both push operations do.\<close>

lemma fill_to_bytes:
  assumes e: "fits_enc enc n t" and i: "0 \<le> i" and x: "length (enc x) = n"
  shows "do {
      s2 \<leftarrow> set_used (to_bytes enc n t) (i * (int n + 1)) (CHR 0x01);
      d \<leftarrow> wr_block (sr_data s2) (ITEM_VALUE (i * (int n + 1))) (enc x);
      Some (KEYVALUE (s2\<lparr>sr_data := d\<rparr>) i, Some (s2\<lparr>sr_data := d\<rparr>)) }
    = map_option (\<lambda>cs. (kv_of n (Some i), Some (to_bytes enc n (t\<lparr>sl_cells := cs\<rparr>))))
        (wr (sl_cells t) i (True, x))"
proof (cases "i < int (length (sl_cells t))")
  case True
  let ?t1 = "t\<lparr>sl_cells := (sl_cells t)[nat i := (True, snd (sl_cells t ! nat i))]\<rparr>"
  have e1: "fits_enc enc n ?t1" using e i True by (intro fits_enc_update fits_enc_nth) auto
  have s: "set_used (to_bytes enc n t) (i * (int n + 1)) (CHR 0x01) = Some (to_bytes enc n ?t1)"
    using set_used_to_bytes [OF e i True, of True] by simp
  have v: "wr_block (sr_data (to_bytes enc n ?t1)) (i * (int n + 1) + 1) (enc x) =
      Some (sr_data (to_bytes enc n (t\<lparr>sl_cells := (sl_cells t)[nat i := (True, x)]\<rparr>)))"
    using set_value_to_bytes [OF e1 i _ x] True i by (simp add: nat_less_iff)
  show ?thesis
    using i True by (simp add: s v ITEM_VALUE_def wr_def kv_of_def KEYVALUE_def ITEM_IDX_def)
      (simp add: to_bytes_def)
next
  case False
  have "rd (sr_data (to_bytes enc n t)) (i * (int n + 1)) = None"
    using used_to_bytes [OF e, of i] False i
    by (simp add: ITEM_USED_def ITEM_IDX_def to_bytes_def rd_def)
  then have "wr (sr_data (to_bytes enc n t)) (i * (int n + 1)) (CHR 0x01) = None"
    by (simp add: rd_None_iff wr_None_iff)
  then show ?thesis using False i by (simp add: set_used_def wr_def)
qed

lemma set_used_size: "set_used s q b = Some s2 \<Longrightarrow> sr_item_size s2 = sr_item_size s"
  by (auto simp: set_used_def split: bind_splits)

lemma get_push_index_size: "get_push_index s = Some (i, s1) \<Longrightarrow> sr_item_size s1 = sr_item_size s"
  by (auto simp: get_push_index_def Let_def split: bind_splits if_splits)

lemma store_push_to_bytes:
  assumes e: "fits_enc enc n t" and x: "length (enc x) = n"
  shows "store_push (Some (to_bytes enc n t)) (enc x) =
    map_option (\<lambda>(k, t'). (kv_of n k, Some (to_bytes enc n t'))) (slots_push t x)"
proof (cases "slots_push_index t")
  case None
  then show ?thesis by (simp add: store_push_def slots_push_def get_push_index_to_bytes)
next
  case (Some r)
  obtain i t1 where r: "r = (i, t1)" by (cases r)
  have e1: "fits_enc enc n t1"
    using e slots_push_index_cells [of t i t1] Some r by (simp add: fits_enc_def)
  have p: "ITEM_IDX (to_bytes enc n t1) i = i * (int n + 1)" "sr_item_size (to_bytes enc n t1) = n"
    by (simp_all add: ITEM_IDX_def to_bytes_def)
  have rb: "rd_block (enc x) 0 n = Some (enc x)" using x rd_block_nat [of "enc x" 0 n] by simp
  show ?thesis
  proof (cases "i < 0")
    case False
    have "store_push (Some (to_bytes enc n t)) (enc x) =
        do {
          s2 \<leftarrow> set_used (to_bytes enc n t1) (i * (int n + 1)) (CHR 0x01);
          d \<leftarrow> wr_block (sr_data s2) (ITEM_VALUE (i * (int n + 1))) (enc x);
          Some (KEYVALUE (s2\<lparr>sr_data := d\<rparr>) i, Some (s2\<lparr>sr_data := d\<rparr>)) }"
      using Some r False
      by (simp add: store_push_def get_push_index_to_bytes p Let_def)
        (auto split: bind_splits dest!: set_used_size simp: p rb)
    then show ?thesis
      using fill_to_bytes [where t = t1, OF e1 _ x] Some r False
      by (simp add: slots_push_def option.map_comp comp_def map_conv_bind_option)
  qed (use Some r in \<open>simp add: store_push_def slots_push_def get_push_index_to_bytes kv_of_def\<close>)
qed

text \<open>Pushing an empty item is pushing zero bytes.\<close>

lemma store_push_empty_zero:
  "store_push_empty (Some s) = store_push (Some s) (replicate (sr_item_size s) NUL)"
proof (cases "get_push_index s")
  case (Some r)
  obtain i s1 where r: "r = (i, s1)" by (cases r)
  have rb: "rd_block (replicate k NUL) 0 k = Some (replicate k NUL)" for k
    using rd_block_nat [of "replicate k NUL" 0 k] by simp
  show ?thesis
  proof (cases "set_used s1 (ITEM_IDX s1 i) (CHR 0x01)")
    case (Some s2)
    then have "sr_item_size s2 = sr_item_size s"
      using set_used_size get_push_index_size \<open>get_push_index s = Some r\<close> r by metis
    then show ?thesis
      using Some \<open>get_push_index s = Some r\<close> r
      by (simp add: store_push_empty_def store_push_def rb)
  qed (use \<open>get_push_index s = Some r\<close> r in \<open>simp add: store_push_empty_def store_push_def\<close>)
qed (simp add: store_push_empty_def store_push_def)

lemma store_push_empty_to_bytes:
  assumes e: "fits_enc enc n t" and z: "enc z = replicate n NUL"
  shows "store_push_empty (Some (to_bytes enc n t)) =
    map_option (\<lambda>(k, t'). (kv_of n k, Some (to_bytes enc n t'))) (slots_push t z)"
proof -
  have "sr_item_size (to_bytes enc n t) = n" by (simp add: to_bytes_def)
  then show ?thesis
    using store_push_to_bytes [where enc = enc and n = n and t = t and x = z, OF e] z
    by (simp add: store_push_empty_zero)
qed

lemma store_get_to_bytes:
  assumes "fits_enc enc n t"
  shows "store_get (Some (to_bytes enc n t)) i =
    map_option (\<lambda>v. kv_of n (if v = None then None else Some i)) (slots_get t i)"
  using used_to_bytes [OF assms, of i]
  by (auto simp: store_get_def slots_get_def kv_of_def KEYVALUE_def ITEM_IDX_def ITEM_VALUE_def
      rd_def to_bytes_def split: if_splits prod.splits)

lemma store_remove_to_bytes:
  assumes e: "fits_enc enc n t"
  shows "store_remove_at (Some (to_bytes enc n t)) i =
    map_option (\<lambda>(r, t'). (r, Some (to_bytes enc n t'))) (slots_remove_at t i)"
proof (cases "sl_capacity t \<le> i \<or> \<not> (0 \<le> i \<and> i < int (length (sl_cells t)))")
  case True
  then show ?thesis
    using used_to_bytes [OF e, of i]
    by (auto simp: store_remove_at_def slots_remove_at_def rd_def to_bytes_def)
next
  case False
  then have i: "0 \<le> i" "i < int (length (sl_cells t))" "i < sl_capacity t" by auto
  have u: "ITEM_USED (to_bytes enc n t) (ITEM_IDX (to_bytes enc n t) i) =
      Some (if fst (sl_cells t ! nat i) then CHR 0x01 else NUL)"
    using used_to_bytes [OF e, of i] i by (simp add: rd_def)
  have p: "ITEM_IDX (to_bytes enc n t) i = i * (int n + 1)" "sr_capacity (to_bytes enc n t) = sl_capacity t"
    by (simp_all add: ITEM_IDX_def to_bytes_def)
  show ?thesis
    using i u set_used_to_bytes [OF e i(1,2), of False]
    by (simp add: store_remove_at_def slots_remove_at_def rd_def wr_def p split: prod.splits)
      (auto simp: to_bytes_def)
qed

lemma store_replace_to_bytes:
  assumes e: "fits_enc enc n t" and x: "length (enc x) = n"
  shows "store_replace (Some (to_bytes enc n t)) i (enc x) =
    map_option (\<lambda>(r, t'). (r, Some (to_bytes enc n t'))) (slots_replace t i x)"
proof (cases "sl_capacity t \<le> i \<or> \<not> (0 \<le> i \<and> i < int (length (sl_cells t)))")
  case True
  then show ?thesis
    using used_to_bytes [OF e, of i]
    by (auto simp: store_replace_def slots_replace_def rd_def to_bytes_def)
next
  case False
  then have i: "0 \<le> i" "i < int (length (sl_cells t))" "i < sl_capacity t" by auto
  have u: "ITEM_USED (to_bytes enc n t) (ITEM_IDX (to_bytes enc n t) i) =
      Some (if fst (sl_cells t ! nat i) then CHR 0x01 else NUL)"
    using used_to_bytes [OF e, of i] i by (simp add: rd_def)
  have p: "ITEM_IDX (to_bytes enc n t) i = i * (int n + 1)" "sr_capacity (to_bytes enc n t) = sl_capacity t"
    "sr_item_size (to_bytes enc n t) = n"
    by (simp_all add: ITEM_IDX_def to_bytes_def)
  have rb: "rd_block (enc x) 0 n = Some (enc x)" using x rd_block_nat [of "enc x" 0 n] by simp
  let ?t1 = "t\<lparr>sl_cells := (sl_cells t)[nat i := (fst (sl_cells t ! nat i), x)]\<rparr>"
  have e1: "fits_enc enc n ?t1" using e x by (rule fits_enc_update)
  have d: "(to_bytes enc n t)\<lparr>sr_data := sr_data (to_bytes enc n ?t1)\<rparr> = to_bytes enc n ?t1"
    by (simp add: to_bytes_def)
  have s: "set_used (to_bytes enc n ?t1) (i * (int n + 1)) (CHR 0x01) =
      Some (to_bytes enc n (t\<lparr>sl_cells := (sl_cells t)[nat i := (True, x)]\<rparr>))"
    using set_used_to_bytes [OF e1 i(1), of True] i by (simp add: nat_less_iff)
  show ?thesis
    using i u set_value_to_bytes [where enc = enc and x = x, OF e i(1,2) x] d s
    by (auto simp: store_replace_def slots_replace_def rd_def wr_def p rb ITEM_VALUE_def split: prod.splits)
qed

lemma reset_open_loop_eq:
  "length op = nat c \<Longrightarrow> 0 \<le> i \<Longrightarrow> i \<le> c \<Longrightarrow>
   reset_open_loop c i op = Some (take (nat i) op @ map (\<lambda>k. c - 1 - int k) [nat i..<nat c])"
proof (induction c i op rule: reset_open_loop.induct)
  case (1 c i op)
  show ?case
  proof (cases "i < c")
    case True
    let ?op' = "op[nat i := c - 1 - i]"
    have w: "wr op i (c - 1 - i) = Some ?op'" using True 1 by (simp add: wr_def)
    have "reset_open_loop c (i + 1) ?op' =
        Some (take (nat (i + 1)) ?op' @ map (\<lambda>k. c - 1 - int k) [nat (i + 1)..<nat c])"
      using 1 True w by (intro "1.IH") auto
    moreover have "take (nat (i + 1)) ?op' = take (nat i) op @ [c - 1 - i]"
      using True 1 by (simp add: nat_add_distrib take_Suc_conv_app_nth)
    moreover have "[nat i..<nat c] = nat i # [nat (i + 1)..<nat c]"
      using True 1 by (simp add: upt_rec [of "nat i"] nat_add_distrib)
    ultimately show ?thesis using True w 1 by (simp add: reset_open_loop.simps [of c i op])
  next
    case False
    then show ?thesis using 1 by (simp add: reset_open_loop.simps)
  qed
qed

lemma reset_open_eq:
  "length (sr_open s) = nat (sr_capacity s) \<Longrightarrow> 0 \<le> sr_capacity s \<Longrightarrow>
   reset_open s = Some (s\<lparr>sr_open_cnt := sr_capacity s,
     sr_open := map (\<lambda>k. sr_capacity s - 1 - int k) [0..<nat (sr_capacity s)]\<rparr>)"
  by (simp add: reset_open_def reset_open_loop_eq)

lemma zero_cells: "concat (replicate m (cell_bytes enc (False, z))) = replicate (m + n * m) NUL"
  if "enc z = replicate n NUL"
proof (induction m)
  case (Suc m)
  then show ?case using that by (simp add: cell_bytes_def replicate_add [symmetric] algebra_simps)
qed simp

lemma store_new_to_bytes:
  assumes c: "0 \<le> c" "c \<le> INT_MAX" and z: "enc z = replicate n NUL"
    and sz: "sizeof_Store + 4 * nat c + (n + 1) * nat c < SIZE_MOD"
    and m: "mmalloc (sizeof_Store + 4 * nat c + (n + 1) * nat c) = Some mem"
    and len: "length mem = sizeof_Store + 4 * nat c + (n + 1) * nat c"
  shows "store_new mmalloc c n = Some (Some (to_bytes enc n (slots_new c z)))"
proof -
  have ts: "to_size c = nat c" using c by (simp add: to_size_def INT_MAX_def)
  show ?thesis
    using c m len sz
    by (simp add: store_new_def ts Let_def reset_open_eq)
      (simp add: to_bytes_def slots_new_def zero_cells [where enc = enc and z = z and n = n, OF z])
qed

lemma store_reset_to_bytes:
  assumes ok: "slots_ok t" and e: "fits_enc enc n t" and z: "enc z = replicate n NUL"
    and sz: "(n + 1) * nat (sl_capacity t) < SIZE_MOD"
  shows "store_reset (Some (to_bytes enc n t)) = Some (Some (to_bytes enc n (slots_new (sl_capacity t) z)))"
proof -
  have ts: "to_size (sl_capacity t) = nat (sl_capacity t)"
    using ok by (simp add: to_size_def slots_ok_def INT_MAX_def)
  have len: "length (sr_data (to_bytes enc n t)) = (n + 1) * nat (sl_capacity t)"
    using length_concat_width [of "map (cell_bytes enc) (sl_cells t)" "Suc n", OF cell_bytes_length [OF e]] ok
    by (simp add: to_bytes_def slots_ok_def mult.commute)
  then have w: "wr_block (sr_data (to_bytes enc n t)) 0 (replicate ((n + 1) * nat (sl_capacity t)) NUL) =
      Some (replicate ((n + 1) * nat (sl_capacity t)) NUL)"
    using wr_block_nat [of "sr_data (to_bytes enc n t)" 0] by simp
  have ro: "reset_open ((to_bytes enc n t)\<lparr>sr_data := replicate ((n + 1) * nat (sl_capacity t)) NUL\<rparr>) =
      Some (to_bytes enc n (slots_new (sl_capacity t) z))"
    using ok by (simp add: to_bytes_def reset_open_eq slots_ok_def slots_new_def zero_cells [where enc = enc and z = z and n = n, OF z])
  have "sr_item_size (to_bytes enc n t) = n" "sr_capacity (to_bytes enc n t) = sl_capacity t"
    by (simp_all add: to_bytes_def)
  then show ?thesis using w ro sz by (simp only: store_reset_def option.case ts wrap64_small) simp
qed

section \<open>The byte-level store as a slot table\<close>

text \<open>The table a store of byte values stands for.\<close>

definition of_bytes :: "Store \<Rightarrow> byte list slots" where
  "of_bytes s =
     \<lparr>sl_capacity = sr_capacity s, sl_open_cnt = sr_open_cnt s, sl_open = sr_open s,
      sl_cells = map (\<lambda>k. let b = take (Suc (sr_item_size s)) (drop (k * Suc (sr_item_size s)) (sr_data s))
                          in (hd b \<noteq> NUL, tl b)) [0..<nat (sr_capacity s)]\<rparr>"

lemma of_bytes_to_bytes:
  assumes ok: "slots_ok t" and e: "fits_enc (\<lambda>x. x) n t"
  shows "of_bytes (to_bytes (\<lambda>x. x) n t) = t"
proof -
  let ?xss = "map (cell_bytes (\<lambda>x. x)) (sl_cells t)"
  have w: "\<And>x. x \<in> set ?xss \<Longrightarrow> length x = Suc n" using cell_bytes_length [OF e] .
  have "(let b = take (Suc n) (drop (k * Suc n) (concat ?xss)) in (hd b \<noteq> NUL, tl b)) = sl_cells t ! k"
    if "k < length (sl_cells t)" for k
  proof -
    have "take (Suc n) (drop (k * Suc n) (concat ?xss)) = ?xss ! k"
      using that by (intro chunk_concat [OF w]) auto
    then show ?thesis using that by (simp add: cell_bytes_def prod_eq_iff)
  qed
  then have "map (\<lambda>k. let b = take (Suc n) (drop (k * Suc n) (concat ?xss)) in (hd b \<noteq> NUL, tl b))
      [0..<length (sl_cells t)] = sl_cells t"
    by (intro nth_equalityI) auto
  then show ?thesis using ok by (simp add: of_bytes_def to_bytes_def slots_ok_def)
qed

definition store_ok :: "Store \<Rightarrow> bool" where
  "store_ok s \<longleftrightarrow> slots_ok (of_bytes s) \<and> fits_enc (\<lambda>x. x) (sr_item_size s) (of_bytes s)
     \<and> to_bytes (\<lambda>x. x) (sr_item_size s) (of_bytes s) = s"

definition store_view :: "Store \<Rightarrow> (int \<rightharpoonup> byte list)" where
  "store_view s = slots_view (of_bytes s)"

lemma store_ok_to_bytes:
  "slots_ok t \<Longrightarrow> fits_enc (\<lambda>x. x) n t \<Longrightarrow> store_ok (to_bytes (\<lambda>x. x) n t)"
proof -
  have "sr_item_size (to_bytes (\<lambda>x. x) n t) = n" by (simp add: to_bytes_def)
  then show "slots_ok t \<Longrightarrow> fits_enc (\<lambda>x. x) n t \<Longrightarrow> store_ok (to_bytes (\<lambda>x. x) n t)"
    by (simp add: store_ok_def of_bytes_to_bytes)
qed

lemma store_okE:
  assumes "store_ok s"
  obtains t n where "s = to_bytes (\<lambda>x. x) n t" and "slots_ok t" and "fits_enc (\<lambda>x. x) n t"
    and "store_view s = slots_view t" and "sr_item_size s = n" and "sr_capacity s = sl_capacity t"
    and "store_length (Some s) = slots_length t"
proof
  show "s = to_bytes (\<lambda>x. x) (sr_item_size s) (of_bytes s)" using assms by (simp add: store_ok_def)
qed (use assms in \<open>simp_all add: store_ok_def store_view_def of_bytes_def store_length_def slots_length_def\<close>)

definition store_push_key :: "Store \<Rightarrow> byte list \<Rightarrow> (int option \<times> Store) option" where
  "store_push_key s x =
     (case store_push (Some s) x of
        Some (kv, Some s') \<Rightarrow> Some (map_option (\<lambda>_. int (kv_key kv)) (kv_value kv), s')
      | _ \<Rightarrow> None)"

definition store_remove :: "Store \<Rightarrow> int \<Rightarrow> (nat \<times> Store) option" where
  "store_remove s i = (case store_remove_at (Some s) i of Some (r, Some s') \<Rightarrow> Some (r, s') | _ \<Rightarrow> None)"

lemma store_push_key_to_bytes:
  assumes "slots_ok t" and "fits_enc (\<lambda>x. x) n t" and "length x = n"
  shows "store_push_key (to_bytes (\<lambda>x. x) n t) x =
    map_option (\<lambda>(k, t'). (k, to_bytes (\<lambda>x. x) n t')) (slots_push t x)"
proof -
  have kv: "map_option (\<lambda>_. int (kv_key (kv_of n k))) (kv_value (kv_of n k)) = k"
    if "slots_push t x = Some (k, t')" for k t'
  proof (cases k)
    case (Some i)
    have "0 < sl_open_cnt t"
      using that Some assms(1) slots_push_full [of t x] by (fastforce simp: slots_ok_def)
    then have "in_range t i" using slots_push_view [OF assms(1), of x] that Some by auto
    then have "int (to_size i) = i"
      using assms(1) by (simp add: to_size_def in_range_def slots_ok_def INT_MAX_def)
    then show ?thesis using Some by (simp add: kv_of_def)
  qed (simp add: kv_of_def KEYVALUE_NONE_def)
  show ?thesis
    using store_push_to_bytes [OF assms(2,3)] kv
    by (auto simp: store_push_key_def split: option.splits)
qed

lemma store_remove_eq_to_bytes:
  assumes "fits_enc (\<lambda>x. x) n t"
  shows "store_remove (to_bytes (\<lambda>x. x) n t) i =
    map_option (\<lambda>(r, t'). (r, to_bytes (\<lambda>x. x) n t')) (slots_remove_at t i)"
  using store_remove_to_bytes [OF assms] by (auto simp: store_remove_def split: option.splits)

lemma fits_enc_push:
  "fits_enc enc n t \<Longrightarrow> length (enc x) = n \<Longrightarrow> slots_push t x = Some (k, t') \<Longrightarrow> fits_enc enc n t'"
proof -
  assume e: "fits_enc enc n t" and x: "length (enc x) = n" and p: "slots_push t x = Some (k, t')"
  obtain i t1 where i: "slots_push_index t = Some (i, t1)"
    using p by (cases "slots_push_index t") (auto simp: slots_push_def)
  then have "fits_enc enc n t1" using e slots_push_index_cells [OF i] by (simp add: fits_enc_def)
  then show ?thesis
    using p i x fits_enc_update [where t = t1 and enc = enc and x = x]
    by (auto simp: slots_push_def wr_def split: if_splits)
qed

lemma fits_enc_remove:
  "fits_enc enc n t \<Longrightarrow> slots_remove_at t i = Some (r, t') \<Longrightarrow> fits_enc enc n t'"
proof -
  assume e: "fits_enc enc n t" and p: "slots_remove_at t i = Some (r, t')"
  show ?thesis
  proof (cases "t' = t")
    case False
    with p have lt: "nat i < length (sl_cells t)"
      and c: "sl_cells t' = (sl_cells t)[nat i := (False, snd (sl_cells t ! nat i))]"
      by (auto simp: slots_remove_at_def rd_def wr_def split: if_splits prod.splits bind_splits)
    have "fits_enc enc n (t\<lparr>sl_cells := (sl_cells t)[nat i := (False, snd (sl_cells t ! nat i))]\<rparr>)"
      using e fits_enc_nth [OF e lt] by (rule fits_enc_update)
    then show ?thesis using c by (simp add: fits_enc_def)
  qed (use e in simp)
qed

interpretation byte_store: slot_table store_ok store_view sr_capacity
  "\<lambda>s x. length x = sr_item_size s" store_push_key store_remove "\<lambda>s. store_length (Some s)"
proof unfold_locales
  fix s i x assume "store_ok s" "store_view s i = Some x"
  then show "0 \<le> i \<and> i < sr_capacity s"
    by (elim store_okE) (auto dest: typed_slots.view_range)
next
  fix s assume "store_ok s"
  then show "store_length (Some s) = int (card (dom (store_view s)))"
    by (elim store_okE) (simp add: card_used)
next
  fix s :: Store and x :: "byte list"
  assume ok: "store_ok s" and x: "length x = sr_item_size s" and lt: "store_length (Some s) < sr_capacity s"
  from ok obtain t n where t: "s = to_bytes (\<lambda>x. x) n t" "slots_ok t" "fits_enc (\<lambda>x. x) n t"
    "store_view s = slots_view t" "sr_item_size s = n" "sr_capacity s = sl_capacity t"
    "store_length (Some s) = slots_length t" by (elim store_okE)
  obtain i t' where p: "slots_push t x = Some (Some i, t')" "slots_ok t'" "0 \<le> i" "i < sl_capacity t"
    "slots_view t i = None" "slots_view t' = (slots_view t)(i \<mapsto> x)" "sl_capacity t' = sl_capacity t"
    using typed_slots.push_room [OF t(2), of x] lt t by auto
  have e': "fits_enc (\<lambda>x. x) n t'" using fits_enc_push [OF t(3) _ p(1)] x t(5) by simp
  have v: "store_view (to_bytes (\<lambda>x. x) n t') = slots_view t'"
    using of_bytes_to_bytes [OF p(2) e'] by (simp add: store_view_def)
  show "\<exists>i s'. store_push_key s x = Some (Some i, s') \<and> store_ok s' \<and> 0 \<le> i \<and> i < sr_capacity s
      \<and> store_view s i = None \<and> store_view s' = (store_view s)(i \<mapsto> x) \<and> sr_capacity s' = sr_capacity s"
    using store_push_key_to_bytes [OF t(2,3), of x] x t p v store_ok_to_bytes [OF p(2) e']
    by (auto simp: to_bytes_def)
next
  fix s :: Store and x :: "byte list" assume "store_ok s" "store_length (Some s) = sr_capacity s"
  then show "store_push_key s x = Some (None, s)"
    by (auto simp: store_push_key_def store_push_def get_push_index_def store_length_def KEYVALUE_NONE_def)
next
  fix s i x assume ok: "store_ok s" and x: "store_view s i = Some x"
  from ok obtain t n where t: "s = to_bytes (\<lambda>x. x) n t" "slots_ok t" "fits_enc (\<lambda>x. x) n t"
    "store_view s = slots_view t" "sr_capacity s = sl_capacity t" by (elim store_okE)
  obtain t' where p: "slots_remove_at t i = Some (1, t')" "slots_ok t'"
    "slots_view t' = (slots_view t)(i := None)" "sl_capacity t' = sl_capacity t"
    using typed_slots.remove_used [OF t(2), of i x] x t by auto
  have e': "fits_enc (\<lambda>x. x) n t'" using t(3) p(1) by (rule fits_enc_remove)
  have "store_view (to_bytes (\<lambda>x. x) n t') = slots_view t'"
    using of_bytes_to_bytes [OF p(2) e'] by (simp add: store_view_def)
  then show "\<exists>s'. store_remove s i = Some (1, s') \<and> store_ok s' \<and> store_view s' = (store_view s)(i := None)
      \<and> sr_capacity s' = sr_capacity s"
    using store_remove_eq_to_bytes [OF t(3), of i] t p store_ok_to_bytes [OF p(2) e']
    by (auto simp: to_bytes_def)
next
  fix s i assume ok: "store_ok s" and "0 \<le> i" "store_view s i = None"
  then show "store_remove s i = Some (0, s)"
    by (elim store_okE) (simp add: store_remove_eq_to_bytes slots_remove_unused)
qed

section \<open>Properties\<close>

text \<open>C25. Whatever struct layout \<open>enc\<close> is used, the operations of \<open>store.h\<close> on the bytes of a table do
  exactly what the typed operations do on the table: same keys, same results, same undefined cases.\<close>

theorem store_refines_slots:
  assumes "fits_enc enc n t" and "enc z = replicate n NUL" and "length (enc x) = n"
  shows "store_push_empty (Some (to_bytes enc n t)) =
      map_option (\<lambda>(k, t'). (kv_of n k, Some (to_bytes enc n t'))) (slots_push t z)
    \<and> store_push (Some (to_bytes enc n t)) (enc x) =
      map_option (\<lambda>(k, t'). (kv_of n k, Some (to_bytes enc n t'))) (slots_push t x)
    \<and> store_get (Some (to_bytes enc n t)) i =
      map_option (\<lambda>v. kv_of n (if v = None then None else Some i)) (slots_get t i)
    \<and> store_replace (Some (to_bytes enc n t)) i (enc x) =
      map_option (\<lambda>(r, t'). (r, Some (to_bytes enc n t'))) (slots_replace t i x)
    \<and> store_remove_at (Some (to_bytes enc n t)) i =
      map_option (\<lambda>(r, t'). (r, Some (to_bytes enc n t'))) (slots_remove_at t i)"
  using assms
  by (simp add: store_push_empty_to_bytes store_push_to_bytes store_get_to_bytes
      store_replace_to_bytes store_remove_to_bytes)

text \<open>C26. A push into a store with a free slot succeeds and stores the bytes; removing the returned
  key gives back the store's contents from before.\<close>

theorem store_push_remove:
  assumes "store_ok s" and "length x = sr_item_size s" and "store_length (Some s) < sr_capacity s"
  shows "\<exists>i s1 s2. store_push_key s x = Some (Some i, s1) \<and> store_view s1 i = Some x
    \<and> store_remove s1 i = Some (1, s2) \<and> store_view s2 = store_view s \<and> store_ok s2"
  using assms by (rule byte_store.push_remove)

text \<open>No slot is freed twice: the second removal of a key returns 0 and changes nothing.\<close>

theorem store_remove_twice:
  assumes "store_ok s" and "store_view s i = Some x"
  shows "\<exists>s'. store_remove s i = Some (1, s') \<and> store_remove s' i = Some (0, s') \<and> store_ok s'"
  using assms by (rule byte_store.remove_twice)

text \<open>C27. \<open>store_length\<close> is the number of used slots, a push raises it by one until the capacity is
  reached, and then a push returns \<open>KEYVALUE_NONE\<close> and changes nothing.\<close>

theorem store_length_counts:
  assumes ok: "store_ok s" and x: "length x = sr_item_size s"
  shows "store_length (Some s) = int (card (dom (store_view s)))
    \<and> (if store_length (Some s) < sr_capacity s
       then \<exists>i s'. store_push_key s x = Some (Some i, s') \<and> store_length (Some s') = store_length (Some s) + 1
       else store_push (Some s) x = Some (KEYVALUE_NONE, Some s))"
proof (cases "store_length (Some s) < sr_capacity s")
  case True
  then show ?thesis using byte_store.push_used [OF ok x] byte_store.used_card [OF ok] by auto
next
  case False
  then have "\<not> 0 < sr_open_cnt s" by (simp add: store_length_def)
  then show ?thesis
    using False byte_store.used_card [OF ok] by (simp add: store_push_def get_push_index_def)
qed

text \<open>A removed slot is the next one to be used: push after remove returns the same key.\<close>

theorem slots_reuse_removed:
  assumes ok: "slots_ok t" and v: "slots_view t i = Some y"
  shows "\<exists>t1 t2. slots_remove_at t i = Some (1, t1) \<and> slots_push t1 x = Some (Some i, t2)
    \<and> slots_ok t2 \<and> slots_view t2 = (slots_view t)(i \<mapsto> x)"
proof -
  obtain t1 where r: "slots_remove_at t i = Some (1, t1)" "slots_ok t1"
    "slots_view t1 = (slots_view t)(i := None)" "free_list t1 = free_list t @ [i]"
    using slots_remove_view [OF ok v] by blast
  have "0 < sl_open_cnt t1" using free_list_length [OF r(2)] r(4) by (cases "0 < sl_open_cnt t1") auto
  then show ?thesis using slots_push_view [OF r(2), of x] r by auto
qed

text \<open>\<open>store_get\<close> and \<open>store_is_used\<close> have no bounds check: an index outside the capacity reads
  outside the item array, while the removing operation refuses the indices above it.\<close>

theorem store_get_unchecked:
  assumes "store_ok s" and "i < 0 \<or> sr_capacity s \<le> i"
  shows "store_get (Some s) i = None \<and> store_is_used (Some s) i = None
    \<and> (sr_capacity s \<le> i \<longrightarrow> store_remove_at (Some s) i = Some (0, Some s))"
proof -
  from assms(1) obtain t n where t: "s = to_bytes (\<lambda>x. x) n t" "slots_ok t" "fits_enc (\<lambda>x. x) n t"
    "sr_capacity s = sl_capacity t" by (elim store_okE)
  have "rd (sl_cells t) i = None" using assms(2) t by (auto simp: rd_None_iff slots_ok_def)
  then have "ITEM_USED s (ITEM_IDX s i) = None" using used_to_bytes [OF t(3), of i] t(1) by simp
  then show ?thesis by (simp add: store_get_def store_is_used_def store_remove_at_def)
qed

text \<open>C28. \<open>store_new\<close> gives an empty store of the requested capacity, and \<open>store_reset\<close> brings any store
  back to exactly that state.\<close>

theorem store_new_reset:
  assumes "0 \<le> c" and "c \<le> INT_MAX" and "sizeof_Store + 4 * nat c + (n + 1) * nat c < SIZE_MOD"
    and "mmalloc (sizeof_Store + 4 * nat c + (n + 1) * nat c) = Some mem"
    and "length mem = sizeof_Store + 4 * nat c + (n + 1) * nat c"
    and "store_ok s" and "sr_capacity s = c" and "sr_item_size s = n"
  shows "\<exists>s0. store_new mmalloc c n = Some (Some s0) \<and> store_reset (Some s) = Some (Some s0)
    \<and> store_ok s0 \<and> store_view s0 = Map.empty \<and> store_length (Some s0) = 0"
proof -
  let ?z = "replicate n NUL"
  from assms(6,7,8) obtain t where t: "s = to_bytes (\<lambda>x. x) n t" "slots_ok t" "fits_enc (\<lambda>x. x) n t"
    "c = sl_capacity t" by (elim store_okE) auto
  have ok0: "slots_ok (slots_new c ?z)" using assms(1,2) by (rule slots_new_ok)
  have e0: "fits_enc (\<lambda>x. x) n (slots_new c ?z)" by (simp add: fits_enc_def slots_new_def)
  let ?s0 = "to_bytes (\<lambda>x. x) n (slots_new c ?z)"
  have "store_new mmalloc c n = Some (Some ?s0)"
    using assms(1-5) by (intro store_new_to_bytes) auto
  moreover have "store_reset (Some s) = Some (Some ?s0)"
    using store_reset_to_bytes [OF t(2,3), of ?z] assms(3) t by simp
  moreover have "store_view ?s0 = Map.empty"
    using of_bytes_to_bytes [OF ok0 e0] slots_new_ok(2) [OF assms(1,2)] by (simp add: store_view_def)
  moreover have "store_length (Some ?s0) = 0"
    by (simp add: store_length_def to_bytes_def slots_new_def)
  ultimately show ?thesis using store_ok_to_bytes [OF ok0 e0] by blast
qed

section \<open>Witnesses\<close>

definition demo_slots :: "byte list slots" where
  "demo_slots = \<lparr>sl_capacity = 2, sl_open_cnt = 1, sl_open = [1, 0],
     sl_cells = [(True, ''ab''), (False, ''cd'')]\<rparr>"

definition demo_store :: Store where
  "demo_store = to_bytes (\<lambda>x. x) 2 demo_slots"

lemma demo_slots_ok: "slots_ok demo_slots" "fits_enc (\<lambda>x. x) 2 demo_slots"
proof -
  have "i = 0 \<or> i = 1" if "0 \<le> i" "i < 2" for i :: int using that by auto
  then have "free_set demo_slots = {1}"
    by (fastforce simp: free_set_def demo_slots_def)
  then show "slots_ok demo_slots"
    by (simp add: slots_ok_def free_list_def demo_slots_def INT_MAX_def)
qed (simp add: fits_enc_def demo_slots_def)

lemma demo_store_ok: "store_ok demo_store" "sr_item_size demo_store = 2" "sr_capacity demo_store = 2"
  "store_length (Some demo_store) = 1" "store_view demo_store 0 = Some ''ab''"
  using store_ok_to_bytes [OF demo_slots_ok] of_bytes_to_bytes [OF demo_slots_ok]
  by (simp_all add: demo_store_def store_view_def)
    (simp_all add: to_bytes_def demo_slots_def store_length_def slots_view_def)

theorem store_refines_slots_witness:
  "store_push_empty (Some demo_store) =
     map_option (\<lambda>(k, t'). (kv_of 2 k, Some (to_bytes (\<lambda>x. x) 2 t'))) (slots_push demo_slots [NUL, NUL])"
  using store_refines_slots [OF demo_slots_ok(2), of "[NUL, NUL]" "''xy''" 0]
  by (simp add: demo_store_def)

theorem store_push_remove_witness:
  "\<exists>i s1 s2. store_push_key demo_store ''xy'' = Some (Some i, s1) \<and> store_remove s1 i = Some (1, s2)
     \<and> store_view s2 = store_view demo_store"
  using store_push_remove [OF demo_store_ok(1), of "''xy''"] by (auto simp: demo_store_ok)

theorem store_remove_twice_witness:
  "\<exists>s'. store_remove demo_store 0 = Some (1, s') \<and> store_remove s' 0 = Some (0, s')"
  using store_remove_twice [OF demo_store_ok(1,5)] by blast

theorem store_length_counts_witness:
  "store_length (Some demo_store) = int (card (dom (store_view demo_store)))
     \<and> (\<exists>i s'. store_push_key demo_store ''xy'' = Some (Some i, s') \<and> store_length (Some s') = 2)"
  using store_length_counts [OF demo_store_ok(1), of "''xy''"] by (simp add: demo_store_ok)

theorem slots_reuse_removed_witness:
  "\<exists>t1 t2. slots_remove_at demo_slots 0 = Some (1, t1) \<and> slots_push t1 ''xy'' = Some (Some 0, t2)"
proof -
  have "slots_view demo_slots 0 = Some ''ab''" by (simp add: slots_view_def demo_slots_def)
  then show ?thesis using slots_reuse_removed [OF demo_slots_ok(1), of 0 "''ab''" "''xy''"] by blast
qed

theorem store_get_unchecked_witness:
  "store_get (Some demo_store) 2 = None \<and> store_remove_at (Some demo_store) 2 = Some (0, Some demo_store)"
  using store_get_unchecked [OF demo_store_ok(1), of 2] by (simp add: demo_store_ok)

theorem store_new_reset_witness:
  "\<exists>s0. store_new (\<lambda>k. Some (replicate k NUL)) 2 2 = Some (Some s0)
     \<and> store_reset (Some demo_store) = Some (Some s0) \<and> store_length (Some s0) = 0"
  using store_new_reset [of 2 2 "\<lambda>k. Some (replicate k NUL)" _ demo_store]
  by (simp add: demo_store_ok INT_MAX_def SIZE_MOD_def sizeof_Store_def) blast

end
