(* ===== verification/Stack.thy ===== *)
theory Stack
  imports Prelude "HOL-Library.Multiset"
begin

text \<open>
  The stack of \<open>src/src/stack.h\<close>: a header of four 8-byte fields followed, in the same
  block, by \<open>capacity * item_size\<close> bytes of items. The model keeps the bytes: \<open>st_mem\<close>
  is the part of the block behind the header, \<open>st_base\<close> the block's address, \<open>st_data\<close>
  the pointer field, and an item access goes through that pointer. The locale
  \<open>bounded_table\<close> is the contract the server relies on for its table of clients; it is
  interpreted on the byte-level operations.
\<close>

section \<open>Data and operations\<close>

record Stack =
  st_count :: nat
  st_capacity :: nat
  st_item_size :: nat
  st_data :: nat
  st_base :: nat
  st_mem :: "byte list"

definition sizeof_Stack :: nat where
  "sizeof_Stack = 32"

text \<open>The position in \<open>st_mem\<close> of the address \<open>data + off\<close>.\<close>

definition mem_pos :: "Stack \<Rightarrow> nat \<Rightarrow> int" where
  "mem_pos s off = int (st_data s) + int off - int (st_base s + sizeof_Stack)"

definition STACK_ITEM :: "Stack \<Rightarrow> nat \<Rightarrow> nat" where
  "STACK_ITEM s i = wrap64 (i * st_item_size s)"

text \<open>
  \<open>MMALLOC\<close> is the parameter \<open>mmalloc\<close>: the address and the bytes of a block of the size asked
  for, or NULL. The outer \<^typ>\<open>'a option\<close> is undefined behaviour, the inner one NULL.
\<close>

definition stack_new ::
  "(nat \<Rightarrow> (nat \<times> byte list) option) \<Rightarrow> nat \<Rightarrow> nat \<Rightarrow> Stack option option" where
  "stack_new mmalloc capacity item_size =
     (case mmalloc (wrap64 (sizeof_Stack + wrap64 (item_size * capacity))) of
        None \<Rightarrow> Some None
      | Some (addr, mem) \<Rightarrow>
          if length mem < sizeof_Stack then None
          else Some (Some \<lparr>st_count = 0, st_capacity = capacity, st_item_size = item_size,
                           st_data = addr + sizeof_Stack, st_base = addr,
                           st_mem = drop sizeof_Stack mem\<rparr>))"

definition stack_push :: "Stack \<Rightarrow> byte list \<Rightarrow> (nat \<times> Stack) option" where
  "stack_push s item =
     (if st_capacity s \<le> st_count s then Some (SIZE_MOD - 1, s)
      else do {
        x \<leftarrow> rd_block item 0 (st_item_size s);
        m \<leftarrow> wr_block (st_mem s) (mem_pos s (STACK_ITEM s (st_count s))) x;
        let s' = s\<lparr>st_mem := m, st_count := wrap64 (st_count s + 1)\<rparr>;
        Some (st_count s' - 1, s')
      })"

definition stack_push_new :: "Stack \<Rightarrow> (nat option \<times> Stack) option" where
  "stack_push_new s =
     (if st_capacity s \<le> st_count s then Some (None, s)
      else do {
        let ptr = STACK_ITEM s (st_count s);
        m \<leftarrow> wr_block (st_mem s) (mem_pos s ptr) (replicate (st_item_size s) NUL);
        Some (Some (st_data s + ptr), s\<lparr>st_mem := m, st_count := wrap64 (st_count s + 1)\<rparr>)
      })"

definition stack_pop :: "Stack \<Rightarrow> nat option \<times> Stack" where
  "stack_pop s =
     (if st_count s < 1 then (None, s)
      else (Some (st_data s + STACK_ITEM s (st_count s - 1)), s\<lparr>st_count := st_count s - 1\<rparr>))"

text \<open>The comparison \<open>i >= s->count\<close> converts \<open>i\<close> to \<open>size_t\<close>.\<close>

definition stack_get :: "Stack \<Rightarrow> int \<Rightarrow> nat option" where
  "stack_get s i =
     (if st_count s \<le> to_size i then None else Some (st_data s + STACK_ITEM s (to_size i)))"

text \<open>The item bytes behind a pointer that \<open>stack_get\<close> or \<open>stack_pop\<close> returned.\<close>

definition stack_load :: "Stack \<Rightarrow> nat \<Rightarrow> byte list option" where
  "stack_load s p = rd_block (st_mem s) (int p - int (st_base s + sizeof_Stack)) (st_item_size s)"

function shift_down :: "Stack \<Rightarrow> int \<Rightarrow> (Stack \<times> int) option" where
  "shift_down s i =
     (if to_size i < st_count s - 1 then
        (if INT_MAX \<le> i then None
         else do {
           x \<leftarrow> rd_block (st_mem s) (mem_pos s (STACK_ITEM s (to_size (i + 1)))) (st_item_size s);
           m \<leftarrow> wr_block (st_mem s) (mem_pos s (STACK_ITEM s (to_size i))) x;
           shift_down (s\<lparr>st_mem := m\<rparr>) (i + 1)
         })
      else Some (s, i))"
  by pat_completeness auto
termination
  by (relation "measure (\<lambda>(s, i). nat (INT_MAX - i))") auto

declare shift_down.simps [simp del]

definition stack_remove_at :: "Stack \<Rightarrow> int \<Rightarrow> (nat \<times> Stack) option" where
  "stack_remove_at s i =
     (if st_count s \<le> to_size i then Some (0, s)
      else do {
        (s1, j) \<leftarrow> shift_down s i;
        m \<leftarrow> wr_block (st_mem s1) (mem_pos s1 (STACK_ITEM s1 (to_size j)))
               (replicate (st_item_size s1) NUL);
        Some (1, s1\<lparr>st_mem := m, st_count := st_count s1 - 1\<rparr>)
      })"

text \<open>When the removed item is the last of several, \<open>memcpy\<close> copies it onto itself; the model takes this
  as a copy without effect, as implementations do.\<close>

definition stack_remove_at_fast :: "Stack \<Rightarrow> int \<Rightarrow> (nat \<times> Stack) option" where
  "stack_remove_at_fast s i =
     (if st_count s \<le> to_size i then Some (0, s)
      else do {
        let lst = mem_pos s (STACK_ITEM s (st_count s - 1));
        m \<leftarrow> (if 1 < st_count s
              then do {
                x \<leftarrow> rd_block (st_mem s) lst (st_item_size s);
                wr_block (st_mem s) (mem_pos s (STACK_ITEM s (to_size i))) x
              }
              else Some (st_mem s));
        m' \<leftarrow> wr_block m lst (replicate (st_item_size s) NUL);
        Some (1, s\<lparr>st_mem := m', st_count := st_count s - 1\<rparr>)
      })"

text \<open>
  \<open>stack_reset\<close> clears \<open>item_size * count\<close> bytes starting at the header, not at \<open>data\<close>:
  the low-order bytes of \<open>count\<close>, \<open>capacity\<close>, \<open>item_size\<close> and \<open>data\<close> in that order, then
  item bytes.
\<close>

definition clear_low :: "nat \<Rightarrow> nat \<Rightarrow> nat" where
  "clear_low n w = w div 256 ^ min n 8 * 256 ^ min n 8"

definition stack_reset :: "Stack option \<Rightarrow> (nat \<times> Stack option) option" where
  "stack_reset so =
     (case so of
        None \<Rightarrow> Some (0, None)
      | Some s \<Rightarrow> do {
          let n = wrap64 (st_item_size s * st_count s);
          m \<leftarrow> wr_block (st_mem s) 0 (replicate (n - 32) NUL);
          Some (1, Some (s\<lparr>st_capacity := clear_low (n - 8) (st_capacity s),
                           st_item_size := clear_low (n - 16) (st_item_size s),
                           st_data := clear_low (n - 24) (st_data s),
                           st_mem := m, st_count := 0\<rparr>))
        })"

section \<open>Invariant and view\<close>

definition stack_ok :: "Stack \<Rightarrow> bool" where
  "stack_ok s \<longleftrightarrow> st_data s = st_base s + sizeof_Stack \<and> st_count s \<le> st_capacity s
     \<and> length (st_mem s) = st_capacity s * st_item_size s
     \<and> st_capacity s \<le> 2147483647
     \<and> st_capacity s * st_item_size s + sizeof_Stack < SIZE_MOD"

definition item :: "Stack \<Rightarrow> nat \<Rightarrow> byte list" where
  "item s k = take (st_item_size s) (drop (k * st_item_size s) (st_mem s))"

definition items :: "Stack \<Rightarrow> byte list list" where
  "items s = map (item s) [0..<st_count s]"

lemma items_length [simp]: "length (items s) = st_count s"
  by (simp add: items_def)

lemma items_nth [simp]: "k < st_count s \<Longrightarrow> items s ! k = item s k"
  by (simp add: items_def)

lemma mult_room: "k < c \<Longrightarrow> k * n + n \<le> c * (n :: nat)"
  by (metis Suc_leI add.commute mult_Suc mult_le_mono1)

lemma stack_item_pos:
  assumes "stack_ok s" and "k < st_capacity s"
  shows "STACK_ITEM s k = k * st_item_size s" and "mem_pos s (STACK_ITEM s k) = int (k * st_item_size s)"
proof -
  have "k * st_item_size s + st_item_size s \<le> st_capacity s * st_item_size s"
    using assms(2) by (rule mult_room)
  then show e: "STACK_ITEM s k = k * st_item_size s"
    using assms(1) by (simp add: STACK_ITEM_def stack_ok_def)
  then show "mem_pos s (STACK_ITEM s k) = int (k * st_item_size s)"
    using assms(1) by (simp add: mem_pos_def stack_ok_def)
qed

lemma stack_room:
  assumes "stack_ok s" and "k < st_capacity s"
  shows "k * st_item_size s + st_item_size s \<le> length (st_mem s)"
  using assms mult_room [OF assms(2), of "st_item_size s"] by (simp add: stack_ok_def)

text \<open>Writing one item slot: it succeeds and changes that item only.\<close>

definition put_item :: "Stack \<Rightarrow> nat \<Rightarrow> byte list \<Rightarrow> byte list" where
  "put_item s k x = take (k * st_item_size s) (st_mem s) @ x
     @ drop (k * st_item_size s + length x) (st_mem s)"

lemma wr_item:
  assumes "stack_ok s" and "k < st_capacity s" and "length x = st_item_size s"
  shows "wr_block (st_mem s) (mem_pos s (STACK_ITEM s k)) x = Some (put_item s k x)"
  using stack_room [OF assms(1,2)] assms
  by (simp only: stack_item_pos(2) wr_block_nat) (simp add: put_item_def)

lemma rd_item:
  assumes "stack_ok s" and "k < st_capacity s"
  shows "rd_block (st_mem s) (mem_pos s (STACK_ITEM s k)) (st_item_size s) = Some (item s k)"
  using stack_room [OF assms] assms
  by (simp only: stack_item_pos(2) rd_block_nat) (simp add: item_def)

lemma item_put_item:
  assumes ok: "stack_ok s" and k: "k < st_capacity s" and x: "length x = st_item_size s"
    and j: "j < st_capacity s"
  shows "take (st_item_size s) (drop (j * st_item_size s) (put_item s k x)) =
    (if j = k then x else item s j)"
proof -
  have w: "wr_block (st_mem s) (int (k * st_item_size s)) x = Some (put_item s k x)"
    using wr_item [OF ok k x] stack_item_pos [OF ok k] by simp
  have len: "length (put_item s k x) = length (st_mem s)" using w by (rule wr_block_length)
  have r: "rd_block (put_item s k x) (int (j * st_item_size s)) (st_item_size s) =
      Some (take (st_item_size s) (drop (j * st_item_size s) (put_item s k x)))"
    using stack_room [OF ok j] by (simp only: rd_block_nat) (simp add: len)
  show ?thesis
  proof (cases "j = k")
    case True
    then show ?thesis using rd_wr_block_same [OF w] r x by simp
  next
    case False
    then have "j * st_item_size s + st_item_size s \<le> k * st_item_size s
        \<or> k * st_item_size s + length x \<le> j * st_item_size s"
      using mult_room [of j k "st_item_size s"] mult_room [of k j "st_item_size s"] x
      by (cases "j < k") auto
    then have "rd_block (put_item s k x) (int (j * st_item_size s)) (st_item_size s) =
        rd_block (st_mem s) (int (j * st_item_size s)) (st_item_size s)"
      by (rule rd_wr_block_other [OF w])
    then show ?thesis
      using False r rd_item [OF ok j] stack_item_pos [OF ok j] by simp
  qed
qed

lemma put_item_length:
  "stack_ok s \<Longrightarrow> k < st_capacity s \<Longrightarrow> length x = st_item_size s \<Longrightarrow>
   length (put_item s k x) = length (st_mem s)"
  using wr_block_length [OF wr_item] by blast

lemma stack_ok_put:
  assumes "stack_ok s" and "k < st_capacity s" and "length x = st_item_size s"
    and "c \<le> st_capacity s"
  shows "stack_ok (s\<lparr>st_mem := put_item s k x, st_count := c\<rparr>)"
  using assms put_item_length [OF assms(1-3)] by (simp add: stack_ok_def)

lemma item_put:
  assumes "stack_ok s" and "k < st_capacity s" and "length x = st_item_size s" and "j < st_capacity s"
  shows "item (s\<lparr>st_mem := put_item s k x, st_count := c\<rparr>) j = (if j = k then x else item s j)"
  using item_put_item [OF assms] by (simp add: item_def)

lemma item_length: "stack_ok s \<Longrightarrow> k < st_capacity s \<Longrightarrow> length (item s k) = st_item_size s"
  using rd_block_length [OF rd_item] by blast

lemma to_size_index: "k < 2147483648 \<Longrightarrow> to_size (int k) = k"
  by (simp add: to_size_def)

lemma stack_ok_count: "stack_ok s \<Longrightarrow> k < st_count s \<Longrightarrow> k < st_capacity s \<and> k < 2147483648"
  by (simp add: stack_ok_def)

lemma count_le: "stack_ok s \<Longrightarrow> st_count s \<le> st_capacity s"
  by (simp add: stack_ok_def)

section \<open>The operations on the view\<close>

lemma stack_new_view:
  assumes "mmalloc (sizeof_Stack + item_size * capacity) = Some (addr, mem)"
    and "length mem = sizeof_Stack + item_size * capacity"
    and "capacity \<le> 2147483647" and "sizeof_Stack + item_size * capacity < SIZE_MOD"
  shows "\<exists>s. stack_new mmalloc capacity item_size = Some (Some s) \<and> stack_ok s \<and> items s = []
    \<and> st_capacity s = capacity \<and> st_item_size s = item_size"
  using assms by (simp add: stack_new_def stack_ok_def items_def mult.commute)

lemma stack_push_view:
  assumes ok: "stack_ok s" and x: "length x = st_item_size s" and lt: "st_count s < st_capacity s"
  shows "\<exists>s'. stack_push s x = Some (st_count s, s') \<and> stack_ok s' \<and> items s' = items s @ [x]
    \<and> st_capacity s' = st_capacity s \<and> st_item_size s' = st_item_size s"
proof -
  let ?s' = "s\<lparr>st_mem := put_item s (st_count s) x, st_count := st_count s + 1\<rparr>"
  have w: "wrap64 (st_count s + 1) = st_count s + 1"
    using ok lt by (simp add: stack_ok_def SIZE_MOD_def)
  have "stack_push s x = Some (st_count s, ?s')"
    using lt x w wr_item [OF ok lt x] rd_block_nat [of x 0 "st_item_size s"]
    by (simp add: stack_push_def)
  moreover have "stack_ok ?s'" using ok lt x by (intro stack_ok_put) simp_all
  moreover have "items ?s' = items s @ [x]"
    using ok lt x item_put [OF ok lt x] by (auto simp: items_def)
  ultimately show ?thesis by auto
qed

lemma stack_push_full:
  "st_capacity s \<le> st_count s \<Longrightarrow> stack_push s x = Some (SIZE_MOD - 1, s)"
  by (simp add: stack_push_def)

lemma stack_push_new_view:
  assumes ok: "stack_ok s" and lt: "st_count s < st_capacity s"
  shows "\<exists>p s'. stack_push_new s = Some (Some p, s') \<and> stack_ok s'
    \<and> items s' = items s @ [replicate (st_item_size s) NUL]
    \<and> stack_load s' p = Some (replicate (st_item_size s) NUL)"
proof -
  let ?z = "replicate (st_item_size s) NUL"
  let ?s' = "s\<lparr>st_mem := put_item s (st_count s) ?z, st_count := st_count s + 1\<rparr>"
  have x: "length ?z = st_item_size s" by simp
  have w: "wrap64 (st_count s + 1) = st_count s + 1"
    using ok lt by (simp add: stack_ok_def SIZE_MOD_def)
  have e: "stack_push_new s = Some (Some (st_data s + STACK_ITEM s (st_count s)), ?s')"
    using lt w wr_item [OF ok lt x] by (simp add: stack_push_new_def)
  have ok': "stack_ok ?s'" using ok lt x by (intro stack_ok_put) simp_all
  moreover have "items ?s' = items s @ [?z]"
    using ok lt item_put [OF ok lt x] by (auto simp: items_def)
  moreover have "stack_load ?s' (st_data s + STACK_ITEM s (st_count s)) = Some ?z"
    using rd_item [OF ok', of "st_count s"] lt item_put [OF ok lt x lt]
    by (simp add: stack_load_def mem_pos_def STACK_ITEM_def)
  ultimately show ?thesis using e by auto
qed

lemma stack_get_view:
  assumes ok: "stack_ok s" and lt: "k < st_count s"
  shows "\<exists>p. stack_get s (int k) = Some p \<and> stack_load s p = Some (items s ! k)"
  using rd_item [OF ok, of k] stack_ok_count [OF ok lt] lt
  by (simp add: stack_get_def to_size_index stack_load_def mem_pos_def)

lemma stack_get_out:
  assumes ok: "stack_ok s" and i: "in_int32 i" and out: "i < 0 \<or> int (st_count s) \<le> i"
  shows "stack_get s i = None"
proof (cases "i < 0")
  case True
  then have "to_size i = SIZE_MOD - nat (- i)" using i by (rule to_size_neg)
  moreover have "nat (- i) \<le> 2147483648" using i by (auto simp: in_int32_def)
  moreover have "st_count s \<le> 2147483647" using ok by (simp add: stack_ok_def)
  ultimately show ?thesis by (simp add: stack_get_def SIZE_MOD_def)
next
  case False
  then show ?thesis using out i by (simp add: stack_get_def to_size_nonneg)
qed

lemma stack_pop_view:
  assumes ok: "stack_ok s" and ne: "0 < st_count s"
  shows "\<exists>p s'. stack_pop s = (Some p, s') \<and> stack_ok s' \<and> items s' = butlast (items s)
    \<and> stack_load s' p = Some (last (items s)) \<and> st_capacity s' = st_capacity s
    \<and> st_item_size s' = st_item_size s"
proof -
  let ?s' = "s\<lparr>st_count := st_count s - 1\<rparr>"
  have lt: "st_count s - 1 < st_count s" using ne by simp
  then have lt': "st_count s - 1 < st_capacity s" using stack_ok_count [OF ok lt] by simp
  have it: "item ?s' = item s" by (simp add: item_def fun_eq_iff)
  have "stack_pop s = (Some (st_data s + STACK_ITEM s (st_count s - 1)), ?s')"
    using ne by (simp add: stack_pop_def)
  moreover have "stack_ok ?s'" using ok by (auto simp: stack_ok_def)
  moreover have "items ?s' = butlast (items s)"
    using ne it by (cases "st_count s") (simp_all add: items_def)
  moreover have "last (items s) = item s (st_count s - 1)"
    using ne by (cases "st_count s") (simp_all add: items_def)
  moreover have "stack_load ?s' (st_data s + STACK_ITEM s (st_count s - 1)) = Some (item s (st_count s - 1))"
    using rd_item [OF ok lt'] by (simp add: stack_load_def mem_pos_def)
  ultimately show ?thesis by simp
qed

lemma butlast_update_last:
  "k < length xs \<Longrightarrow> butlast (xs[k := last xs]) =
     map (\<lambda>j. if j = k then last xs else xs ! j) [0..<length xs - 1]"
  by (rule nth_equalityI) (auto simp: nth_butlast nth_list_update)

lemma stack_remove_at_fast_view:
  assumes ok: "stack_ok s" and lt: "k < st_count s"
  shows "\<exists>s'. stack_remove_at_fast s (int k) = Some (1, s') \<and> stack_ok s'
    \<and> items s' = butlast ((items s)[k := last (items s)])
    \<and> st_capacity s' = st_capacity s \<and> st_item_size s' = st_item_size s"
proof -
  let ?l = "st_count s - 1" and ?z = "replicate (st_item_size s) NUL"
  have k: "k < st_capacity s" "k < 2147483648" using stack_ok_count [OF ok lt] by auto
  have l: "?l < st_capacity s" using stack_ok_count [OF ok, of ?l] lt by simp
  have lsz: "length (item s ?l) = st_item_size s" using ok l by (rule item_length)
  define s1 where "s1 = s\<lparr>st_mem := put_item s k (item s ?l), st_count := st_count s\<rparr>"
  have ok1: "stack_ok s1" unfolding s1_def using ok k lsz count_le [OF ok] by (intro stack_ok_put)
  have it1: "j < st_capacity s \<Longrightarrow> item s1 j = (if j = k then item s ?l else item s j)" for j
    unfolding s1_def by (rule item_put [OF ok k(1) lsz])
  have one: "item s ?l = item s k" if "\<not> 1 < st_count s"
  proof -
    have "k = ?l" using that lt by simp
    then show ?thesis by simp
  qed
  define m where "m = (if 1 < st_count s then st_mem s1 else st_mem s)"
  define s2 where "s2 = s\<lparr>st_mem := m\<rparr>"
  have ok2: "stack_ok s2" using ok1 ok by (simp add: s2_def m_def s1_def stack_ok_def)
  have it2: "j < st_capacity s \<Longrightarrow> item s2 j = (if j = k then item s ?l else item s j)" for j
    using it1 [of j] one by (auto simp: item_def s2_def m_def s1_def)
  have fld: "st_item_size s2 = st_item_size s" "st_capacity s2 = st_capacity s"
    "mem_pos s2 = mem_pos s" "STACK_ITEM s2 = STACK_ITEM s"
    by (simp_all add: s2_def mem_pos_def STACK_ITEM_def fun_eq_iff)
  let ?s' = "s2\<lparr>st_mem := put_item s2 ?l ?z, st_count := ?l\<rparr>"
  have z: "length ?z = st_item_size s2" using fld by simp
  have w2: "wr_block m (mem_pos s (STACK_ITEM s ?l)) ?z = Some (put_item s2 ?l ?z)"
    using wr_item [OF ok2 _ z, of ?l] l fld by (simp add: s2_def)
  have "stack_remove_at_fast s (int k) = Some (1, ?s')"
    using lt k w2 rd_item [OF ok l] wr_item [OF ok k(1) lsz]
    by (simp add: stack_remove_at_fast_def to_size_index m_def s1_def s2_def split: if_splits)
  moreover have "stack_ok ?s'"
    using ok2 l z fld by (intro stack_ok_put) simp_all
  moreover have "items ?s' = butlast ((items s)[k := last (items s)])"
  proof -
    have la: "last (items s) = item s ?l" using lt by (cases "st_count s") (simp_all add: items_def)
    have "items ?s' = map (\<lambda>j. if j = k then item s ?l else item s j) [0..<?l]"
      using item_put [OF ok2 _ z, of ?l] it2 l fld by (auto simp: items_def)
    also have "\<dots> = butlast ((items s)[k := last (items s)])"
      using lt la by (subst butlast_update_last) auto
    finally show ?thesis .
  qed
  ultimately show ?thesis using fld by auto
qed

lemma shift_down_view:
  "stack_ok s \<Longrightarrow> k < st_count s \<Longrightarrow>
   \<exists>m. shift_down s (int k) = Some (s\<lparr>st_mem := m\<rparr>, int (st_count s - 1)) \<and> stack_ok (s\<lparr>st_mem := m\<rparr>)
     \<and> (\<forall>j < st_capacity s. item (s\<lparr>st_mem := m\<rparr>) j =
          (if k \<le> j \<and> j < st_count s - 1 then item s (j + 1) else item s j))"
proof (induction "st_count s - 1 - k" arbitrary: s k)
  case 0
  then have k: "k = st_count s - 1" "k < 2147483648" using stack_ok_count by auto
  then have "shift_down s (int k) = Some (s\<lparr>st_mem := st_mem s\<rparr>, int (st_count s - 1))"
    by (simp add: shift_down.simps to_size_index)
  then show ?case using 0 k by (intro exI [of _ "st_mem s"]) auto
next
  case (Suc n)
  note ok = Suc.prems(1)
  have lt: "k < st_count s - 1" "k + 1 < st_count s" using Suc.hyps(2) by simp_all
  have k: "k < st_capacity s" "k + 1 < st_capacity s" "k + 1 < 2147483648"
    using stack_ok_count [OF ok lt(2)] by auto
  let ?x = "item s (k + 1)"
  have x: "length ?x = st_item_size s" using ok k(2) by (rule item_length)
  define s1 where "s1 = s\<lparr>st_mem := put_item s k ?x, st_count := st_count s\<rparr>"
  have ok1: "stack_ok s1"
    unfolding s1_def using ok k x count_le [OF ok] by (intro stack_ok_put)
  have it1: "j < st_capacity s \<Longrightarrow> item s1 j = (if j = k then ?x else item s j)" for j
    unfolding s1_def by (rule item_put [OF ok k(1) x])
  have fld: "st_count s1 = st_count s" "st_capacity s1 = st_capacity s" by (simp_all add: s1_def)
  have i1: "to_size (int k + 1) = k + 1" using to_size_index [OF k(3)] by (simp add: add.commute)
  have "shift_down s (int k) = shift_down s1 (int (k + 1))"
    using lt k rd_item [OF ok k(2)] wr_item [OF ok k(1) x] i1
    by (simp add: shift_down.simps [of s "int k"] to_size_index INT_MAX_def s1_def add.commute)
  moreover have "n = st_count s1 - 1 - (k + 1)" "k + 1 < st_count s1"
    using Suc.hyps(2) lt fld by simp_all
  then obtain m where "shift_down s1 (int (k + 1)) = Some (s1\<lparr>st_mem := m\<rparr>, int (st_count s - 1))"
    and "stack_ok (s1\<lparr>st_mem := m\<rparr>)"
    and m: "\<And>j. j < st_capacity s \<Longrightarrow> item (s1\<lparr>st_mem := m\<rparr>) j =
          (if k + 1 \<le> j \<and> j < st_count s - 1 then item s1 (j + 1) else item s1 j)"
    using Suc.hyps(1) [of s1 "k + 1"] ok1 unfolding fld by blast
  moreover have "s1\<lparr>st_mem := m\<rparr> = s\<lparr>st_mem := m\<rparr>" by (simp add: s1_def)
  moreover have "item (s1\<lparr>st_mem := m\<rparr>) j =
      (if k \<le> j \<and> j < st_count s - 1 then item s (j + 1) else item s j)" if "j < st_capacity s" for j
    using m [OF that] it1 [OF that] it1 [of "j + 1"] that lt count_le [OF ok] by auto
  ultimately show ?case by metis
qed

lemma stack_remove_at_view:
  assumes ok: "stack_ok s" and lt: "k < st_count s"
  shows "\<exists>s'. stack_remove_at s (int k) = Some (1, s') \<and> stack_ok s'
    \<and> items s' = take k (items s) @ drop (Suc k) (items s)
    \<and> st_capacity s' = st_capacity s \<and> st_item_size s' = st_item_size s"
proof -
  let ?l = "st_count s - 1" and ?z = "replicate (st_item_size s) NUL"
  have k: "k < 2147483648" and l: "?l < st_capacity s" "?l < 2147483648"
    using stack_ok_count [OF ok lt] stack_ok_count [OF ok, of ?l] lt by auto
  obtain m where sh: "shift_down s (int k) = Some (s\<lparr>st_mem := m\<rparr>, int ?l)"
    and ok1: "stack_ok (s\<lparr>st_mem := m\<rparr>)"
    and it1: "\<And>j. j < st_capacity s \<Longrightarrow> item (s\<lparr>st_mem := m\<rparr>) j =
        (if k \<le> j \<and> j < ?l then item s (j + 1) else item s j)"
    using shift_down_view [OF ok lt] by auto
  define s1 where "s1 = s\<lparr>st_mem := m\<rparr>"
  have z: "length ?z = st_item_size s1" by (simp add: s1_def)
  have l1: "?l < st_capacity s1" using l by (simp add: s1_def)
  let ?s' = "s1\<lparr>st_mem := put_item s1 ?l ?z, st_count := ?l\<rparr>"
  have ok1': "stack_ok s1" using ok1 by (simp add: s1_def)
  have "stack_remove_at s (int k) = Some (1, ?s')"
    using lt k sh wr_item [OF ok1' l1 z] to_size_index [OF l(2)]
    by (simp add: stack_remove_at_def to_size_index s1_def del: of_nat_diff)
  moreover have "stack_ok ?s'" using ok1' l1 z by (intro stack_ok_put) (simp_all add: s1_def)
  moreover have "items ?s' = take k (items s) @ drop (Suc k) (items s)"
  proof (rule nth_equalityI)
    show len: "length (items ?s') = length (take k (items s) @ drop (Suc k) (items s))"
      using lt by simp
    fix j assume j: "j < length (items ?s')"
    then have "items ?s' ! j = item s1 j"
      using item_put [OF ok1' l1 z, of j] l by (simp add: s1_def)
    also have "\<dots> = (take k (items s) @ drop (Suc k) (items s)) ! j"
      using j it1 [of j] l lt by (auto simp: s1_def nth_append)
    finally show "items ?s' ! j = (take k (items s) @ drop (Suc k) (items s)) ! j" .
  qed
  ultimately show ?thesis by (auto simp: s1_def)
qed

lemma stack_remove_out:
  assumes "stack_ok s" and "in_int32 i" and "i < 0 \<or> int (st_count s) \<le> i"
  shows "stack_remove_at_fast s i = Some (0, s)" and "stack_remove_at s i = Some (0, s)"
proof -
  have "st_count s \<le> to_size i"
    using stack_get_out [OF assms] by (simp add: stack_get_def split: if_splits)
  then show "stack_remove_at_fast s i = Some (0, s)" and "stack_remove_at s i = Some (0, s)"
    by (simp_all add: stack_remove_at_fast_def stack_remove_at_def)
qed

section \<open>The table interface\<close>

text \<open>
  What a user of a bounded table relies on: pushing appends or reports that the table is full,
  and the fast removal takes one entry out, leaving the others. The laws are about the view.
\<close>

locale bounded_table =
  fixes inv :: "'s \<Rightarrow> bool"
    and view :: "'s \<Rightarrow> 'a list"
    and cap :: "'s \<Rightarrow> nat"
    and fit :: "'s \<Rightarrow> 'a \<Rightarrow> bool"
    and push :: "'s \<Rightarrow> 'a \<Rightarrow> (nat \<times> 's) option"
    and del :: "'s \<Rightarrow> int \<Rightarrow> (nat \<times> 's) option"
  assumes view_cap: "inv s \<Longrightarrow> length (view s) \<le> cap s"
    and push_room: "inv s \<Longrightarrow> fit s x \<Longrightarrow> length (view s) < cap s \<Longrightarrow>
      \<exists>s'. push s x = Some (length (view s), s') \<and> inv s' \<and> view s' = view s @ [x] \<and> cap s' = cap s"
    and push_full: "inv s \<Longrightarrow> length (view s) = cap s \<Longrightarrow> push s x = Some (SIZE_MOD - 1, s)"
    and del_in: "inv s \<Longrightarrow> k < length (view s) \<Longrightarrow>
      \<exists>s'. del s (int k) = Some (1, s') \<and> inv s'
        \<and> view s' = butlast ((view s)[k := last (view s)]) \<and> cap s' = cap s"
    and del_out: "inv s \<Longrightarrow> in_int32 i \<Longrightarrow> i < 0 \<or> int (length (view s)) \<le> i \<Longrightarrow> del s i = Some (0, s)"
begin

lemma mset_swap_out:
  assumes "k < length xs"
  shows "mset (butlast (xs[k := last xs])) = mset xs - {# xs ! k #}"
proof -
  let ?ys = "xs[k := last xs]"
  have ne: "?ys \<noteq> []" using assms by auto
  have la: "last ?ys = last xs"
    using assms by (subst last_list_update) auto
  have "mset ?ys = mset (butlast ?ys) + {# last ?ys #}"
    by (subst append_butlast_last_id [OF ne, symmetric]) (simp del: append_butlast_last_id)
  moreover have "mset ?ys = mset xs - {# xs ! k #} + {# last xs #}"
    using assms by (simp add: mset_update)
  ultimately show ?thesis using la by simp
qed

text \<open>No entry but the removed one is lost, and none appears.\<close>

lemma del_mset:
  assumes "inv s" and "k < length (view s)"
  shows "\<exists>s'. del s (int k) = Some (1, s') \<and> inv s' \<and> mset (view s') = mset (view s) - {# view s ! k #}"
  using del_in [OF assms] mset_swap_out [OF assms(2)] by metis

lemma del_distinct:
  assumes "inv s" and "distinct (view s)" and "k < length (view s)"
  shows "\<exists>s'. del s (int k) = Some (1, s') \<and> inv s' \<and> distinct (view s')
    \<and> set (view s') = set (view s) - {view s ! k}"
proof -
  obtain s' where d: "del s (int k) = Some (1, s')" and i: "inv s'"
    and m: "mset (view s') = mset (view s) - {# view s ! k #}"
    using del_mset [OF assms(1,3)] by blast
  have r: "mset (remove1 (view s ! k) (view s)) = mset (view s')" using m by simp
  then have "distinct (remove1 (view s ! k) (view s)) = distinct (view s')"
    by (rule mset_eq_imp_distinct_iff)
  then have "distinct (view s')" using assms(2) by (simp add: distinct_remove1)
  moreover have "set (view s') = set (view s) - {view s ! k}"
    using mset_eq_setD [OF r] assms(2) by (simp add: set_remove1_eq)
  ultimately show ?thesis using d i by blast
qed

text \<open>Whatever is pushed, an operation never takes the table past its capacity.\<close>

lemma push_bounded:
  assumes "inv s" and "fit s x" and "push s x = Some (r, s')"
  shows "inv s' \<and> length (view s') \<le> cap s \<and> (\<exists>zs. view s' = view s @ zs)"
proof (cases "length (view s) < cap s")
  case True
  then show ?thesis using push_room [OF assms(1,2)] assms(3) by auto
next
  case False
  then have "length (view s) = cap s" using view_cap [OF assms(1)] by simp
  then show ?thesis using push_full [OF assms(1)] assms(1,3) by auto
qed

end

interpretation stack_table: bounded_table stack_ok items st_capacity
  "\<lambda>s x. length x = st_item_size s" stack_push stack_remove_at_fast
proof unfold_locales
  fix s :: Stack and x :: "byte list"
  assume "stack_ok s" "length x = st_item_size s" "length (items s) < st_capacity s"
  then show "\<exists>s'. stack_push s x = Some (length (items s), s') \<and> stack_ok s' \<and> items s' = items s @ [x]
      \<and> st_capacity s' = st_capacity s"
    using stack_push_view [of s x] by auto
next
  fix s :: Stack and k assume "stack_ok s" "k < length (items s)"
  then show "\<exists>s'. stack_remove_at_fast s (int k) = Some (1, s') \<and> stack_ok s'
      \<and> items s' = butlast ((items s)[k := last (items s)]) \<and> st_capacity s' = st_capacity s"
    using stack_remove_at_fast_view [of s k] by auto
qed (auto simp: count_le stack_push_full stack_remove_out)

section \<open>Properties\<close>

text \<open>C21. Pushing an item and popping gives a pointer to exactly that item and leaves the stack's
  items as they were.\<close>

theorem stack_push_pop:
  assumes "stack_ok s" and "length x = st_item_size s" and "st_count s < st_capacity s"
  shows "\<exists>s1 p s2. stack_push s x = Some (st_count s, s1) \<and> stack_pop s1 = (Some p, s2)
    \<and> stack_load s2 p = Some x \<and> items s2 = items s \<and> stack_ok s2"
proof -
  obtain s1 where p: "stack_push s x = Some (st_count s, s1)" and ok: "stack_ok s1"
    and i: "items s1 = items s @ [x]"
    using stack_push_view [OF assms] by blast
  have "0 < st_count s1" using i by (metis items_length length_append_singleton zero_less_Suc)
  then show ?thesis using stack_pop_view [OF ok] p i by auto
qed

text \<open>C22. The fast removal takes exactly the indexed item out: as a multiset the rest is unchanged,
  and the call reports success.\<close>

theorem stack_remove_at_fast_mset:
  assumes "stack_ok s" and "k < st_count s"
  shows "\<exists>s'. stack_remove_at_fast s (int k) = Some (1, s') \<and> stack_ok s'
    \<and> mset (items s') = mset (items s) - {# items s ! k #}"
  using assms stack_table.del_mset [of s k] by simp

text \<open>C23. The order-preserving removal shifts the later items down by one and changes nothing else.\<close>

theorem stack_remove_at_order:
  assumes "stack_ok s" and "k < st_count s"
  shows "\<exists>s'. stack_remove_at s (int k) = Some (1, s') \<and> stack_ok s'
    \<and> items s' = take k (items s) @ drop (Suc k) (items s)"
  using stack_remove_at_view [OF assms] by blast

text \<open>An index that is negative or not below the count is refused by every indexed operation,
  with the stack unchanged: the comparison with \<open>size_t\<close> catches negative indices too.\<close>

theorem stack_index_refused:
  assumes "stack_ok s" and "in_int32 i" and "i < 0 \<or> int (st_count s) \<le> i"
  shows "stack_get s i = None \<and> stack_remove_at s i = Some (0, s)
    \<and> stack_remove_at_fast s i = Some (0, s)"
  using stack_get_out [OF assms] stack_remove_out [OF assms] by simp

text \<open>C24. \<open>stack_reset\<close> clears the header instead of the items: once 16 bytes of items are stored,
  the reset stack has capacity 0 and refuses every push.\<close>

theorem stack_reset_destroys_capacity:
  assumes ok: "stack_ok s" and n: "16 \<le> st_item_size s * st_count s"
  shows "\<exists>s'. stack_reset (Some s) = Some (1, Some s') \<and> st_capacity s' = 0
    \<and> (\<forall>x. stack_push s' x = Some (SIZE_MOD - 1, s'))"
proof -
  have le: "st_item_size s * st_count s \<le> length (st_mem s)"
    using ok by (simp add: stack_ok_def mult.commute mult_le_mono1)
  have "length (st_mem s) < SIZE_MOD" using ok by (simp add: stack_ok_def)
  with le have w: "wrap64 (st_item_size s * st_count s) = st_item_size s * st_count s"
    by (intro wrap64_small) (rule le_less_trans)
  have "st_capacity s < 256 ^ 8" using ok by (simp add: stack_ok_def)
  then have "clear_low (st_item_size s * st_count s - 8) (st_capacity s) = 0"
  proof -
    have "min (st_item_size s * st_count s - 8) 8 = 8" using n by simp
    then show ?thesis using \<open>st_capacity s < 256 ^ 8\<close> by (simp add: clear_low_def)
  qed
  moreover obtain m where
    "wr_block (st_mem s) 0 (replicate (st_item_size s * st_count s - 32) NUL) = Some m"
    using wr_None_block [of "st_mem s" 0 "replicate (st_item_size s * st_count s - 32) NUL"] le by auto
  ultimately have "stack_reset (Some s) = Some (1, Some (s\<lparr>st_capacity := 0,
      st_item_size := clear_low (st_item_size s * st_count s - 16) (st_item_size s),
      st_data := clear_low (st_item_size s * st_count s - 24) (st_data s),
      st_mem := m, st_count := 0\<rparr>))"
    using w by (simp add: stack_reset_def Let_def)
  then show ?thesis by (simp add: stack_push_def)
qed

section \<open>Witnesses\<close>

definition demo_stack :: Stack where
  "demo_stack = \<lparr>st_count = 2, st_capacity = 3, st_item_size = 2, st_data = 132, st_base = 100,
     st_mem = ''aabb'' @ [NUL, NUL]\<rparr>"

lemma demo_stack_ok: "stack_ok demo_stack"
  by (simp add: stack_ok_def demo_stack_def sizeof_Stack_def SIZE_MOD_def)

theorem stack_push_pop_witness:
  "\<exists>s1 p s2. stack_push demo_stack ''cc'' = Some (2, s1) \<and> stack_pop s1 = (Some p, s2)
    \<and> stack_load s2 p = Some ''cc'' \<and> items s2 = items demo_stack"
  using stack_push_pop [OF demo_stack_ok, of "''cc''"] by (auto simp: demo_stack_def)

theorem stack_remove_at_fast_mset_witness:
  "\<exists>s'. stack_remove_at_fast demo_stack 0 = Some (1, s')
    \<and> mset (items s') = mset (items demo_stack) - {# items demo_stack ! 0 #}"
  using stack_remove_at_fast_mset [OF demo_stack_ok, of 0] by (auto simp: demo_stack_def)

theorem stack_remove_at_order_witness:
  "\<exists>s'. stack_remove_at demo_stack 0 = Some (1, s') \<and> items s' = drop 1 (items demo_stack)"
  using stack_remove_at_order [OF demo_stack_ok, of 0] by (auto simp: demo_stack_def)

theorem stack_index_refused_witness:
  "stack_get demo_stack (-1) = None \<and> stack_remove_at demo_stack (-1) = Some (0, demo_stack)
    \<and> stack_remove_at_fast demo_stack (-1) = Some (0, demo_stack)"
  using stack_index_refused [OF demo_stack_ok, of "-1"] by (simp add: in_int32_def)

theorem stack_reset_destroys_capacity_witness:
  "\<exists>s s'. stack_ok s \<and> items s = [replicate 8 NUL, replicate 8 NUL] \<and> st_capacity s = 4
    \<and> stack_reset (Some s) = Some (1, Some s') \<and> st_capacity s' = 0"
proof -
  let ?s = "\<lparr>st_count = 2, st_capacity = 4, st_item_size = 8, st_data = 32, st_base = 0,
    st_mem = replicate 32 NUL\<rparr>"
  have "stack_ok ?s" by (simp add: stack_ok_def sizeof_Stack_def SIZE_MOD_def)
  moreover have "items ?s = [replicate 8 NUL, replicate 8 NUL]"
    by (simp add: items_def item_def upt_rec)
  moreover have "16 \<le> st_item_size ?s * st_count ?s" by simp
  ultimately show ?thesis using stack_reset_destroys_capacity [of ?s] by (metis Stack.select_convs(2))
qed

end
