(* ===== verification/Arena.thy ===== *)
theory Arena
  imports Prelude
begin

text \<open>
  The arena allocator of \<open>src/src/arena.h\<close>: a linked list of pages, each a header and a
  zeroed region, from which \<open>arena_alloc\<close> carves blocks by advancing \<open>current\<close>. The
  linked list is the list of its pages in order, NULL the empty list. A pointer into the
  arena is a page number and an offset. Whether the system's \<open>malloc\<close> succeeds is the
  parameter \<open>ok\<close>: \<open>ok k\<close> says whether the call for page number \<open>k\<close> does.

  The locale \<open>region_allocator\<close> states what clients of an allocator rely on (blocks are
  fresh and stay inside the pages); it is interpreted on \<open>arena_alloc\<close>.
\<close>

section \<open>Data and operations\<close>

datatype ArenaRetCode = ARENA_OK | ARENA_NULL | ARENA_OOM | ARENA_FULL

record ArenaAllocator =
  pg_size :: nat
  pg_current :: nat
  pg_eom :: bool
  pg_region :: "byte list"

type_synonym arena = "ArenaAllocator list"
type_synonym arena_ptr = "nat \<times> nat"

definition sizeof_ArenaAllocator :: nat where
  "sizeof_ArenaAllocator = 40"

text \<open>
  The requested size wraps around; when it does, \<open>memset\<close> writes past the block. The
  inner \<^term>\<open>None\<close> is the NULL of a failed \<open>malloc\<close>.
\<close>

definition arena_create :: "(nat \<Rightarrow> bool) \<Rightarrow> nat \<Rightarrow> nat \<Rightarrow> ArenaAllocator option option" where
  "arena_create ok k sz =
     (if \<not> ok k then Some None
      else if wrap64 (sizeof_ArenaAllocator + sz) < sizeof_ArenaAllocator + sz then None
      else Some (Some \<lparr>pg_size = sz, pg_current = 0, pg_eom = False,
                       pg_region = replicate sz NUL\<rparr>))"

definition lock_last :: "arena \<Rightarrow> arena" where
  "lock_last ps = (if ps = [] then [] else butlast ps @ [last ps\<lparr>pg_eom := True\<rparr>])"

function arena_prealloc ::
  "(nat \<Rightarrow> bool) \<Rightarrow> nat \<Rightarrow> int \<Rightarrow> bool \<Rightarrow> int \<Rightarrow> arena \<Rightarrow> arena outcome option" where
  "arena_prealloc ok sz prealloc_count lock i ps =
     (if prealloc_count \<le> i then Some (Ret (if lock then lock_last ps else ps))
      else case arena_create ok (length ps) sz of
             None \<Rightarrow> None
           | Some None \<Rightarrow> Some (Exit (-1))
           | Some (Some p) \<Rightarrow> arena_prealloc ok sz prealloc_count lock (i + 1) (ps @ [p]))"
  by pat_completeness auto
termination
  by (relation "measure (\<lambda>(ok, sz, n, lock, i, ps). nat (n - i))") auto

declare arena_prealloc.simps [simp del]

definition arena_init ::
  "(nat \<Rightarrow> bool) \<Rightarrow> nat \<Rightarrow> int \<Rightarrow> bool \<Rightarrow> (ArenaRetCode \<times> arena) outcome option" where
  "arena_init ok sz prealloc_count lock =
     (case arena_create ok 0 sz of
        None \<Rightarrow> None
      | Some None \<Rightarrow> Some (Exit (-1))
      | Some (Some p) \<Rightarrow>
          if 0 < prealloc_count
          then (case arena_prealloc ok sz prealloc_count lock 1 [p] of
                  None \<Rightarrow> None
                | Some (Exit c) \<Rightarrow> Some (Exit c)
                | Some (Ret ps) \<Rightarrow> Some (Ret (ARENA_OK, ps)))
          else Some (Ret (ARENA_OK, [p])))"

fun free_pages :: "arena \<Rightarrow> nat" where
  "free_pages [] = 0"
| "free_pages (p # ps) = Suc (free_pages ps)"

text \<open>\<open>arena_free\<close>: the result code, the number of blocks given to \<open>free\<close>, the arena left.\<close>

definition arena_free :: "arena \<Rightarrow> ArenaRetCode \<times> nat \<times> arena" where
  "arena_free ps = (if ps = [] then (ARENA_NULL, 0, []) else (ARENA_OK, free_pages ps, []))"

definition fits :: "nat \<Rightarrow> ArenaAllocator \<Rightarrow> bool" where
  "fits sz p \<longleftrightarrow> wrap64 (pg_current p + sz) \<le> pg_size p"

text \<open>The loop of \<open>arena_alloc\<close> from page number \<open>k\<close> on; \<open>cur\<close> is the head of the list.\<close>

function arena_walk ::
  "(nat \<Rightarrow> bool) \<Rightarrow> nat \<Rightarrow> nat \<Rightarrow> arena \<Rightarrow> (arena_ptr option \<times> arena) outcome option" where
  "arena_walk ok sz k [] = Some (Ret (None, []))"
| "arena_walk ok sz k (p # ps) =
     (if fits sz p
      then Some (Ret (Some (k, pg_current p),
                      p\<lparr>pg_current := wrap64 (pg_current p + sz)\<rparr> # ps))
      else if ps = []
      then (if pg_eom p then Some (Ret (None, [p]))
            else case arena_create ok (Suc k) sz of
                   None \<Rightarrow> None
                 | Some None \<Rightarrow> Some (Exit (-1))
                 | Some (Some q) \<Rightarrow>
                     (case arena_walk ok sz (Suc k) [q] of
                        None \<Rightarrow> None
                      | Some (Exit c) \<Rightarrow> Some (Exit c)
                      | Some (Ret (r, qs)) \<Rightarrow> Some (Ret (r, p # qs))))
      else (case arena_walk ok sz (Suc k) ps of
              None \<Rightarrow> None
            | Some (Exit c) \<Rightarrow> Some (Exit c)
            | Some (Ret (r, qs)) \<Rightarrow> Some (Ret (r, p # qs))))"
  by pat_completeness auto
termination
  by (relation "measure (\<lambda>(ok, sz, k, ps). length (filter (\<lambda>p. \<not> fits sz p) ps))")
    (auto simp: arena_create_def fits_def wrap64_def split: if_splits)

declare arena_walk.simps [simp del]

definition arena_alloc ::
  "(nat \<Rightarrow> bool) \<Rightarrow> nat \<Rightarrow> arena \<Rightarrow> (arena_ptr option \<times> arena) outcome option" where
  "arena_alloc ok sz ps =
     (case ps of
        [] \<Rightarrow> Some (Ret (None, []))
      | root # _ \<Rightarrow> if pg_size root < sz then Some (Ret (None, ps)) else arena_walk ok sz 0 ps)"

section \<open>The invariant\<close>

text \<open>
  A page hands out the prefix of its region up to \<open>current\<close> and everything after it is
  still zero. Page sizes are below \<open>2^63\<close>, so that \<open>current + size\<close> does not wrap.
\<close>

definition PAGE_LIMIT :: nat where
  "PAGE_LIMIT = 9223372036854775000"

definition page_ok :: "ArenaAllocator \<Rightarrow> bool" where
  "page_ok p \<longleftrightarrow> pg_current p \<le> pg_size p \<and> pg_size p < PAGE_LIMIT
     \<and> length (pg_region p) = pg_size p
     \<and> drop (pg_current p) (pg_region p) = replicate (pg_size p - pg_current p) NUL"

definition arena_ok :: "arena \<Rightarrow> bool" where
  "arena_ok ps \<longleftrightarrow> (\<forall>p \<in> set ps. page_ok p)"

definition fresh_page :: "nat \<Rightarrow> ArenaAllocator" where
  "fresh_page sz = \<lparr>pg_size = sz, pg_current = 0, pg_eom = False, pg_region = replicate sz NUL\<rparr>"

text \<open>The cells handed out so far, and those of one block.\<close>

definition cells :: "arena \<Rightarrow> (nat \<times> nat) set" where
  "cells ps = {(k, x). k < length ps \<and> x < pg_current (ps ! k)}"

definition span :: "arena_ptr \<Rightarrow> nat \<Rightarrow> (nat \<times> nat) set" where
  "span p n = {(k, x). k = fst p \<and> snd p \<le> x \<and> x < snd p + n}"

definition bump :: "nat \<Rightarrow> ArenaAllocator \<Rightarrow> ArenaAllocator" where
  "bump sz p = p\<lparr>pg_current := pg_current p + sz\<rparr>"

lemma arena_ok_Nil [simp]: "arena_ok []"
  by (simp add: arena_ok_def)

lemma arena_ok_Cons [simp]: "arena_ok (p # ps) \<longleftrightarrow> page_ok p \<and> arena_ok ps"
  by (simp add: arena_ok_def)

lemma arena_ok_append [simp]: "arena_ok (ps @ qs) \<longleftrightarrow> arena_ok ps \<and> arena_ok qs"
  by (auto simp: arena_ok_def)

lemma arena_ok_nth: "arena_ok ps \<Longrightarrow> i < length ps \<Longrightarrow> page_ok (ps ! i)"
  by (simp add: arena_ok_def)

lemma page_ok_fresh [simp]: "sz < PAGE_LIMIT \<Longrightarrow> page_ok (fresh_page sz)"
  by (simp add: page_ok_def fresh_page_def)

lemma arena_create_fresh:
  "sz < PAGE_LIMIT \<Longrightarrow> arena_create ok k sz = Some (if ok k then Some (fresh_page sz) else None)"
  by (simp add: arena_create_def fresh_page_def sizeof_ArenaAllocator_def SIZE_MOD_def PAGE_LIMIT_def)

lemma wrap64_page:
  "page_ok p \<Longrightarrow> sz < PAGE_LIMIT \<Longrightarrow> wrap64 (pg_current p + sz) = pg_current p + sz"
  by (simp add: page_ok_def PAGE_LIMIT_def SIZE_MOD_def)

lemma fits_page:
  "page_ok p \<Longrightarrow> sz < PAGE_LIMIT \<Longrightarrow> fits sz p \<longleftrightarrow> pg_current p + sz \<le> pg_size p"
  by (simp add: fits_def wrap64_page)

lemma fits_fresh [simp]: "fits sz (fresh_page sz)"
  by (simp add: fits_def fresh_page_def wrap64_def)

lemma page_ok_bump: "page_ok p \<Longrightarrow> pg_current p + sz \<le> pg_size p \<Longrightarrow> page_ok (bump sz p)"
proof -
  assume ok: "page_ok p" and le: "pg_current p + sz \<le> pg_size p"
  have "drop (pg_current p + sz) (pg_region p) = drop sz (drop (pg_current p) (pg_region p))"
    by (simp add: add.commute)
  also have "\<dots> = replicate (pg_size p - (pg_current p + sz)) NUL"
    using ok by (simp add: page_ok_def)
  finally show ?thesis using ok le by (simp add: page_ok_def bump_def)
qed

section \<open>What arena_alloc does\<close>

text \<open>
  The loop stops at the first page with room, at a fresh page appended behind the last
  one, or with NULL; every other page is left as it is.
\<close>

definition alloc_at :: "arena \<Rightarrow> nat \<Rightarrow> nat \<Rightarrow> arena" where
  "alloc_at ps i sz = ps[i := bump sz (ps ! i)]"

definition first_fit :: "nat \<Rightarrow> arena \<Rightarrow> nat \<Rightarrow> bool" where
  "first_fit sz ps i \<longleftrightarrow> i < length ps \<and> fits sz (ps ! i) \<and> (\<forall>j < i. \<not> fits sz (ps ! j))"

fun find_fit :: "nat \<Rightarrow> arena \<Rightarrow> nat option" where
  "find_fit sz [] = None"
| "find_fit sz (p # ps) = (if fits sz p then Some 0 else map_option Suc (find_fit sz ps))"

lemma find_fit_Some: "find_fit sz ps = Some i \<Longrightarrow> first_fit sz ps i"
proof (induction ps arbitrary: i)
  case (Cons p ps)
  show ?case
  proof (cases "fits sz p")
    case False
    with Cons.prems obtain j where "find_fit sz ps = Some j" "i = Suc j" by auto
    with Cons.IH False show ?thesis by (auto simp: first_fit_def less_Suc_eq_0_disj)
  qed (use Cons.prems in \<open>auto simp: first_fit_def\<close>)
qed simp

lemma find_fit_None: "find_fit sz ps = None \<longleftrightarrow> (\<forall>p \<in> set ps. \<not> fits sz p)"
  by (induction ps) auto

lemma alloc_at_Cons [simp]: "alloc_at (p # ps) (Suc i) sz = p # alloc_at ps i sz"
  by (simp add: alloc_at_def)

lemma alloc_at_0 [simp]: "alloc_at (p # ps) 0 sz = bump sz p # ps"
  by (simp add: alloc_at_def)

text \<open>The specification the loop is equivalent to.\<close>

definition walk_spec ::
  "(nat \<Rightarrow> bool) \<Rightarrow> nat \<Rightarrow> nat \<Rightarrow> arena \<Rightarrow> (arena_ptr option \<times> arena) outcome" where
  "walk_spec ok sz k ps =
     (case find_fit sz ps of
        Some i \<Rightarrow> Ret (Some (k + i, pg_current (ps ! i)), alloc_at ps i sz)
      | None \<Rightarrow>
          if ps = [] \<or> pg_eom (last ps) then Ret (None, ps)
          else if ok (k + length ps)
          then Ret (Some (k + length ps, 0), ps @ [bump sz (fresh_page sz)])
          else Exit (-1))"

lemma arena_walk_fresh:
  "sz < PAGE_LIMIT \<Longrightarrow>
   arena_walk ok sz k [fresh_page sz] = Some (Ret (Some (k, 0), [bump sz (fresh_page sz)]))"
  by (simp add: arena_walk.simps(2) wrap64_page) (simp add: fresh_page_def bump_def)

lemma arena_walk_spec:
  "arena_ok ps \<Longrightarrow> sz < PAGE_LIMIT \<Longrightarrow> arena_walk ok sz k ps = Some (walk_spec ok sz k ps)"
proof (induction ps arbitrary: k)
  case Nil
  then show ?case by (simp add: arena_walk.simps(1) walk_spec_def)
next
  case (Cons p ps)
  consider "fits sz p" | "\<not> fits sz p" "ps = []" | "\<not> fits sz p" "ps \<noteq> []" by blast
  then show ?case
  proof cases
    case 1
    then show ?thesis
      using Cons.prems by (simp add: arena_walk.simps(2) walk_spec_def wrap64_page bump_def)
  next
    case 2
    then show ?thesis
      using Cons.prems
      by (simp add: arena_walk.simps(2) [of ok sz k p "[]"] walk_spec_def arena_create_fresh
          arena_walk_fresh)
  next
    case 3
    then have "arena_walk ok sz (Suc k) ps = Some (walk_spec ok sz (Suc k) ps)"
      using Cons by simp
    then show ?thesis
      using 3 by (simp add: arena_walk.simps(2) [of ok sz k p ps] walk_spec_def split: option.split)
  qed
qed

definition alloc_spec ::
  "(nat \<Rightarrow> bool) \<Rightarrow> nat \<Rightarrow> arena \<Rightarrow> (arena_ptr option \<times> arena) outcome" where
  "alloc_spec ok sz ps =
     (if ps = [] \<or> pg_size (hd ps) < sz then Ret (None, ps) else walk_spec ok sz 0 ps)"

lemma arena_alloc_spec:
  assumes "arena_ok ps"
  shows "arena_alloc ok sz ps = Some (alloc_spec ok sz ps)"
proof (cases ps)
  case (Cons root qs)
  then have "pg_size root < PAGE_LIMIT" using assms by (simp add: page_ok_def)
  then show ?thesis
    using Cons assms arena_walk_spec [of ps sz ok 0]
    by (simp add: arena_alloc_def alloc_spec_def)
qed (simp add: arena_alloc_def alloc_spec_def)

text \<open>A successful call, seen from the page it used.\<close>

lemma walk_spec_Some:
  assumes ok: "arena_ok ps" and sz: "sz < PAGE_LIMIT"
    and r: "walk_spec ok' sz k ps = Ret (Some (j, off), qs)"
  obtains i new where "j = k + i" and "new = [] \<or> new = [fresh_page sz]"
    and "i < length (ps @ new)" and "off = pg_current ((ps @ new) ! i)"
    and "off + sz \<le> pg_size ((ps @ new) ! i)" and "qs = alloc_at (ps @ new) i sz"
proof (cases "find_fit sz ps")
  case None
  with r have "j = k + length ps" "off = 0" "qs = ps @ [bump sz (fresh_page sz)]"
    by (auto simp: walk_spec_def split: if_splits)
  then show ?thesis
    by (intro that [of "length ps" "[fresh_page sz]"])
      (auto simp: alloc_at_def fresh_page_def list_update_append)
next
  case (Some i)
  then have ff: "first_fit sz ps i" by (rule find_fit_Some)
  then have "pg_current (ps ! i) + sz \<le> pg_size (ps ! i)"
    using fits_page [OF arena_ok_nth [OF ok] sz] by (auto simp: first_fit_def)
  then show ?thesis
    using r Some ff by (intro that [of i "[]"]) (auto simp: walk_spec_def first_fit_def)
qed

lemma alloc_at_ok:
  assumes "arena_ok ps" and "i < length ps" and "pg_current (ps ! i) + sz \<le> pg_size (ps ! i)"
  shows "arena_ok (alloc_at ps i sz)"
proof -
  have "page_ok (bump sz (ps ! i))"
    using assms by (intro page_ok_bump) (auto intro: arena_ok_nth)
  then show ?thesis
    using assms(1) set_update_subset_insert [of ps i "bump sz (ps ! i)"]
    by (auto simp: arena_ok_def alloc_at_def)
qed

lemma cells_alloc_at:
  "i < length ps \<Longrightarrow> cells (alloc_at ps i sz) = cells ps \<union> span (i, pg_current (ps ! i)) sz"
  by (auto simp: cells_def span_def alloc_at_def bump_def nth_list_update split: if_splits)

lemma cells_fresh: "cells (ps @ [fresh_page sz]) = cells ps"
  by (auto simp: cells_def fresh_page_def nth_append split: if_splits)

section \<open>The allocator interface\<close>

text \<open>Serving a list of requests, one after the other; it stops at the first failure.\<close>

fun alloc_all ::
  "('s \<Rightarrow> nat \<Rightarrow> ('p \<times> 's) option) \<Rightarrow> 's \<Rightarrow> nat list \<Rightarrow> (('p \<times> nat) list \<times> 's) option" where
  "alloc_all al s [] = Some ([], s)"
| "alloc_all al s (n # ns) =
     (case al s n of
        None \<Rightarrow> None
      | Some (p, s') \<Rightarrow>
          (case alloc_all al s' ns of None \<Rightarrow> None | Some (bs, t) \<Rightarrow> Some ((p, n) # bs, t)))"

locale region_allocator =
  fixes alloc :: "'s \<Rightarrow> nat \<Rightarrow> ('p \<times> 's) option"
    and inv :: "'s \<Rightarrow> bool"
    and taken :: "'s \<Rightarrow> 'c set"
    and block :: "'p \<Rightarrow> nat \<Rightarrow> 'c set"
  assumes alloc_inv: "inv s \<Longrightarrow> alloc s n = Some (p, s') \<Longrightarrow> inv s'"
    and alloc_fresh: "inv s \<Longrightarrow> alloc s n = Some (p, s') \<Longrightarrow> block p n \<inter> taken s = {}"
    and alloc_taken: "inv s \<Longrightarrow> alloc s n = Some (p, s') \<Longrightarrow> taken s' = taken s \<union> block p n"
begin

lemma all_inv: "inv s \<Longrightarrow> alloc_all alloc s ns = Some (bs, t) \<Longrightarrow> inv t"
  by (induction ns arbitrary: s bs) (auto split: option.splits dest: alloc_inv, metis alloc_inv)

lemma all_fresh:
  "inv s \<Longrightarrow> alloc_all alloc s ns = Some (bs, t) \<Longrightarrow> (p, n) \<in> set bs \<Longrightarrow> block p n \<inter> taken s = {}"
proof (induction ns arbitrary: s bs)
  case (Cons m ns)
  from Cons.prems(2) obtain q s' bs' where
    q: "alloc s m = Some (q, s')" and r: "alloc_all alloc s' ns = Some (bs', t)"
    and bs: "bs = (q, m) # bs'" by (auto split: option.splits)
  show ?case
  proof (cases "(p, n) \<in> set bs'")
    case True
    then have "block p n \<inter> taken s' = {}"
      using Cons.IH [OF alloc_inv [OF Cons.prems(1) q] r] by simp
    then show ?thesis using alloc_taken [OF Cons.prems(1) q] by auto
  next
    case False
    then show ?thesis using Cons.prems(1,3) q bs alloc_fresh by auto
  qed
qed simp

lemma all_disjoint:
  "inv s \<Longrightarrow> alloc_all alloc s ns = Some (bs, t) \<Longrightarrow> i < j \<Longrightarrow> j < length bs \<Longrightarrow>
   block (fst (bs ! i)) (snd (bs ! i)) \<inter> block (fst (bs ! j)) (snd (bs ! j)) = {}"
proof (induction ns arbitrary: s bs i j)
  case (Cons m ns)
  from Cons.prems(2) obtain q s' bs' where
    q: "alloc s m = Some (q, s')" and r: "alloc_all alloc s' ns = Some (bs', t)"
    and bs: "bs = (q, m) # bs'" by (auto split: option.splits)
  have inv': "inv s'" using Cons.prems(1) q by (rule alloc_inv)
  obtain j' where j': "j = Suc j'" "j' < length bs'"
    using Cons.prems(3,4) bs by (cases j) auto
  show ?case
  proof (cases i)
    case 0
    have "bs' ! j' \<in> set bs'" using j' by simp
    then have "block (fst (bs' ! j')) (snd (bs' ! j')) \<inter> taken s' = {}"
      using all_fresh [OF inv' r] by (metis prod.collapse)
    then show ?thesis
      using 0 bs j' alloc_taken [OF Cons.prems(1) q] by auto
  next
    case (Suc i')
    then show ?thesis using Cons.IH [OF inv' r, of i' j'] Cons.prems(3) j' bs by simp
  qed
qed simp

end

text \<open>\<open>arena_alloc\<close> as such an allocator: a call that returns a pointer.\<close>

definition arena_grant :: "(nat \<Rightarrow> bool) \<Rightarrow> arena \<Rightarrow> nat \<Rightarrow> (arena_ptr \<times> arena) option" where
  "arena_grant ok ps sz =
     (case arena_alloc ok sz ps of Some (Ret (Some p, qs)) \<Rightarrow> Some (p, qs) | _ \<Rightarrow> None)"

lemma arena_grant_alloc:
  "arena_grant ok ps sz = Some (p, qs) \<longleftrightarrow> arena_alloc ok sz ps = Some (Ret (Some p, qs))"
  by (auto simp: arena_grant_def split: option.splits outcome.splits)

lemma arena_grantE:
  assumes ok: "arena_ok ps" and g: "arena_grant ok' ps sz = Some ((j, off), qs)"
  obtains new where "new = [] \<or> new = [fresh_page sz]" and "sz < PAGE_LIMIT"
    and "j < length (ps @ new)" and "off = pg_current ((ps @ new) ! j)"
    and "off + sz \<le> pg_size ((ps @ new) ! j)" and "qs = alloc_at (ps @ new) j sz"
    and "arena_ok (ps @ new)"
proof -
  have a: "alloc_spec ok' sz ps = Ret (Some (j, off), qs)"
    using g arena_alloc_spec [OF ok, of ok' sz] by (simp add: arena_grant_alloc)
  then have ne: "ps \<noteq> []" and le: "sz \<le> pg_size (hd ps)"
    by (auto simp: alloc_spec_def split: if_splits)
  with a have w: "walk_spec ok' sz 0 ps = Ret (Some (j, off), qs)"
    by (simp add: alloc_spec_def)
  have sz: "sz < PAGE_LIMIT"
    using ok ne le by (cases ps) (auto simp: page_ok_def)
  obtain i new where "j = 0 + i" and new: "new = [] \<or> new = [fresh_page sz]"
    and "i < length (ps @ new)" and "off = pg_current ((ps @ new) ! i)"
    and "off + sz \<le> pg_size ((ps @ new) ! i)" and "qs = alloc_at (ps @ new) i sz"
    using walk_spec_Some [OF ok sz w] by metis
  moreover have "arena_ok (ps @ new)" using new ok sz by auto
  ultimately show ?thesis using that sz by simp
qed

lemma arena_grant_ok:
  assumes "arena_ok ps" and "arena_grant ok' ps sz = Some (p, qs)"
  shows "arena_ok qs"
proof -
  obtain j off where p: "p = (j, off)" by (cases p)
  from assms obtain new where "arena_ok (ps @ new)" and "j < length (ps @ new)"
    and "pg_current ((ps @ new) ! j) + sz \<le> pg_size ((ps @ new) ! j)"
    and "qs = alloc_at (ps @ new) j sz"
    using arena_grantE [OF assms(1) assms(2) [unfolded p]] by metis
  then show ?thesis using alloc_at_ok by simp
qed

lemma arena_grant_cells:
  assumes "arena_ok ps" and "arena_grant ok' ps sz = Some (p, qs)"
  shows "cells qs = cells ps \<union> span p sz" and "span p sz \<inter> cells ps = {}"
proof -
  obtain j off where p: "p = (j, off)" by (cases p)
  from assms obtain new where new: "new = [] \<or> new = [fresh_page sz]"
    and j: "j < length (ps @ new)" and off: "off = pg_current ((ps @ new) ! j)"
    and qs: "qs = alloc_at (ps @ new) j sz"
    using arena_grantE [OF assms(1) assms(2) [unfolded p]] by metis
  have c: "cells (ps @ new) = cells ps" using new cells_fresh by auto
  show "cells qs = cells ps \<union> span p sz"
    using cells_alloc_at [OF j] by (simp add: qs p off c)
  have "span p sz \<inter> cells (ps @ new) = {}"
    by (auto simp: span_def cells_def p off)
  then show "span p sz \<inter> cells ps = {}" by (simp add: c)
qed

interpretation arena_regions: region_allocator "arena_grant ok" arena_ok cells span for ok
  by unfold_locales (auto intro: arena_grant_ok simp: arena_grant_cells)

section \<open>Properties\<close>

text \<open>C17. A block returned by \<open>arena_alloc\<close> lies inside its page, shares no byte with any
  block handed out before, consists of zero bytes, and the arena stays well formed.\<close>

theorem arena_alloc_sound:
  assumes ok: "arena_ok ps" and a: "arena_alloc mal sz ps = Some (Ret (Some (j, off), qs))"
  shows "arena_ok qs \<and> j < length qs \<and> off + sz \<le> pg_size (qs ! j)
    \<and> take sz (drop off (pg_region (qs ! j))) = replicate sz NUL
    \<and> span (j, off) sz \<inter> cells ps = {} \<and> cells qs = cells ps \<union> span (j, off) sz"
proof -
  have g: "arena_grant mal ps sz = Some ((j, off), qs)" using a by (simp add: arena_grant_alloc)
  then obtain new where ok': "arena_ok (ps @ new)" and j: "j < length (ps @ new)"
    and off: "off = pg_current ((ps @ new) ! j)"
    and le: "off + sz \<le> pg_size ((ps @ new) ! j)" and qs: "qs = alloc_at (ps @ new) j sz"
    using arena_grantE [OF ok g] by metis
  have qj: "qs ! j = bump sz ((ps @ new) ! j)" using j by (simp add: qs alloc_at_def)
  have "drop off (pg_region ((ps @ new) ! j)) = replicate (pg_size ((ps @ new) ! j) - off) NUL"
    using arena_ok_nth [OF ok' j] by (simp add: page_ok_def off)
  then have "take sz (drop off (pg_region (qs ! j))) = replicate sz NUL"
    using le by (simp add: qj bump_def)
  moreover have "j < length qs" "off + sz \<le> pg_size (qs ! j)"
    using j le by (simp_all add: qj bump_def) (simp add: qs alloc_at_def)
  ultimately show ?thesis
    using arena_grant_ok [OF ok g] arena_grant_cells [OF ok g] by auto
qed

text \<open>C18. However many blocks are requested one after the other, no two of them overlap.\<close>

theorem arena_blocks_disjoint:
  assumes "arena_ok ps" and "alloc_all (arena_grant mal) ps ns = Some (bs, qs)"
    and "i < j" and "j < length bs"
  shows "span (fst (bs ! i)) (snd (bs ! i)) \<inter> span (fst (bs ! j)) (snd (bs ! j)) = {}"
  using assms by (rule arena_regions.all_disjoint)

text \<open>C19. On a locked arena (\<open>eom\<close> set on the last page) a request always returns; it gets NULL
  exactly when it is larger than the root page or no page has room for it, and then nothing
  changes; the arena never grows.\<close>

theorem arena_alloc_locked:
  assumes ok: "arena_ok ps" and ne: "ps \<noteq> []" and lk: "pg_eom (last ps)"
  shows "\<exists>r qs. arena_alloc mal sz ps = Some (Ret (r, qs)) \<and> length qs = length ps
    \<and> (r = None \<longleftrightarrow> pg_size (hd ps) < sz \<or> (\<forall>p \<in> set ps. pg_size p < pg_current p + sz))
    \<and> (r = None \<longrightarrow> qs = ps)"
proof (cases "pg_size (hd ps) < sz")
  case True
  then show ?thesis using arena_alloc_spec [OF ok, of mal sz] by (simp add: alloc_spec_def)
next
  case False
  then have sz: "sz < PAGE_LIMIT" using ok ne by (cases ps) (auto simp: page_ok_def)
  then have nf: "(\<forall>p \<in> set ps. \<not> fits sz p) \<longleftrightarrow> (\<forall>p \<in> set ps. pg_size p < pg_current p + sz)"
    using ok by (auto simp: arena_ok_def fits_page not_le)
  show ?thesis
  proof (cases "find_fit sz ps")
    case None
    then show ?thesis
      using arena_alloc_spec [OF ok, of mal sz] False ne lk nf find_fit_None [of sz ps]
      by (simp add: alloc_spec_def walk_spec_def)
  next
    case (Some i)
    then have "\<not> (\<forall>p \<in> set ps. \<not> fits sz p)" using find_fit_None [of sz ps] by simp
    then have "\<not> (\<forall>p \<in> set ps. pg_size p < pg_current p + sz)" using nf by blast
    then show ?thesis
      using arena_alloc_spec [OF ok, of mal sz] False ne Some
      by (simp add: alloc_spec_def walk_spec_def alloc_at_def)
  qed
qed

lemma arena_prealloc_spec:
  assumes "sz < PAGE_LIMIT" and "0 \<le> i" and "length ps = nat i"
  shows "arena_prealloc mal sz n lock i ps =
    Some (if \<forall>k. nat i \<le> k \<and> k < nat n \<longrightarrow> mal k
          then Ret ((if lock then lock_last else id) (ps @ replicate (nat (n - i)) (fresh_page sz)))
          else Exit (-1))"
  using assms
proof (induction mal sz n lock i ps rule: arena_prealloc.induct)
  case (1 mal sz n lock i ps)
  show ?case
  proof (cases "n \<le> i")
    case True
    then show ?thesis by (auto simp: arena_prealloc.simps [of mal sz n lock i ps])
  next
    case False
    have c: "arena_create mal (length ps) sz =
        Some (if mal (nat i) then Some (fresh_page sz) else None)"
      using 1 by (simp add: arena_create_fresh)
    have r: "nat (n - i) = Suc (nat (n - (i + 1)))" using False by simp
    show ?thesis
    proof (cases "mal (nat i)")
      case True
      have all: "(\<forall>k. nat i \<le> k \<and> k < nat n \<longrightarrow> mal k) \<longleftrightarrow>
          (\<forall>k. nat (i + 1) \<le> k \<and> k < nat n \<longrightarrow> mal k)"
        using True 1 by (auto simp: nat_add_distrib) (metis Suc_leI le_neq_implies_less)
      have "arena_prealloc mal sz n lock (i + 1) (ps @ [fresh_page sz]) =
          Some (if \<forall>k. nat (i + 1) \<le> k \<and> k < nat n \<longrightarrow> mal k
                then Ret ((if lock then lock_last else id)
                  ((ps @ [fresh_page sz]) @ replicate (nat (n - (i + 1))) (fresh_page sz)))
                else Exit (-1))"
        using 1 False c True by (intro "1.IH") (auto simp: nat_add_distrib)
      then show ?thesis
        using False c True all r by (simp add: arena_prealloc.simps [of mal sz n lock i ps])
    next
      case False2: False
      have "nat i < nat n" using False 1 by simp
      then have "\<not> (\<forall>k. nat i \<le> k \<and> k < nat n \<longrightarrow> mal k)" using False2 by blast
      then show ?thesis
        using False c False2 by (simp add: arena_prealloc.simps [of mal sz n lock i ps])
    qed
  qed
qed

lemma arena_init_eq:
  assumes "sz < PAGE_LIMIT"
  shows "arena_init mal sz n lock =
    Some (if \<forall>k < max 1 (nat n). mal k
          then Ret (ARENA_OK, (if lock \<and> 0 < n then lock_last else id)
                                (replicate (max 1 (nat n)) (fresh_page sz)))
          else Exit (-1))"
proof (cases "mal 0")
  case False
  then have "\<not> (\<forall>k < max 1 (nat n). mal k)" by (metis less_max_iff_disj less_one)
  then show ?thesis using assms False by (simp add: arena_init_def arena_create_fresh)
next
  case True
  show ?thesis
  proof (cases "0 < n")
    case False
    then have "max 1 (nat n) = 1" by simp
    then show ?thesis using assms True False by (simp add: arena_init_def arena_create_fresh)
  next
    case n: True
    have all: "(\<forall>k. 1 \<le> k \<and> k < nat n \<longrightarrow> mal k) \<longleftrightarrow> (\<forall>k < max 1 (nat n). mal k)"
      using True n by (auto simp: max_def) (metis One_nat_def Suc_leI not_gr_zero)
    have rep: "fresh_page sz # replicate (nat (n - 1)) (fresh_page sz) =
        replicate (max 1 (nat n)) (fresh_page sz)"
    proof -
      have "max 1 (nat n) = Suc (nat (n - 1))" using n by simp
      then show ?thesis by simp
    qed
    show ?thesis
      using True n arena_prealloc_spec [OF assms, of 1 "[fresh_page sz]" mal n lock]
      by (simp add: arena_init_def arena_create_fresh assms all rep flip: One_nat_def)
  qed
qed

text \<open>C20. \<open>arena_init\<close> builds the preallocated pages, all empty and zeroed, sets \<open>eom\<close> on the last
  one when the arena is to be locked, and ends the process when a \<open>malloc\<close> fails.\<close>

theorem arena_init_pages:
  assumes "sz < PAGE_LIMIT"
  shows "arena_init mal sz n lock =
    Some (if \<forall>k < max 1 (nat n). mal k
          then Ret (ARENA_OK, (if lock \<and> 0 < n then lock_last else id)
                                (replicate (max 1 (nat n)) (fresh_page sz)))
          else Exit (-1))"
  by (rule arena_init_eq [OF assms])

section \<open>Witnesses\<close>

definition demo_arena :: arena where
  "demo_arena = [\<lparr>pg_size = 4, pg_current = 1, pg_eom = False, pg_region = [CHR ''x'', NUL, NUL, NUL]\<rparr>,
     \<lparr>pg_size = 4, pg_current = 0, pg_eom = True, pg_region = [NUL, NUL, NUL, NUL]\<rparr>]"

lemmas arena_eval = demo_arena_def arena_ok_def page_ok_def PAGE_LIMIT_def arena_alloc_def
  arena_walk.simps fits_def SIZE_MOD_def arena_grant_def

theorem arena_alloc_sound_witness:
  "\<exists>qs. arena_alloc (\<lambda>_. True) 4 demo_arena = Some (Ret (Some (1, 0), qs)) \<and> arena_ok qs
     \<and> span (1, 0) 4 \<inter> cells demo_arena = {}"
proof -
  have ok: "arena_ok demo_arena" by (simp add: arena_eval)
  obtain qs where "arena_alloc (\<lambda>_. True) 4 demo_arena = Some (Ret (Some (1, 0), qs))"
    by (simp add: arena_eval wrap64_def)
  with arena_alloc_sound [OF ok this] show ?thesis by blast
qed

theorem arena_blocks_disjoint_witness:
  "\<exists>bs qs. alloc_all (arena_grant (\<lambda>_. True)) demo_arena [2, 3] = Some (bs, qs) \<and> length bs = 2
     \<and> span (fst (bs ! 0)) (snd (bs ! 0)) \<inter> span (fst (bs ! 1)) (snd (bs ! 1)) = {}"
proof -
  have ok: "arena_ok demo_arena" by (simp add: arena_eval)
  obtain bs qs where r: "alloc_all (arena_grant (\<lambda>_. True)) demo_arena [2, 3] = Some (bs, qs)"
    and len: "length bs = 2"
    by (simp add: arena_eval wrap64_def)
  from arena_blocks_disjoint [OF ok r, of 0 1] r len show ?thesis by auto
qed

theorem arena_alloc_locked_witness:
  "arena_alloc (\<lambda>_. True) 5 demo_arena = Some (Ret (None, demo_arena))"
proof -
  have "arena_ok demo_arena" "demo_arena \<noteq> []" "pg_eom (last demo_arena)"
    "pg_size (hd demo_arena) < 5"
    by (simp_all add: arena_eval)
  with arena_alloc_locked [of demo_arena "\<lambda>_. True" 5] show ?thesis by auto
qed

theorem arena_init_pages_witness:
  "arena_init (\<lambda>_. True) 8 2 True = Some (Ret (ARENA_OK, [fresh_page 8, (fresh_page 8)\<lparr>pg_eom := True\<rparr>]))"
  using arena_init_pages [of 8 "\<lambda>_. True" 2 True]
  by (simp add: PAGE_LIMIT_def lock_last_def)

end
