(* ===== verification/Config.thy ===== *)
theory Config
  imports Arena
begin

text \<open>
  Command line and settings, \<open>src/src/config.h\<close>. \<open>argv\<close> is a list of strings, its length is
  \<open>argc\<close>, and \<open>argv[argc]\<close> is NULL as the C standard requires. The collection loop is
  translated index by index; \<open>positionals\<close>, \<open>port_values\<close>, \<open>option_values\<close> and \<open>has_flag\<close> read the
  arguments as a list, and every field the loop fills is proved equal to such a reading.
\<close>

section \<open>Data\<close>

datatype RunMode = RUNMODE_CMD | RUNMODE_SERVER

record Args =
  a_run_mode :: RunMode
  a_mode_detached :: bool
  a_help :: bool
  a_quiet :: bool
  a_watch_path :: "string option"
  a_ws_file :: "string option"
  a_log_file :: "string option"
  a_port :: int
  a_arg_indices :: "int list"
  a_arg_count :: int

record GeneralSettings =
  process_store_count :: int
  task_store_count :: int
  protocol_token_count :: int
  workspace_buf_size :: int
  cmd_bin_path :: string
  task_buf_size :: int
  task_var_max_count :: int
  task_name_size :: int

record ConnectionSettings =
  max_clients :: int
  max_pending_conn :: int
  client_timeout_ms :: int
  sock_timeout_sec :: int
  select_timeout_sec :: int
  select_timeout_usec :: int
  inotify_timeout_ms :: int
  buffer_size :: int

record Settings =
  general :: GeneralSettings
  connection :: ConnectionSettings

record Config =
  c_args :: Args
  c_settings :: Settings

definition ARG_PORT :: string where "ARG_PORT = ''-p''"
definition ARG_WATCH_PATH :: string where "ARG_WATCH_PATH = ''-w''"
definition ARG_WS_FILE :: string where "ARG_WS_FILE = ''-f''"
definition ARG_LOG_FILE :: string where "ARG_LOG_FILE = ''-l''"
definition ARG_HELP :: string where "ARG_HELP = ''-h''"
definition ARG_QUIET :: string where "ARG_QUIET = ''-q''"
definition ARG_DETACHED :: string where "ARG_DETACHED = ''-d''"

lemmas arg_defs = ARG_PORT_def ARG_WATCH_PATH_def ARG_WS_FILE_def ARG_LOG_FILE_def ARG_HELP_def
  ARG_QUIET_def ARG_DETACHED_def

section \<open>The library functions used\<close>

text \<open>\<open>argv[i]\<close>: undefined beyond \<open>argc\<close>, NULL at \<open>argc\<close>.\<close>

definition argv_at :: "string list \<Rightarrow> int \<Rightarrow> string option option" where
  "argv_at argv i =
     (if i < 0 \<or> int (length argv) < i then None
      else if i = int (length argv) then Some None else Some (Some (argv ! nat i)))"

definition is_digit :: "char \<Rightarrow> bool" where
  "is_digit c \<longleftrightarrow> c \<in> set ''0123456789''"

definition is_c_space :: "char \<Rightarrow> bool" where
  "is_c_space c \<longleftrightarrow> c \<in> {CHR '' '', CHR 0x09, CHR 0x0A, CHR 0x0B, CHR 0x0C, CHR 0x0D}"

fun digits_value :: "int \<Rightarrow> string \<Rightarrow> int" where
  "digits_value acc [] = acc"
| "digits_value acc (c # cs) =
     (if is_digit c then digits_value (10 * acc + (of_char c - 48)) cs else acc)"

text \<open>\<open>atoi\<close>: undefined on NULL and on a value that is not an \<open>int\<close>.\<close>

definition atoi :: "string option \<Rightarrow> int option" where
  "atoi so =
     (case so of
        None \<Rightarrow> None
      | Some s \<Rightarrow>
          let t = dropWhile is_c_space s;
              v = (case t of
                     [] \<Rightarrow> 0
                   | c # cs \<Rightarrow> if c = CHR ''-'' then - digits_value 0 cs
                              else if c = CHR ''+'' then digits_value 0 cs else digits_value 0 t)
          in if in_int32 v then Some v else None)"

section \<open>Collecting the arguments\<close>

definition init_args :: "nat \<Rightarrow> Args" where
  "init_args argc =
     \<lparr>a_run_mode = RUNMODE_SERVER, a_mode_detached = False, a_help = False, a_quiet = False,
      a_watch_path = None, a_ws_file = None, a_log_file = None, a_port = 9999,
      a_arg_indices = replicate argc 0, a_arg_count = 0\<rparr>"

text \<open>One turn of the loop: the arguments so far and the loop counter before its \<open>i++\<close>.\<close>

definition collect_one :: "string list \<Rightarrow> string \<Rightarrow> int \<Rightarrow> Args \<Rightarrow> (Args \<times> int) option" where
  "collect_one argv arg i a =
     (if strncmp_eq arg ARG_DETACHED 2 then Some (a\<lparr>a_mode_detached := True\<rparr>, i)
      else if strncmp_eq arg ARG_QUIET 2 then Some (a\<lparr>a_quiet := True\<rparr>, i)
      else if strncmp_eq arg ARG_PORT 2
        then do { v \<leftarrow> argv_at argv (i + 1); p \<leftarrow> atoi v; Some (a\<lparr>a_port := p\<rparr>, i + 1) }
      else if strncmp_eq arg ARG_WATCH_PATH 2
        then do { v \<leftarrow> argv_at argv (i + 1); Some (a\<lparr>a_watch_path := v\<rparr>, i + 1) }
      else if strncmp_eq arg ARG_WS_FILE 2
        then do { v \<leftarrow> argv_at argv (i + 1); Some (a\<lparr>a_ws_file := v\<rparr>, i + 1) }
      else if strncmp_eq arg ARG_LOG_FILE 2
        then do { v \<leftarrow> argv_at argv (i + 1); Some (a\<lparr>a_log_file := v\<rparr>, i + 1) }
      else if strncmp_eq arg ARG_HELP 2 then Some (a\<lparr>a_help := True\<rparr>, i)
      else do {
        xs \<leftarrow> wr (a_arg_indices a) (a_arg_count a) i;
        Some (a\<lparr>a_arg_indices := xs, a_arg_count := a_arg_count a + 1\<rparr>, i)
      })"

lemma collect_one_ge: "collect_one argv arg i a = Some (a', j) \<Longrightarrow> i \<le> j"
  by (auto simp: collect_one_def split: if_splits bind_splits)

function collect_loop :: "string list \<Rightarrow> int \<Rightarrow> Args \<Rightarrow> Args option" where
  "collect_loop argv i a =
     (if i < int (length argv)
      then (case argv_at argv i of
              None \<Rightarrow> None
            | Some None \<Rightarrow> Some a
            | Some (Some arg) \<Rightarrow>
                (case collect_one argv arg i a of
                   None \<Rightarrow> None
                 | Some (a', j) \<Rightarrow> collect_loop argv (j + 1) a'))
      else Some a)"
  by pat_completeness auto
termination
  by (relation "measure (\<lambda>(argv, i, a). nat (int (length argv) - i))")
    (auto dest!: collect_one_ge)

declare collect_loop.simps [simp del]

text \<open>
  \<open>config_collect_args\<close>: the index array comes from \<open>MMALLOC\<close>, that is \<open>arena_alloc\<close>, which
  returns zeroed memory; a failed allocation ends the process.
\<close>

definition config_collect_args ::
  "(nat \<Rightarrow> bool) \<Rightarrow> arena \<Rightarrow> string list \<Rightarrow> (Args \<times> arena) outcome option" where
  "config_collect_args mal ar argv =
     (case arena_alloc mal (4 * length argv) ar of
        None \<Rightarrow> None
      | Some (Exit c) \<Rightarrow> Some (Exit c)
      | Some (Ret (None, ar')) \<Rightarrow> Some (Exit 1)
      | Some (Ret (Some _, ar')) \<Rightarrow>
          (case collect_loop argv 1 (init_args (length argv)) of
             None \<Rightarrow> None
           | Some a \<Rightarrow>
               Some (Ret (if 0 < a_arg_count a then a\<lparr>a_run_mode := RUNMODE_CMD\<rparr> else a, ar'))))"

definition config_default_settings :: Settings where
  "config_default_settings =
     \<lparr>general = \<lparr>process_store_count = 5, task_store_count = 5, protocol_token_count = 30,
                 workspace_buf_size = 256, cmd_bin_path = ''/bin/sh'', task_buf_size = 1024,
                 task_var_max_count = 30, task_name_size = 256\<rparr>,
      connection = \<lparr>max_clients = 30, max_pending_conn = 3, client_timeout_ms = 5000,
                    sock_timeout_sec = 5, select_timeout_sec = 0, select_timeout_usec = 66666,
                    inotify_timeout_ms = 1000, buffer_size = 1024\<rparr>\<rparr>"

definition sizeof_Config :: nat where
  "sizeof_Config = 128"

definition config_init ::
  "(nat \<Rightarrow> bool) \<Rightarrow> arena \<Rightarrow> string list \<Rightarrow> (Config \<times> arena) outcome option" where
  "config_init mal ar argv =
     (case arena_alloc mal sizeof_Config ar of
        None \<Rightarrow> None
      | Some (Exit c) \<Rightarrow> Some (Exit c)
      | Some (Ret (None, ar1)) \<Rightarrow> Some (Exit 1)
      | Some (Ret (Some _, ar1)) \<Rightarrow>
          (case config_collect_args mal ar1 argv of
             None \<Rightarrow> None
           | Some (Exit c) \<Rightarrow> Some (Exit c)
           | Some (Ret (a, ar2)) \<Rightarrow>
               Some (Ret (\<lparr>c_args = a, c_settings = config_default_settings\<rparr>, ar2))))"

section \<open>The arguments read as a list\<close>

datatype arg_kind = KDetached | KQuiet | KPort | KWatch | KFile | KLog | KHelp | KPositional

definition kind_of :: "string \<Rightarrow> arg_kind" where
  "kind_of arg =
     (if take 2 arg = ''-d'' then KDetached
      else if take 2 arg = ''-q'' then KQuiet
      else if take 2 arg = ''-p'' then KPort
      else if take 2 arg = ''-w'' then KWatch
      else if take 2 arg = ''-f'' then KFile
      else if take 2 arg = ''-l'' then KLog
      else if take 2 arg = ''-h'' then KHelp else KPositional)"

definition takes_value :: "arg_kind \<Rightarrow> bool" where
  "takes_value k \<longleftrightarrow> k \<in> {KPort, KWatch, KFile, KLog}"

text \<open>The positional arguments with their positions, and whether every \<open>-p\<close> has a usable number.\<close>

fun positionals :: "nat \<Rightarrow> string list \<Rightarrow> (nat \<times> string) list" where
  "positionals i [] = []"
| "positionals i [x] = (if kind_of x = KPositional then [(i, x)] else [])"
| "positionals i (x # y # xs) =
     (if takes_value (kind_of x) then positionals (i + 2) xs
      else (if kind_of x = KPositional then [(i, x)] else []) @ positionals (i + 1) (y # xs))"

fun ports_ok :: "string list \<Rightarrow> bool" where
  "ports_ok [] = True"
| "ports_ok [x] = (kind_of x \<noteq> KPort)"
| "ports_ok (x # y # xs) =
     (if takes_value (kind_of x) then (kind_of x = KPort \<longrightarrow> atoi (Some y) \<noteq> None) \<and> ports_ok xs
      else ports_ok (y # xs))"

fun port_values :: "string list \<Rightarrow> int list" where
  "port_values [] = []"
| "port_values [x] = []"
| "port_values (x # y # xs) =
     (if takes_value (kind_of x)
      then (if kind_of x = KPort then [the (atoi (Some y))] else []) @ port_values xs
      else port_values (y # xs))"

text \<open>Whether a flag is given, and the values given to an option; a last argument that wants a value
  gets the NULL behind \<open>argv\<close>.\<close>

fun has_flag :: "arg_kind \<Rightarrow> string list \<Rightarrow> bool" where
  "has_flag k [] = False"
| "has_flag k [x] = (kind_of x = k)"
| "has_flag k (x # y # xs) =
     (if takes_value (kind_of x) then has_flag k xs else kind_of x = k \<or> has_flag k (y # xs))"

fun option_values :: "arg_kind \<Rightarrow> string list \<Rightarrow> string option list" where
  "option_values k [] = []"
| "option_values k [x] = (if kind_of x = k then [None] else [])"
| "option_values k (x # y # xs) =
     (if takes_value (kind_of x) then (if kind_of x = k then [Some y] else []) @ option_values k xs
      else option_values k (y # xs))"

lemma argv_at_drop:
  assumes "drop i argv = x # xs"
  shows "argv_at argv (int i) = Some (Some x)"
    and "argv_at argv (int i + 1) = Some (case xs of [] \<Rightarrow> None | y # _ \<Rightarrow> Some y)"
    and "int i < int (length argv)" and "drop (i + 1) argv = xs"
proof -
  have i: "i < length argv" using assms by (metis drop_all list.discI not_le)
  have x: "argv ! i = x" using assms by (metis i Cons_nth_drop_Suc list.inject)
  show d: "drop (i + 1) argv = xs" using assms by (metis i Cons_nth_drop_Suc Suc_eq_plus1 list.inject)
  show "argv_at argv (int i) = Some (Some x)" "int i < int (length argv)"
    using i x by (simp_all add: argv_at_def)
  have n: "nat (int i + 1) = i + 1" by simp
  show "argv_at argv (int i + 1) = Some (case xs of [] \<Rightarrow> None | y # _ \<Rightarrow> Some y)"
  proof (cases xs)
    case Nil
    then have "length argv = i + 1" using d i by simp
    then show ?thesis using Nil by (simp add: argv_at_def)
  next
    case (Cons y ys)
    then have "i + 1 < length argv" using d by (metis drop_all list.discI not_le)
    moreover have "argv ! (i + 1) = y" using d Cons \<open>i + 1 < length argv\<close> by (metis hd_drop_conv_nth list.sel(1))
    ultimately show ?thesis using Cons n by (simp add: argv_at_def)
  qed
qed

text \<open>What one turn does, by the kind of the argument.\<close>

definition note_flag :: "arg_kind \<Rightarrow> Args \<Rightarrow> Args" where
  "note_flag k a =
     (case k of KDetached \<Rightarrow> a\<lparr>a_mode_detached := True\<rparr> | KQuiet \<Rightarrow> a\<lparr>a_quiet := True\<rparr>
      | KHelp \<Rightarrow> a\<lparr>a_help := True\<rparr> | _ \<Rightarrow> a)"

definition note_value :: "arg_kind \<Rightarrow> string option \<Rightarrow> Args \<Rightarrow> Args" where
  "note_value k v a =
     (case k of KWatch \<Rightarrow> a\<lparr>a_watch_path := v\<rparr> | KFile \<Rightarrow> a\<lparr>a_ws_file := v\<rparr>
      | KLog \<Rightarrow> a\<lparr>a_log_file := v\<rparr> | _ \<Rightarrow> a)"

lemma note_flag_fields [simp]:
  "a_arg_indices (note_flag k a) = a_arg_indices a" "a_arg_count (note_flag k a) = a_arg_count a"
  "a_port (note_flag k a) = a_port a" "a_run_mode (note_flag k a) = a_run_mode a"
  "a_watch_path (note_flag k a) = a_watch_path a" "a_ws_file (note_flag k a) = a_ws_file a"
  "a_log_file (note_flag k a) = a_log_file a"
  "a_mode_detached (note_flag k a) = (a_mode_detached a \<or> k = KDetached)"
  "a_quiet (note_flag k a) = (a_quiet a \<or> k = KQuiet)" "a_help (note_flag k a) = (a_help a \<or> k = KHelp)"
  by (cases k; simp add: note_flag_def)+

lemma note_value_fields [simp]:
  "a_arg_indices (note_value k v a) = a_arg_indices a" "a_arg_count (note_value k v a) = a_arg_count a"
  "a_port (note_value k v a) = a_port a" "a_run_mode (note_value k v a) = a_run_mode a"
  "a_watch_path (note_value k v a) = (if k = KWatch then v else a_watch_path a)"
  "a_ws_file (note_value k v a) = (if k = KFile then v else a_ws_file a)"
  "a_log_file (note_value k v a) = (if k = KLog then v else a_log_file a)"
  "a_mode_detached (note_value k v a) = a_mode_detached a"
  "a_quiet (note_value k v a) = a_quiet a" "a_help (note_value k v a) = a_help a"
  by (cases k; simp add: note_value_def)+

lemma collect_one_eq:
  "collect_one argv x i a =
     (case kind_of x of
        KPort \<Rightarrow> do { v \<leftarrow> argv_at argv (i + 1); p \<leftarrow> atoi v; Some (a\<lparr>a_port := p\<rparr>, i + 1) }
      | KPositional \<Rightarrow> do {
          xs \<leftarrow> wr (a_arg_indices a) (a_arg_count a) i;
          Some (a\<lparr>a_arg_indices := xs, a_arg_count := a_arg_count a + 1\<rparr>, i) }
      | k \<Rightarrow> if takes_value k then do { v \<leftarrow> argv_at argv (i + 1); Some (note_value k v a, i + 1) }
             else Some (note_flag k a, i))"
  by (simp add: collect_one_def kind_of_def takes_value_def arg_defs strncmp_eq_def note_flag_def note_value_def)

lemma collect_one_kind:
  assumes d: "drop i argv = x # xs"
  shows "\<not> takes_value (kind_of x) \<Longrightarrow> kind_of x \<noteq> KPositional \<Longrightarrow>
      collect_one argv x (int i) a = Some (note_flag (kind_of x) a, int i)"
    and "takes_value (kind_of x) \<Longrightarrow> kind_of x \<noteq> KPort \<Longrightarrow>
      collect_one argv x (int i) a =
        Some (note_value (kind_of x) (case xs of [] \<Rightarrow> None | y # _ \<Rightarrow> Some y) a, int i + 1)"
    and "kind_of x = KPort \<Longrightarrow>
      collect_one argv x (int i) a =
        (case xs of [] \<Rightarrow> None
         | y # _ \<Rightarrow> map_option (\<lambda>p. (a\<lparr>a_port := p\<rparr>, int i + 1)) (atoi (Some y)))"
    and "kind_of x = KPositional \<Longrightarrow>
      collect_one argv x (int i) a =
        map_option (\<lambda>v. (a\<lparr>a_arg_indices := v, a_arg_count := a_arg_count a + 1\<rparr>, int i))
          (wr (a_arg_indices a) (a_arg_count a) (int i))"
  using argv_at_drop(2) [OF d]
  apply -
  subgoal by (cases "kind_of x") (simp_all add: collect_one_eq takes_value_def)
  subgoal by (cases "kind_of x") (simp_all add: collect_one_eq takes_value_def)
  subgoal by (cases xs) (simp_all add: collect_one_eq atoi_def map_conv_bind_option comp_def)
  subgoal by (simp add: collect_one_eq map_conv_bind_option comp_def)
  done

definition collected :: "Args \<Rightarrow> (nat \<times> string) list \<Rightarrow> int list \<Rightarrow> Args \<Rightarrow> bool" where
  "collected a ps vs a' \<longleftrightarrow>
     a_arg_count a' = a_arg_count a + int (length ps)
     \<and> a_arg_indices a' = take (nat (a_arg_count a)) (a_arg_indices a) @ map (int \<circ> fst) ps
          @ drop (nat (a_arg_count a) + length ps) (a_arg_indices a)
     \<and> a_port a' = last (a_port a # vs) \<and> a_run_mode a' = a_run_mode a"

text \<open>The options behind the arguments read so far.\<close>

definition noted :: "Args \<Rightarrow> string list \<Rightarrow> Args \<Rightarrow> bool" where
  "noted a xs a' \<longleftrightarrow>
     a_mode_detached a' = (a_mode_detached a \<or> has_flag KDetached xs)
     \<and> a_quiet a' = (a_quiet a \<or> has_flag KQuiet xs) \<and> a_help a' = (a_help a \<or> has_flag KHelp xs)
     \<and> a_watch_path a' = last (a_watch_path a # option_values KWatch xs)
     \<and> a_ws_file a' = last (a_ws_file a # option_values KFile xs)
     \<and> a_log_file a' = last (a_log_file a # option_values KLog xs)"

lemma last_option_value: "last (u # (if b then [v] else []) @ vs) = last ((if b then v else u) # vs)"
  by simp

lemma noted_step:
  "\<not> takes_value (kind_of x) \<Longrightarrow> noted (note_flag (kind_of x) a) (y # xs) a' = noted a (x # y # xs) a'"
  "takes_value (kind_of x) \<Longrightarrow> noted (note_value (kind_of x) (Some y) a) xs a' = noted a (x # y # xs) a'"
  by (simp_all only: noted_def note_flag_fields note_value_fields has_flag.simps option_values.simps if_True if_False
      simp_thms last_option_value disj_assoc)

lemma collected_note:
  "collected (note_flag k a) ps vs a' = collected a ps vs a'" "collected (note_value k v a) ps vs a' = collected a ps vs a'"
  by (simp_all add: collected_def)

lemma collect_loop_drop:
  "drop i argv = x # xs \<Longrightarrow> collect_loop argv (int i) a =
     (case collect_one argv x (int i) a of None \<Rightarrow> None | Some (a', j) \<Rightarrow> collect_loop argv (j + 1) a')"
  using argv_at_drop(1,3) by (subst collect_loop.simps) auto

lemma collect_loop_end: "length argv \<le> i \<Longrightarrow> collect_loop argv (int i) a = Some a"
  by (simp add: collect_loop.simps)

lemma positionals_length: "length (positionals i xs) \<le> length xs"
  by (induction i xs rule: positionals.induct) auto

lemma collected_push:
  assumes "0 \<le> a_arg_count a" and "nat (a_arg_count a) + length ps < length (a_arg_indices a)"
    and "collected (a\<lparr>a_arg_indices := (a_arg_indices a)[nat (a_arg_count a) := int i],
                       a_arg_count := a_arg_count a + 1\<rparr>) ps vs a'"
  shows "collected a ((i, x) # ps) vs a'"
  using assms by (simp add: collected_def nat_add_distrib take_Suc_conv_app_nth)

lemma collect_loop_spec:
  assumes "drop i argv = xs" and "i \<le> length argv" and "length (a_arg_indices a) = length argv"
    and "0 \<le> a_arg_count a" and "nat (a_arg_count a) < i"
  shows "(case collect_loop argv (int i) a of
           None \<Rightarrow> \<not> ports_ok xs
         | Some a' \<Rightarrow> ports_ok xs \<and> collected a (positionals i xs) (port_values xs) a' \<and> noted a xs a')"
  using assms
proof (induction i xs arbitrary: a rule: positionals.induct)
  case (1 i)
  then have "length argv \<le> i" by simp
  then show ?case by (simp add: collect_loop_end collected_def noted_def)
next
  case (2 i x)
  note d = argv_at_drop [OF "2.prems"(1)]
  have e: "length argv \<le> i + 1" using d(4) by simp
  have fin: "collect_loop argv (int i + 1) b = Some b" "collect_loop argv (int i + 2) b = Some b" for b
    using e collect_loop_end [of argv "i + 1" b] collect_loop_end [of argv "i + 2" b] by (simp_all add: add.commute)
  note un = collect_loop_drop [OF "2.prems"(1)] and one = collect_one_kind [OF "2.prems"(1), of a]
  consider "\<not> takes_value (kind_of x)" "kind_of x \<noteq> KPositional" | "takes_value (kind_of x)" "kind_of x \<noteq> KPort"
    | "kind_of x = KPort" | "kind_of x = KPositional" by (auto simp: takes_value_def)
  then show ?case
  proof cases
    case 1
    then show ?thesis using un one(1) fin(1) by (auto simp: collected_def noted_def takes_value_def)
  next
    case 2
    then show ?thesis using un one(2) fin(2) by (auto simp: collected_def noted_def takes_value_def add.commute)
  next
    case 3
    then show ?thesis using un one(3) by simp
  next
    case 4
    have "wr (a_arg_indices a) (a_arg_count a) (int i) = Some ((a_arg_indices a)[nat (a_arg_count a) := int i])"
      using 2 by (simp add: wr_def)
    then show ?thesis
      using 4 one(4) un fin 2
      by (simp add: collected_def noted_def upd_conv_take_nth_drop)
  qed
next
  case (3 i x y xs)
  note d = argv_at_drop [OF "3.prems"(1)]
  have d2: "drop (i + 2) argv = xs" and le2: "i + 2 \<le> length argv"
    using argv_at_drop(4,3) [OF d(4)] by (simp_all add: add.assoc)
  note un = collect_loop_drop [OF "3.prems"(1)] and one = collect_one_kind [OF "3.prems"(1), of a]
  consider "\<not> takes_value (kind_of x)" "kind_of x \<noteq> KPositional" | "takes_value (kind_of x)" "kind_of x \<noteq> KPort"
    | "kind_of x = KPort" | "kind_of x = KPositional" by (auto simp: takes_value_def)
  then show ?case
  proof cases
    case 1
    let ?a' = "note_flag (kind_of x) a"
    have "collect_loop argv (int i) a = collect_loop argv (int (i + 1)) ?a'" using un one(1) [OF 1] by (simp add: add.commute)
    moreover have "case collect_loop argv (int (i + 1)) ?a' of None \<Rightarrow> \<not> ports_ok (y # xs)
        | Some a'' \<Rightarrow> ports_ok (y # xs) \<and>
            collected ?a' (positionals (i + 1) (y # xs)) (port_values (y # xs)) a'' \<and> noted ?a' (y # xs) a''"
      using 3 1 d by (intro "3.IH"(2)) auto
    ultimately show ?thesis using 1 noted_step(1) [OF 1(1)] by (auto simp: collected_note split: option.splits)
  next
    case 2
    let ?a' = "note_value (kind_of x) (Some y) a"
    have "collect_loop argv (int i) a = collect_loop argv (int (i + 2)) ?a'" using un one(2) [OF 2] by (simp add: add.commute)
    moreover have "case collect_loop argv (int (i + 2)) ?a' of None \<Rightarrow> \<not> ports_ok xs
        | Some a'' \<Rightarrow> ports_ok xs \<and> collected ?a' (positionals (i + 2) xs) (port_values xs) a'' \<and> noted ?a' xs a''"
      using 3 2 d2 le2 by (intro "3.IH"(1)) auto
    ultimately show ?thesis using 2 noted_step(2) [OF 2(1)] by (auto simp: collected_note split: option.splits)
  next
    case 3
    note k = this
    show ?thesis
    proof (cases "atoi (Some y)")
      case None
      then show ?thesis using k un one(3) by (simp add: takes_value_def)
    next
      case (Some v)
      have "collect_loop argv (int i) a = collect_loop argv (int (i + 2)) (a\<lparr>a_port := v\<rparr>)"
        using un one(3) k Some by (simp add: add.commute)
      moreover have "case collect_loop argv (int (i + 2)) (a\<lparr>a_port := v\<rparr>) of None \<Rightarrow> \<not> ports_ok xs
          | Some a'' \<Rightarrow> ports_ok xs \<and>
              collected (a\<lparr>a_port := v\<rparr>) (positionals (i + 2) xs) (port_values xs) a'' \<and> noted (a\<lparr>a_port := v\<rparr>) xs a''"
        using "3.prems" k d2 le2 by (intro "3.IH"(1)) (auto simp: takes_value_def)
      ultimately show ?thesis
        using k Some by (auto simp: collected_def noted_def takes_value_def split: option.splits)
    qed
  next
    case 4
    let ?a' = "a\<lparr>a_arg_indices := (a_arg_indices a)[nat (a_arg_count a) := int i],
                 a_arg_count := a_arg_count a + 1\<rparr>"
    have tv: "\<not> takes_value (kind_of x)" using 4 by (simp add: takes_value_def)
    have w: "wr (a_arg_indices a) (a_arg_count a) (int i) = Some ((a_arg_indices a)[nat (a_arg_count a) := int i])"
      using 3 by (simp add: wr_def)
    have "collect_loop argv (int i) a = collect_loop argv (int (i + 1)) ?a'"
      using un one(4) 4 w by (simp add: add.commute)
    moreover have "case collect_loop argv (int (i + 1)) ?a' of None \<Rightarrow> \<not> ports_ok (y # xs)
        | Some a'' \<Rightarrow> ports_ok (y # xs) \<and>
            collected ?a' (positionals (i + 1) (y # xs)) (port_values (y # xs)) a'' \<and> noted ?a' (y # xs) a''"
      using 3 tv d by (intro "3.IH"(2)) auto
    moreover have "noted ?a' (y # xs) a'' = noted a (x # y # xs) a''" for a''
      using 4 tv by (simp add: noted_def)
    moreover have "nat (a_arg_count a) + length (positionals (i + 1) (y # xs)) < length (a_arg_indices a)"
    proof -
      have "length (y # xs) = length argv - (i + 1)" using d(4) by (metis length_drop)
      then show ?thesis using positionals_length [of "i + 1" "y # xs"] "3.prems" le2 by simp
    qed
    ultimately show ?thesis
      using 4 tv "3.prems" collected_push [of a "positionals (i + 1) (y # xs)" i _ _ x]
      by (auto split: option.splits)
  qed
qed

lemma positionals_argv:
  "drop i argv = xs \<Longrightarrow> (k, x) \<in> set (positionals i xs) \<Longrightarrow> k < length argv \<and> argv ! k = x \<and> kind_of x = KPositional"
proof (induction i xs rule: positionals.induct)
  case (2 i y)
  then have "i < length argv" "argv ! i = y"
    using argv_at_drop(1,3) [OF "2.prems"(1)] by (auto simp: argv_at_def split: if_splits)
  then show ?case using 2 by (auto split: if_splits)
next
  case (3 i y z xs)
  have i: "i < length argv" "argv ! i = y"
    using argv_at_drop(1,3) [OF "3.prems"(1)] by (auto simp: argv_at_def split: if_splits)
  have d: "drop (i + 1) argv = z # xs" using argv_at_drop(4) [OF "3.prems"(1)] .
  have d2: "drop (i + 2) argv = xs" using argv_at_drop(4) [OF d] by (simp add: add.assoc)
  show ?case
    using 3 i d d2 by (auto split: if_splits)
qed simp

lemma collect_args_spec:
  assumes al: "arena_alloc mal (4 * length argv) ar = Some (Ret (Some p, ar'))" and ne: "argv \<noteq> []"
  shows "case config_collect_args mal ar argv of
      None \<Rightarrow> \<not> ports_ok (tl argv)
    | Some (Exit c) \<Rightarrow> False
    | Some (Ret (a, br)) \<Rightarrow>
        let ps = positionals 1 (tl argv) in
        ports_ok (tl argv) \<and> br = ar' \<and> a_arg_count a = int (length ps)
        \<and> a_arg_indices a = map (int \<circ> fst) ps @ replicate (length argv - length ps) 0
        \<and> (\<forall>(k, x) \<in> set ps. k < length argv \<and> argv ! k = x)
        \<and> a_port a = last (9999 # port_values (tl argv))
        \<and> a_run_mode a = (if ps = [] then RUNMODE_SERVER else RUNMODE_CMD)
        \<and> a_mode_detached a = has_flag KDetached (tl argv) \<and> a_quiet a = has_flag KQuiet (tl argv)
        \<and> a_help a = has_flag KHelp (tl argv)
        \<and> a_watch_path a = last (None # option_values KWatch (tl argv))
        \<and> a_ws_file a = last (None # option_values KFile (tl argv))
        \<and> a_log_file a = last (None # option_values KLog (tl argv))"
proof -
  let ?a = "init_args (length argv)" and ?ps = "positionals 1 (tl argv)"
  have d: "drop 1 argv = tl argv" by (simp add: drop_Suc)
  have len: "length argv \<ge> 1" using ne by (cases argv) auto
  have "case collect_loop argv (int 1) ?a of None \<Rightarrow> \<not> ports_ok (tl argv)
      | Some a' \<Rightarrow> ports_ok (tl argv) \<and> collected ?a ?ps (port_values (tl argv)) a' \<and> noted ?a (tl argv) a'"
    using d len by (intro collect_loop_spec) (simp_all add: init_args_def)
  moreover have "\<forall>(k, x) \<in> set ?ps. k < length argv \<and> argv ! k = x"
    using positionals_argv [OF d] by auto
  ultimately show ?thesis
    using al by (cases "collect_loop argv (int 1) ?a")
      (simp_all add: config_collect_args_def collected_def noted_def init_args_def Let_def)
qed

section \<open>Properties\<close>

text \<open>C29. The argument loop is undefined exactly when a \<open>-p\<close> has no value or one that is not an
  \<open>int\<close>. Otherwise every field of the arguments is what the command line says: the positions, in
  order, of exactly the arguments that are neither options nor option values, never written past
  the index array; the last value of \<open>-p\<close> (default 9999), of \<open>-w\<close>, of \<open>-f\<close> and of \<open>-l\<close> (default
  NULL, and NULL for such an option in last place); whether \<open>-d\<close>, \<open>-q\<close> and \<open>-h\<close> are given; and
  command mode exactly when some positional argument is there.\<close>

theorem config_collect_args_correct:
  assumes al: "arena_alloc mal (4 * length argv) ar = Some (Ret (Some p, ar'))" and ne: "argv \<noteq> []"
  shows "case config_collect_args mal ar argv of
      None \<Rightarrow> \<not> ports_ok (tl argv)
    | Some (Exit c) \<Rightarrow> False
    | Some (Ret (a, br)) \<Rightarrow>
        let ps = positionals 1 (tl argv) in
        ports_ok (tl argv) \<and> br = ar' \<and> a_arg_count a = int (length ps)
        \<and> a_arg_indices a = map (int \<circ> fst) ps @ replicate (length argv - length ps) 0
        \<and> (\<forall>(k, x) \<in> set ps. k < length argv \<and> argv ! k = x)
        \<and> a_port a = last (9999 # port_values (tl argv))
        \<and> a_run_mode a = (if ps = [] then RUNMODE_SERVER else RUNMODE_CMD)
        \<and> a_mode_detached a = has_flag KDetached (tl argv) \<and> a_quiet a = has_flag KQuiet (tl argv)
        \<and> a_help a = has_flag KHelp (tl argv)
        \<and> a_watch_path a = last (None # option_values KWatch (tl argv))
        \<and> a_ws_file a = last (None # option_values KFile (tl argv))
        \<and> a_log_file a = last (None # option_values KLog (tl argv))"
  by (rule collect_args_spec [OF assms])

definition demo_argv :: "string list" where
  "demo_argv = [''dpatch'', ''-q'', ''-p'', ''8080'', ''-w'', ''dir'', ''-l'', ''a.log'', ''run'', ''job'', ''-e'', ''A=1'', ''-f'']"

theorem config_collect_args_correct_witness:
  "\<exists>a. config_collect_args (\<lambda>_. True) [fresh_page 64] demo_argv = Some (Ret (a, [bump 52 (fresh_page 64)]))
     \<and> a_port a = 8080 \<and> a_arg_count a = 4 \<and> take 4 (a_arg_indices a) = [8, 9, 10, 11] \<and> a_run_mode a = RUNMODE_CMD
     \<and> a_quiet a \<and> \<not> a_help a \<and> \<not> a_mode_detached a
     \<and> a_watch_path a = Some ''dir'' \<and> a_log_file a = Some ''a.log'' \<and> a_ws_file a = None"
proof -
  have al: "arena_alloc (\<lambda>_. True) (4 * length demo_argv) [fresh_page 64] =
      Some (Ret (Some (0, 0), [bump 52 (fresh_page 64)]))"
    by (simp add: arena_alloc_spec PAGE_LIMIT_def alloc_spec_def walk_spec_def fits_page demo_argv_def)
      (simp add: fresh_page_def alloc_at_def)
  have pos: "positionals 1 (tl demo_argv) = [(8, ''run''), (9, ''job''), (10, ''-e''), (11, ''A=1'')]"
    by (simp add: demo_argv_def kind_of_def takes_value_def)
  have at: "atoi (Some ''8080'') = Some 8080"
    by (simp add: atoi_def is_c_space_def is_digit_def in_int32_def of_char_def)
  have pv: "ports_ok (tl demo_argv)" "port_values (tl demo_argv) = [8080]"
    by (simp_all add: demo_argv_def kind_of_def takes_value_def at)
  have op: "has_flag KQuiet (tl demo_argv)" "\<not> has_flag KHelp (tl demo_argv)" "\<not> has_flag KDetached (tl demo_argv)"
    "option_values KWatch (tl demo_argv) = [Some ''dir'']" "option_values KLog (tl demo_argv) = [Some ''a.log'']"
    "option_values KFile (tl demo_argv) = [None]"
    by (simp_all add: demo_argv_def kind_of_def takes_value_def)
  have ne: "demo_argv \<noteq> []" by (simp add: demo_argv_def)
  show ?thesis
    using config_collect_args_correct [OF al ne] pos pv op
    by (auto simp: Let_def split: option.splits outcome.splits)
qed

end
