(* ===== verification/Net.thy ===== *)
theory Net
  imports Config
begin

text \<open>
  Sockets and connections, \<open>src/src/net.h\<close>. The results of the system calls are parameters:
  \<open>os_send fd chunk\<close> is what \<open>send\<close> returns for the bytes offered, \<open>os_read fd n\<close> the bytes
  \<open>read\<close> delivers (\<^term>\<open>None\<close> for an error), and the record \<open>conn_env\<close> holds the results of the
  calls \<open>connection_init\<close> makes. A descriptor set is the set of its members; descriptors
  outside \<open>FD_SETSIZE\<close> are undefined behaviour.
\<close>

section \<open>Sending and reading\<close>

text \<open>The loop of \<open>socket_send\<close>: the count so far and the bytes the kernel took.\<close>

function send_loop ::
  "(int \<Rightarrow> byte list \<Rightarrow> int) \<Rightarrow> int \<Rightarrow> byte list \<Rightarrow> int \<Rightarrow> int \<Rightarrow> byte list \<Rightarrow> (int \<times> byte list) option" where
  "send_loop os_send sock buf sz sent wire =
     (if sent < sz
      then (case rd_block buf sent (nat (sz - sent)) of
              None \<Rightarrow> None
            | Some chunk \<Rightarrow>
                let s = os_send sock chunk in
                if s < 1 then Some (sent, wire)
                else send_loop os_send sock buf sz (sent + s) (wire @ take (nat s) chunk))
      else Some (sent, wire))"
  by pat_completeness auto
termination
  by (relation "measure (\<lambda>(f, k, b, n, s, w). nat (n - s))") auto

declare send_loop.simps [simp del]

definition socket_send ::
  "(int \<Rightarrow> byte list \<Rightarrow> int) \<Rightarrow> int \<Rightarrow> byte list \<Rightarrow> int \<Rightarrow> (int \<times> byte list) option" where
  "socket_send os_send sock buf sz = send_loop os_send sock buf sz 0 []"

function read_loop ::
  "(int \<Rightarrow> nat \<Rightarrow> byte list option) \<Rightarrow> int \<Rightarrow> byte list \<Rightarrow> int \<Rightarrow> int \<Rightarrow> (int \<times> byte list) option" where
  "read_loop os_read sock buf sz readc =
     (if readc < sz
      then (case os_read sock (nat (sz - readc)) of
              None \<Rightarrow> Some (readc, buf)
            | Some bs \<Rightarrow>
                if bs = [] then Some (readc, buf)
                else (case wr_block buf readc bs of
                        None \<Rightarrow> None
                      | Some buf' \<Rightarrow> read_loop os_read sock buf' sz (readc + int (length bs))))
      else Some (readc, buf))"
  by pat_completeness auto
termination
  by (relation "measure (\<lambda>(f, k, b, n, s). nat (n - s))") auto

declare read_loop.simps [simp del]

definition socket_read ::
  "(int \<Rightarrow> nat \<Rightarrow> byte list option) \<Rightarrow> int \<Rightarrow> byte list \<Rightarrow> int \<Rightarrow> (int \<times> byte list) option" where
  "socket_read os_read sock buf sz = read_loop os_read sock buf sz 0"

text \<open>\<open>fcntl(sock, F_GETFL, 0)\<close> and \<open>fcntl(sock, F_SETFL, flags | O_NONBLOCK)\<close>.\<close>

definition O_NONBLOCK :: int where
  "O_NONBLOCK = 2048"

definition socket_set_nonblock :: "(int \<Rightarrow> int) \<Rightarrow> (int \<Rightarrow> int \<Rightarrow> int) \<Rightarrow> int \<Rightarrow> int" where
  "socket_set_nonblock getfl setfl sock =
     (let flags = getfl sock in if flags = -1 then -1 else setfl sock (or flags O_NONBLOCK))"

definition socket_set_timeout :: "(int \<Rightarrow> int \<Rightarrow> int \<Rightarrow> int) \<Rightarrow> int \<Rightarrow> int \<Rightarrow> int \<Rightarrow> int" where
  "socket_set_timeout setsockopt sock timeout_flag timeout_secs = setsockopt sock timeout_flag timeout_secs"

section \<open>Connections\<close>

definition FD_SETSIZE :: int where
  "FD_SETSIZE = 1024"

definition FD_SET :: "int \<Rightarrow> int set \<Rightarrow> int set option" where
  "FD_SET fd S = (if 0 \<le> fd \<and> fd < FD_SETSIZE then Some (insert fd S) else None)"

definition FD_ISSET :: "int \<Rightarrow> int set \<Rightarrow> bool option" where
  "FD_ISSET fd S = (if 0 \<le> fd \<and> fd < FD_SETSIZE then Some (fd \<in> S) else None)"

record Connection =
  cn_socket :: int
  cn_port :: int
  cn_read_flags :: "int set"
  cn_write_flags :: "int set"
  cn_in_buf :: "byte list option"
  cn_out_buf :: "byte list option"

record conn_env =
  ce_socket :: int
  ce_reuse :: int
  ce_rcvtimeo :: int
  ce_sndtimeo :: int
  ce_bind :: int
  ce_listen :: int
  ce_connect :: int

text \<open>\<open>htons\<close>: the low 16 bits with their two bytes swapped.\<close>

definition htons :: "int \<Rightarrow> int" where
  "htons p = (p mod 256) * 256 + (p div 256) mod 256"

definition fresh_connection :: "Config \<Rightarrow> conn_env \<Rightarrow> Connection" where
  "fresh_connection cfg env =
     \<lparr>cn_socket = ce_socket env, cn_port = htons (a_port (c_args cfg)), cn_read_flags = {},
      cn_write_flags = {}, cn_in_buf = None, cn_out_buf = None\<rparr>"

text \<open>A buffer of \<open>n\<close> bytes from \<open>MMALLOC\<close>, which is \<open>arena_alloc\<close>: zeroed, or NULL.\<close>

definition alloc_buf ::
  "(nat \<Rightarrow> bool) \<Rightarrow> int \<Rightarrow> arena \<Rightarrow> (byte list option \<times> arena) outcome option" where
  "alloc_buf mal n ar =
     (case arena_alloc mal (to_size n) ar of
        None \<Rightarrow> None
      | Some (Exit c) \<Rightarrow> Some (Exit c)
      | Some (Ret (p, ar')) \<Rightarrow> Some (Ret (map_option (\<lambda>_. replicate (to_size n) NUL) p, ar')))"

text \<open>The part of \<open>connection_init\<close> after the two buffers are allocated.\<close>

definition conn_finish :: "Config \<Rightarrow> conn_env \<Rightarrow> int" where
  "conn_finish cfg env =
     (if ce_reuse env < 0 then -1
      else if ce_rcvtimeo env \<noteq> 0 \<or> ce_sndtimeo env \<noteq> 0 then -1
      else if a_run_mode (c_args cfg) = RUNMODE_SERVER
      then (if ce_bind env < 0 then -1 else if ce_listen env < 0 then -1 else 1)
      else (if ce_connect env < 0 then -1 else 1))"

text \<open>The second NULL test of the source looks at \<open>in_buf\<close> again, so \<open>out_buf\<close> goes unchecked.\<close>

definition connection_init ::
  "Config \<Rightarrow> conn_env \<Rightarrow> (nat \<Rightarrow> bool) \<Rightarrow> arena \<Rightarrow> ((int \<times> Connection) \<times> arena) outcome option" where
  "connection_init cfg env mal ar =
     (let conn = fresh_connection cfg env; n = buffer_size (connection (c_settings cfg)) in
      if cn_socket conn < 0 then Some (Ret ((cn_socket conn, conn), ar))
      else case alloc_buf mal n ar of
        None \<Rightarrow> None
      | Some (Exit c) \<Rightarrow> Some (Exit c)
      | Some (Ret (ib, ar1)) \<Rightarrow>
          let conn1 = conn\<lparr>cn_in_buf := ib\<rparr> in
          if cn_in_buf conn1 = None then Some (Ret ((-1, conn1), ar1))
          else case alloc_buf mal n ar1 of
            None \<Rightarrow> None
          | Some (Exit c) \<Rightarrow> Some (Exit c)
          | Some (Ret (ob, ar2)) \<Rightarrow>
              let conn2 = conn1\<lparr>cn_out_buf := ob\<rparr> in
              if cn_in_buf conn2 = None then Some (Ret ((-1, conn2), ar2))
              else Some (Ret ((conn_finish cfg env, conn2), ar2)))"

text \<open>\<open>connection_close\<close>: the descriptor closed, if any.\<close>

definition connection_close :: "Connection \<Rightarrow> (int \<times> int option) \<times> Connection" where
  "connection_close conn =
     (if 0 < cn_socket conn then ((0, Some (cn_socket conn)), conn\<lparr>cn_socket := 0\<rparr>)
      else ((0, None), conn))"

definition clear_buf :: "byte list option \<Rightarrow> int \<Rightarrow> byte list option option" where
  "clear_buf b n =
     (case b of None \<Rightarrow> None
      | Some bs \<Rightarrow> map_option Some (wr_block bs 0 (replicate (to_size n) NUL)))"

definition connection_init_set :: "Connection \<Rightarrow> Config \<Rightarrow> Connection option" where
  "connection_init_set conn cfg =
     do {
       let n = buffer_size (connection (c_settings cfg));
       rf \<leftarrow> FD_SET (cn_socket conn) {};
       wf \<leftarrow> FD_SET (cn_socket conn) {};
       ib \<leftarrow> clear_buf (cn_in_buf conn) n;
       ob \<leftarrow> clear_buf (cn_out_buf conn) n;
       Some (conn\<lparr>cn_read_flags := rf, cn_write_flags := wf, cn_in_buf := ib, cn_out_buf := ob\<rparr>)
     }"

section \<open>Lemmas\<close>

text \<open>What the documentation of \<open>send\<close> promises: it never takes more than it was offered.\<close>

definition send_sane :: "(int \<Rightarrow> byte list \<Rightarrow> int) \<Rightarrow> bool" where
  "send_sane os_send \<longleftrightarrow> (\<forall>fd chunk. os_send fd chunk \<le> int (length chunk))"

lemma send_loop_prefix:
  assumes "send_sane f" and "0 \<le> sent" and "sent \<le> n" and "nat n \<le> length buf"
    and "wire = take (nat sent) buf"
  shows "\<exists>r. send_loop f k buf n sent wire = Some (r, take (nat r) buf) \<and> sent \<le> r \<and> r \<le> n
    \<and> ((\<forall>c. c \<noteq> [] \<longrightarrow> 1 \<le> f k c) \<longrightarrow> r = n)"
  using assms
proof (induction f k buf n sent wire rule: send_loop.induct)
  case (1 f k buf n sent wire)
  show ?case
  proof (cases "sent < n")
    case False
    then have "send_loop f k buf n sent wire = Some (sent, wire)" by (subst send_loop.simps) simp
    then show ?thesis using 1 False by auto
  next
    case True
    define chunk where "chunk = take (nat (n - sent)) (drop (nat sent) buf)"
    have rb: "rd_block buf sent (nat (n - sent)) = Some chunk"
      using True 1 by (simp add: rd_block_def chunk_def)
    have len: "length chunk = nat (n - sent)" using rb by (rule rd_block_length)
    have "f k chunk \<le> int (length chunk)" using "1.prems"(1) by (simp add: send_sane_def)
    then have le: "f k chunk \<le> n - sent" using len True by simp
    show ?thesis
    proof (cases "f k chunk < 1")
      case small: True
      have "chunk \<noteq> []" using len True by auto
      then have "\<not> (\<forall>c. c \<noteq> [] \<longrightarrow> 1 \<le> f k c)" using small by force
      moreover have "send_loop f k buf n sent wire = Some (sent, wire)"
        using True rb small by (subst send_loop.simps) simp
      ultimately show ?thesis using True "1.prems" by auto
    next
      case False
      have ntake: "take (nat sent) buf @ take (nat (f k chunk)) chunk = take (nat (sent + f k chunk)) buf"
      proof -
        have "take (nat (f k chunk)) chunk = take (nat (f k chunk)) (drop (nat sent) buf)"
          using le False by (simp add: chunk_def min_def)
        then show ?thesis using "1.prems" False by (simp add: nat_add_distrib take_add)
      qed
      have "\<exists>r. send_loop f k buf n (sent + f k chunk) (wire @ take (nat (f k chunk)) chunk) =
          Some (r, take (nat r) buf) \<and> sent + f k chunk \<le> r \<and> r \<le> n
          \<and> ((\<forall>c. c \<noteq> [] \<longrightarrow> 1 \<le> f k c) \<longrightarrow> r = n)"
        using "1.prems" True False rb le ntake by (intro "1.IH") auto
      moreover have "send_loop f k buf n sent wire =
          send_loop f k buf n (sent + f k chunk) (wire @ take (nat (f k chunk)) chunk)"
        using True False rb by (subst send_loop.simps) (simp add: Let_def)
      ultimately show ?thesis using False by auto
    qed
  qed
qed

text \<open>A \<open>send\<close> that always makes progress delivers everything.\<close>

definition send_progress :: "(int \<Rightarrow> byte list \<Rightarrow> int) \<Rightarrow> int \<Rightarrow> bool" where
  "send_progress os_send sock \<longleftrightarrow> (\<forall>c. c \<noteq> [] \<longrightarrow> 1 \<le> os_send sock c)"

lemma socket_send_all:
  assumes "send_sane f" and "send_progress f k" and "n \<le> length buf"
  shows "socket_send f k buf (int n) = Some (int n, take n buf)"
  using send_loop_prefix [of f 0 "int n" buf "[]" k] assms by (auto simp: socket_send_def send_progress_def)

section \<open>Properties\<close>

text \<open>C30. \<open>socket_send\<close> puts on the wire exactly a prefix of the buffer, as long as the count it
  returns, never more than asked for; and the whole message when every \<open>send\<close> makes progress.\<close>

theorem socket_send_prefix:
  assumes "send_sane f" and "0 \<le> n" and "nat n \<le> length buf"
  shows "\<exists>r. socket_send f k buf n = Some (r, take (nat r) buf) \<and> 0 \<le> r \<and> r \<le> n
    \<and> (send_progress f k \<longrightarrow> r = n)"
  using send_loop_prefix [of f 0 n buf "[]" k] assms by (simp add: socket_send_def send_progress_def)

text \<open>C31. When the arena has room for the input buffer but not for the output buffer,
  \<open>connection_init\<close> still reports success and the connection has a NULL output buffer.\<close>

theorem connection_init_unchecked_out_buf:
  assumes "0 \<le> ce_socket env" and "conn_finish cfg env = 1"
    and "arena_alloc mal (to_size (buffer_size (connection (c_settings cfg)))) ar = Some (Ret (Some p, ar1))"
    and "arena_alloc mal (to_size (buffer_size (connection (c_settings cfg)))) ar1 = Some (Ret (None, ar2))"
  shows "\<exists>conn. connection_init cfg env mal ar = Some (Ret ((1, conn), ar2)) \<and> cn_out_buf conn = None
    \<and> connection_init_set conn cfg = None"
proof -
  let ?c = "(fresh_connection cfg env)\<lparr>cn_in_buf :=
    Some (replicate (to_size (buffer_size (connection (c_settings cfg)))) NUL), cn_out_buf := None\<rparr>"
  have "connection_init cfg env mal ar = Some (Ret ((1, ?c), ar2))"
    using assms by (simp add: connection_init_def alloc_buf_def Let_def fresh_connection_def)
  moreover have "connection_init_set ?c cfg = None"
    by (simp add: connection_init_set_def clear_buf_def Let_def split: bind_splits)
  ultimately show ?thesis by auto
qed

section \<open>Witnesses\<close>

theorem socket_send_prefix_witness:
  "\<exists>r. socket_send (\<lambda>_ c. min 2 (int (length c))) 3 ''hello'' 5 = Some (r, take (nat r) ''hello'') \<and> r = 5"
proof -
  have s: "send_sane (\<lambda>_ c. min 2 (int (length c)))" by (simp add: send_sane_def)
  have p: "send_progress (\<lambda>_ c. min 2 (int (length c))) 3"
    by (auto simp: send_progress_def Suc_le_eq simp flip: length_greater_0_conv)
  show ?thesis using socket_send_prefix [OF s, of 5 "''hello''" 3] p by auto
qed

definition demo_config :: Config where
  "demo_config = \<lparr>c_args = init_args 1, c_settings = config_default_settings\<rparr>"

definition demo_env :: conn_env where
  "demo_env = \<lparr>ce_socket = 3, ce_reuse = 0, ce_rcvtimeo = 0, ce_sndtimeo = 0, ce_bind = 0, ce_listen = 0,
     ce_connect = 0\<rparr>"

theorem connection_init_unchecked_out_buf_witness:
  "\<exists>conn ar2. connection_init demo_config demo_env (\<lambda>_. True) (lock_last [fresh_page 1500]) =
     Some (Ret ((1, conn), ar2)) \<and> cn_out_buf conn = None"
proof -
  let ?ar = "lock_last [fresh_page 1500]" and ?ar1 = "lock_last [bump 1024 (fresh_page 1500)]"
  have ok: "arena_ok ?ar" "arena_ok ?ar1"
    by (simp_all add: lock_last_def page_ok_def fresh_page_def bump_def PAGE_LIMIT_def)
  have n: "to_size (buffer_size (connection (c_settings demo_config))) = 1024"
    by (simp add: demo_config_def config_default_settings_def to_size_def)
  have a1: "arena_alloc (\<lambda>_. True) 1024 ?ar = Some (Ret (Some (0, 0), ?ar1))"
    unfolding arena_alloc_spec [OF ok(1)]
    by (simp add: alloc_spec_def walk_spec_def lock_last_def fits_def fresh_page_def bump_def alloc_at_def SIZE_MOD_def)
  have a2: "arena_alloc (\<lambda>_. True) 1024 ?ar1 = Some (Ret (None, ?ar1))"
    unfolding arena_alloc_spec [OF ok(2)]
    by (simp add: alloc_spec_def walk_spec_def lock_last_def fits_def fresh_page_def bump_def SIZE_MOD_def)
  have f: "conn_finish demo_config demo_env = 1"
    by (simp add: conn_finish_def demo_config_def demo_env_def init_args_def)
  show ?thesis
    using connection_init_unchecked_out_buf [of demo_env demo_config "\<lambda>_. True" ?ar "(0, 0)" ?ar1 ?ar1] n a1 a2 f
    by (auto simp: demo_env_def)
qed

end
