(* ===== verification/Protocol.thy ===== *)
theory Protocol
  imports Net
begin

text \<open>
  The wire protocol, \<open>src/src/protocol.h\<close>. A token's value is the C string its pointer denotes
  (or NULL); a stream's token array has as many cells as were allocated, so its capacity is the
  length of \<open>ts_tokens\<close>. \<open>ProtocolMsgType\<close> has no negative enumerator: the compiler gives it the
  type \<open>unsigned int\<close>, and \<open>ts_type\<close> holds its value.

  Reference semantics: one token is a type byte and a NUL-terminated string, and a message is a
  length, a type, a token count and the tokens. The locale \<open>item_codec\<close> carries the round trip of
  one item to sequences of items; it is interpreted for tokens and for \<open>int\<close>s.
\<close>

section \<open>Data\<close>

datatype ProtocolMsgType =
  PROTOCOL_MSG_NONE | PROTOCOL_MSG_PING | PROTOCOL_MSG_TASK_RUN | PROTOCOL_MSG_TASK_INFO
| PROTOCOL_MSG_WORKSPACE_SET | PROTOCOL_MSG_WORKSPACE_INFO | PROTOCOL_MSG_PROC_INFO
| PROTOCOL_MSG_SUCCESS | PROTOCOL_MSG_ERR

primrec msg_code :: "ProtocolMsgType \<Rightarrow> int" where
  "msg_code PROTOCOL_MSG_NONE = 0"
| "msg_code PROTOCOL_MSG_PING = 1"
| "msg_code PROTOCOL_MSG_TASK_RUN = 2"
| "msg_code PROTOCOL_MSG_TASK_INFO = 3"
| "msg_code PROTOCOL_MSG_WORKSPACE_SET = 4"
| "msg_code PROTOCOL_MSG_WORKSPACE_INFO = 5"
| "msg_code PROTOCOL_MSG_PROC_INFO = 6"
| "msg_code PROTOCOL_MSG_SUCCESS = 7"
| "msg_code PROTOCOL_MSG_ERR = 8"

datatype ProtocolTokenType = PROTOCOL_TOKEN_NONE | PROTOCOL_TOKEN_ARG | PROTOCOL_TOKEN_VAR

primrec token_code :: "ProtocolTokenType \<Rightarrow> int" where
  "token_code PROTOCOL_TOKEN_NONE = 0"
| "token_code PROTOCOL_TOKEN_ARG = 1"
| "token_code PROTOCOL_TOKEN_VAR = 2"

record ProtocolToken =
  tk_type :: int
  tk_value :: "string option"

record ProtocolTokenStream =
  ts_type :: int
  ts_length :: int
  ts_tokens :: "ProtocolToken list"

definition zero_token :: ProtocolToken where
  "zero_token = \<lparr>tk_type = 0, tk_value = None\<rparr>"

section \<open>Operations\<close>

text \<open>The sizes of both structures are 16; \<open>arena_alloc\<close> zeroes the block.\<close>

definition protocol_tokenstream_alloc ::
  "(nat \<Rightarrow> bool) \<Rightarrow> int \<Rightarrow> arena \<Rightarrow> (ProtocolTokenStream option \<times> arena) outcome option" where
  "protocol_tokenstream_alloc mal token_length ar =
     (case arena_alloc mal (wrap64 (16 + wrap64 (16 * to_size token_length))) ar of
        None \<Rightarrow> None
      | Some (Exit c) \<Rightarrow> Some (Exit c)
      | Some (Ret (None, ar')) \<Rightarrow> Some (Ret (None, ar'))
      | Some (Ret (Some p, ar')) \<Rightarrow>
          if token_length < 0 then None
          else Some (Ret (Some \<lparr>ts_type = 0, ts_length = 0,
                 ts_tokens = replicate (nat token_length) zero_token\<rparr>, ar')))"

definition clear_tokens :: "int \<Rightarrow> ProtocolToken list \<Rightarrow> ProtocolToken list option" where
  "clear_tokens n toks = (if n < 0 then None else wr_block toks 0 (replicate (nat n) zero_token))"

definition protocol_tokenstream_reset :: "ProtocolTokenStream \<Rightarrow> ProtocolTokenStream option" where
  "protocol_tokenstream_reset ts =
     do { toks \<leftarrow> clear_tokens (ts_length ts) (ts_tokens ts); Some (ts\<lparr>ts_tokens := toks, ts_length := 0\<rparr>) }"

definition protocol_tokenstream_add_token ::
  "ProtocolTokenStream \<Rightarrow> ProtocolTokenType \<Rightarrow> string option \<Rightarrow> ProtocolTokenStream option" where
  "protocol_tokenstream_add_token ts ty value =
     do {
       toks \<leftarrow> wr (ts_tokens ts) (ts_length ts) \<lparr>tk_type = token_code ty, tk_value = value\<rparr>;
       Some (ts\<lparr>ts_tokens := toks, ts_length := ts_length ts + 1\<rparr>)
     }"

text \<open>The search for the end of a token value.\<close>

function scan_nul :: "byte list \<Rightarrow> int \<Rightarrow> int \<Rightarrow> int option" where
  "scan_nul buf cur c =
     (case rd buf (cur + c) of
        None \<Rightarrow> None
      | Some b \<Rightarrow> if b \<noteq> NUL then scan_nul buf cur (c + 1) else Some c)"
  by pat_completeness auto
termination
  by (relation "measure (\<lambda>(buf, cur, c). nat (int (length buf) - (cur + c)))") (auto simp: rd_eq_Some_iff)

declare scan_nul.simps [simp del]

function decode_loop ::
  "byte list \<Rightarrow> int \<Rightarrow> int \<Rightarrow> int \<Rightarrow> ProtocolToken list \<Rightarrow> ProtocolToken list option" where
  "decode_loop in_buf cur i n toks =
     (if i < n
      then do {
        b \<leftarrow> rd in_buf cur;
        c \<leftarrow> scan_nul in_buf (cur + 1) 0;
        v \<leftarrow> rd_block in_buf (cur + 1) (nat c);
        toks' \<leftarrow> wr toks i \<lparr>tk_type = of_char b, tk_value = Some v\<rparr>;
        decode_loop in_buf (cur + 1 + c + 1) (i + 1) n toks'
      }
      else Some toks)"
  by pat_completeness auto
termination
  by (relation "measure (\<lambda>(buf, cur, i, n, toks). nat (n - i))") auto

declare decode_loop.simps [simp del]

text \<open>\<open>in_buf_len\<close> is not looked at, as in the source.\<close>

definition protocol_buf_to_tokenstream ::
  "byte list option \<Rightarrow> int \<Rightarrow> int \<Rightarrow> ProtocolTokenStream option \<Rightarrow> (int \<times> ProtocolTokenStream option) option" where
  "protocol_buf_to_tokenstream in_buf in_buf_len start_loc token_stream =
     (case (in_buf, token_stream) of
        (Some buf, Some ts) \<Rightarrow> do {
          stream_type \<leftarrow> rd_int buf start_loc;
          token_len \<leftarrow> rd_int buf (start_loc + 4);
          if token_len < 1 then Some (-1, token_stream)
          else do {
            toks \<leftarrow> clear_tokens token_len (ts_tokens ts);
            toks' \<leftarrow> decode_loop buf (start_loc + 8) 0 token_len toks;
            Some (0, Some \<lparr>ts_type = to_uint32 stream_type, ts_length = token_len, ts_tokens = toks'\<rparr>)
          }
        }
      | _ \<Rightarrow> Some (-1, token_stream))"

text \<open>The copy of a value, one character at a time, and its NUL.\<close>

primrec copy_value :: "byte list \<Rightarrow> int \<Rightarrow> string \<Rightarrow> byte list option" where
  "copy_value out cur [] = wr out cur NUL"
| "copy_value out cur (b # bs) = do { out' \<leftarrow> wr out cur b; copy_value out' (cur + 1) bs }"

function encode_loop ::
  "ProtocolToken list \<Rightarrow> int \<Rightarrow> int \<Rightarrow> int \<Rightarrow> byte list \<Rightarrow> (int \<times> byte list) option" where
  "encode_loop toks i n cur out =
     (if i < n
      then do {
        token \<leftarrow> rd toks i;
        (if tk_type token = token_code PROTOCOL_TOKEN_NONE then encode_loop toks (i + 1) n cur out
         else case tk_value token of
           None \<Rightarrow> encode_loop toks (i + 1) n cur out
         | Some v \<Rightarrow> do {
             out1 \<leftarrow> wr out cur (char_of (tk_type token));
             out2 \<leftarrow> copy_value out1 (cur + 1) v;
             encode_loop toks (i + 1) n (cur + 1 + int (length v) + 1) out2
           })
      }
      else Some (cur, out))"
  by pat_completeness auto
termination
  by (relation "measure (\<lambda>(toks, i, n, cur, out). nat (n - i))") auto

declare encode_loop.simps [simp del]

definition protocol_tokenstream_to_buf ::
  "ProtocolTokenStream option \<Rightarrow> byte list option \<Rightarrow> int \<Rightarrow> int \<Rightarrow> (int \<times> byte list option) option" where
  "protocol_tokenstream_to_buf token_stream out_buf out_buf_len start_loc =
     (case (token_stream, out_buf) of
        (Some ts, Some out) \<Rightarrow> do {
          out1 \<leftarrow> wr_int out start_loc (ts_type ts);
          out2 \<leftarrow> wr_int out1 (start_loc + 4) (ts_length ts);
          (cur, out3) \<leftarrow> encode_loop (ts_tokens ts) 0 (ts_length ts) (start_loc + 8) out2;
          Some (cur, Some out3)
        }
      | _ \<Rightarrow> Some (-1, out_buf))"

text \<open>The arrays \<open>args\<close> and \<open>vars\<close> belong to the caller; entries are pointers, so possibly NULL.\<close>

function parse_loop ::
  "ProtocolToken list \<Rightarrow> int \<Rightarrow> int \<Rightarrow> int \<Rightarrow> int \<Rightarrow> string option list \<Rightarrow> string option list
    \<Rightarrow> (int \<times> int \<times> string option list \<times> string option list) option" where
  "parse_loop toks i n argc varc args vars =
     (if i < n
      then do {
        token \<leftarrow> rd toks i;
        (if tk_type token = token_code PROTOCOL_TOKEN_ARG
         then do { args' \<leftarrow> wr args argc (tk_value token); parse_loop toks (i + 1) n (argc + 1) varc args' vars }
         else if tk_type token = token_code PROTOCOL_TOKEN_VAR
         then do { vars' \<leftarrow> wr vars varc (tk_value token); parse_loop toks (i + 1) n argc (varc + 1) args vars' }
         else parse_loop toks (i + 1) n argc varc args vars)
      }
      else Some (argc, varc, args, vars))"
  by pat_completeness auto
termination
  by (relation "measure (\<lambda>(toks, i, n, r). nat (n - i))") auto

declare parse_loop.simps [simp del]

definition protocol_parse_token_stream ::
  "ProtocolTokenStream \<Rightarrow> string option list \<Rightarrow> string option list
    \<Rightarrow> (int \<times> int \<times> string option list \<times> string option list) option" where
  "protocol_parse_token_stream ts args vars =
     do {
       (argc, varc, args1, vars1) \<leftarrow> parse_loop (ts_tokens ts) 0 (ts_length ts) 0 0 args vars;
       args2 \<leftarrow> wr args1 argc None;
       vars2 \<leftarrow> wr vars1 varc None;
       Some (0, ts_type ts mod 256, args2, vars2)
     }"

text \<open>The result is the return value with the bytes the socket took, and the buffer afterwards.\<close>

definition protocol_send ::
  "(int \<Rightarrow> byte list \<Rightarrow> int) \<Rightarrow> int \<Rightarrow> byte list option \<Rightarrow> int \<Rightarrow> ProtocolTokenStream option
    \<Rightarrow> ((int \<times> byte list) \<times> byte list option) option" where
  "protocol_send os_send sock data_buf buf_len token_stream =
     do {
       (len, data1) \<leftarrow> protocol_tokenstream_to_buf token_stream data_buf buf_len 4;
       (if len < 1 then Some ((-1, []), data1)
        else do {
          buf \<leftarrow> data1;
          let len' = len + 4;
          buf' \<leftarrow> wr_int buf 0 len';
          r \<leftarrow> socket_send os_send sock buf' len';
          Some (r, Some buf')
        })
     }"

definition protocol_read ::
  "byte list option \<Rightarrow> int \<Rightarrow> ProtocolTokenStream option \<Rightarrow> (int \<times> ProtocolTokenStream option) option" where
  "protocol_read data_buf buf_len token_stream =
     do {
       buf \<leftarrow> data_buf;
       msg_len \<leftarrow> rd_int buf 0;
       (r, ts) \<leftarrow> protocol_buf_to_tokenstream data_buf (to_int32 (msg_len - 4)) 4 token_stream;
       Some (if r \<noteq> 0 then -1 else 0, ts)
     }"

section \<open>Item codecs\<close>

primrec dec_many :: "(byte list \<Rightarrow> ('a \<times> byte list) option) \<Rightarrow> nat \<Rightarrow> byte list \<Rightarrow> ('a list \<times> byte list) option" where
  "dec_many dec 0 bs = Some ([], bs)"
| "dec_many dec (Suc k) bs =
     (case dec bs of
        None \<Rightarrow> None
      | Some (x, r) \<Rightarrow> map_option (\<lambda>(xs, r'). (x # xs, r')) (dec_many dec k r))"

locale item_codec =
  fixes enc :: "'a \<Rightarrow> byte list"
    and dec :: "byte list \<Rightarrow> ('a \<times> byte list) option"
    and ok :: "'a \<Rightarrow> bool"
  assumes dec_enc: "ok x \<Longrightarrow> dec (enc x @ r) = Some (x, r)"
begin

lemma enc_inj:
  assumes "ok x" and "ok y" and eq: "enc x @ r = enc y @ s"
  shows "x = y \<and> r = s"
proof -
  have "dec (enc y @ s) = Some (x, r)" using dec_enc [OF assms(1), of r] unfolding eq .
  then show ?thesis unfolding dec_enc [OF assms(2)] by simp
qed

lemma dec_many_enc:
  "(\<And>x. x \<in> set xs \<Longrightarrow> ok x) \<Longrightarrow> dec_many dec (length xs) (concat (map enc xs) @ r) = Some (xs, r)"
  by (induction xs) (simp_all add: dec_enc)

lemma dec_many_append:
  assumes "\<And>x. x \<in> set xs \<Longrightarrow> ok x"
  shows "dec_many dec (length xs + k) (concat (map enc xs) @ r) = map_option (\<lambda>(ys, s). (xs @ ys, s)) (dec_many dec k r)"
  using assms
proof (induction xs)
  case Nil
  then show ?case by (cases "dec_many dec k r") auto
next
  case (Cons x xs)
  then show ?case by (cases "dec_many dec k r") (auto simp: dec_enc)
qed

lemma encodings_prefix_free:
  assumes "\<And>x. x \<in> set xs \<Longrightarrow> ok x" and "\<And>x. x \<in> set ys \<Longrightarrow> ok x" and "length xs = length ys"
    and eq: "concat (map enc xs) @ r = concat (map enc ys) @ s"
  shows "xs = ys \<and> r = s"
proof -
  have "dec_many dec (length xs) (concat (map enc ys) @ s) = Some (xs, r)"
    using dec_many_enc [OF assms(1), of xs r] unfolding eq by simp
  moreover have "dec_many dec (length xs) (concat (map enc ys) @ s) = Some (ys, s)"
    using dec_many_enc [OF assms(2), of ys s] assms(3) by simp
  ultimately show ?thesis by simp
qed

end

text \<open>A token on the wire: its type byte and its value with the NUL.\<close>

definition enc_token :: "ProtocolToken \<Rightarrow> byte list" where
  "enc_token t = char_of (tk_type t) # (case tk_value t of None \<Rightarrow> [] | Some v \<Rightarrow> v) @ [NUL]"

fun dec_token :: "byte list \<Rightarrow> (ProtocolToken \<times> byte list) option" where
  "dec_token [] = None"
| "dec_token (b # bs) =
     (let v = takeWhile (\<lambda>c. c \<noteq> NUL) bs in
      if NUL \<in> set bs then Some (\<lparr>tk_type = of_char b, tk_value = Some v\<rparr>, drop (Suc (length v)) bs) else None)"

definition token_ok :: "ProtocolToken \<Rightarrow> bool" where
  "token_ok t \<longleftrightarrow> 0 < tk_type t \<and> tk_type t < 256 \<and> (\<exists>v. tk_value t = Some v \<and> cstring v)"

text \<open>Tokens the decoder can produce: type 0 included.\<close>

definition token_wire :: "ProtocolToken \<Rightarrow> bool" where
  "token_wire t \<longleftrightarrow> 0 \<le> tk_type t \<and> tk_type t < 256 \<and> (\<exists>v. tk_value t = Some v \<and> cstring v)"

lemma token_ok_wire: "token_ok t \<Longrightarrow> token_wire t"
  by (auto simp: token_ok_def token_wire_def)

lemma dec_enc_token: "token_wire t \<Longrightarrow> dec_token (enc_token t @ r) = Some (t, r)"
  by (cases t) (auto simp: token_wire_def enc_token_def takeWhile_NUL Let_def)

interpretation tokens: item_codec enc_token dec_token token_wire
  by unfold_locales (rule dec_enc_token)

definition dec_int :: "byte list \<Rightarrow> (int \<times> byte list) option" where
  "dec_int bs = (if length bs < 4 then None else Some (bytes_int (take 4 bs), drop 4 bs))"

interpretation ints: item_codec int_bytes dec_int in_int32
  by unfold_locales (simp add: dec_int_def bytes_int_bytes)

section \<open>The loops of the decoder and the encoder\<close>

lemma scan_nul_eq:
  "scan_nul buf (int n) (int c) =
     (if NUL \<in> set (drop (n + c) buf)
      then Some (int c + int (length (takeWhile (\<lambda>b. b \<noteq> NUL) (drop (n + c) buf)))) else None)"
proof (induction "length buf - (n + c)" arbitrary: c rule: less_induct)
  case less
  have rdn: "rd buf (int n + int c) = (if n + c < length buf then Some (buf ! (n + c)) else None)"
    using rd_nat [of buf "n + c"] by simp
  show ?case
  proof (cases "n + c < length buf")
    case False
    then show ?thesis using rdn by (subst scan_nul.simps) simp
  next
    case True
    then have d: "drop (n + c) buf = buf ! (n + c) # drop (n + Suc c) buf"
      by (simp add: Cons_nth_drop_Suc)
    have "scan_nul buf (int n) (int (Suc c)) =
      (if NUL \<in> set (drop (n + Suc c) buf)
       then Some (int (Suc c) + int (length (takeWhile (\<lambda>b. b \<noteq> NUL) (drop (n + Suc c) buf)))) else None)"
      using True by (intro less) simp
    then show ?thesis using rdn True d by (subst scan_nul.simps) (simp add: add.commute)
  qed
qed

lemma decode_loop_eq:
  assumes "i + k \<le> length toks"
  shows "decode_loop buf (int n) (int i) (int (i + k)) toks =
    map_option (\<lambda>(ts, r). take i toks @ ts @ drop (i + k) toks) (dec_many dec_token k (drop n buf))"
  using assms
proof (induction k arbitrary: i n toks)
  case 0
  then show ?case by (subst decode_loop.simps) simp
next
  case (Suc k)
  show ?case
  proof (cases "n < length buf \<and> NUL \<in> set (drop (Suc n) buf)")
    case False
    have "dec_token (drop n buf) = None"
      using False by (cases "n < length buf") (auto simp: Cons_nth_drop_Suc [symmetric])
    moreover have "decode_loop buf (int n) (int i) (int (i + Suc k)) toks = None"
      using False scan_nul_eq [of buf "Suc n" 0] by (subst decode_loop.simps) (auto simp: add.commute)
    ultimately show ?thesis by simp
  next
    case True
    define v where "v = takeWhile (\<lambda>b. b \<noteq> NUL) (drop (Suc n) buf)"
    have s: "scan_nul buf (int n + 1) 0 = Some (int (length v))"
      using True scan_nul_eq [of buf "Suc n" 0] by (simp add: v_def add.commute)
    have lv: "Suc n + length v \<le> length buf"
      using length_takeWhile_le [of "\<lambda>b. b \<noteq> NUL" "drop (Suc n) buf"] True
      unfolding v_def length_drop by linarith
    have tv: "take (length v) (drop (Suc n) buf) = v" by (simp add: v_def flip: takeWhile_eq_take)
    have rv: "rd_block buf (int n + 1) (length v) = Some v"
      using rd_block_nat [of buf "Suc n" "length v"] lv tv by (simp add: add.commute)
    let ?t = "\<lparr>tk_type = of_char (buf ! n), tk_value = Some v\<rparr>"
    have dt: "dec_token (drop n buf) = Some (?t, drop (Suc n + Suc (length v)) buf)"
      using True by (simp add: Cons_nth_drop_Suc [symmetric] v_def Let_def add.commute)
    have "decode_loop buf (int n) (int i) (int (i + Suc k)) toks =
        decode_loop buf (int (Suc n + Suc (length v))) (int (Suc i)) (int (Suc i + k)) (toks[i := ?t])"
      using True Suc.prems s rv by (subst decode_loop.simps) (simp add: algebra_simps)
    also have "\<dots> = map_option (\<lambda>(ts, r). take (Suc i) (toks[i := ?t]) @ ts @ drop (Suc i + k) (toks[i := ?t]))
        (dec_many dec_token k (drop (Suc n + Suc (length v)) buf))"
      using Suc.prems by (intro Suc.IH) simp
    finally show ?thesis
      using dt Suc.prems
      by (cases "dec_many dec_token k (drop (Suc n + Suc (length v)) buf)") (auto simp: take_Suc_conv_app_nth)
  qed
qed

text \<open>Tokens the encoder writes; the others it skips.\<close>

definition tk_real :: "ProtocolToken \<Rightarrow> bool" where
  "tk_real t \<longleftrightarrow> tk_type t \<noteq> 0 \<and> tk_value t \<noteq> None"

lemma copy_value_eq: "copy_value out (int n) v = wr_block out (int n) (v @ [NUL])"
proof (induction v arbitrary: n out)
  case Nil
  then show ?case by (simp only: copy_value.simps append_Nil wr_block_one)
next
  case (Cons b bs)
  have "copy_value out' (int n + 1) bs = wr_block out' (int (Suc n)) (bs @ [NUL])" for out'
    using Cons.IH [of out' "Suc n"] by (simp add: add.commute)
  then show ?case by (simp only: copy_value.simps append_Cons wr_block_Cons)
qed

lemma encode_loop_eq:
  assumes "i + k \<le> length toks" and "n \<le> length out"
  shows "encode_loop toks (int i) (int (i + k)) (int n) out =
    (let bs = concat (map enc_token (filter tk_real (take k (drop i toks))))
     in map_option (\<lambda>o'. (int (n + length bs), o')) (wr_block out (int n) bs))"
  using assms
proof (induction k arbitrary: i n out)
  case 0
  then show ?case by (subst encode_loop.simps) (simp add: wr_block_nat)
next
  case (Suc k)
  let ?t = "toks ! i"
  have d: "take (Suc k) (drop i toks) = ?t # take k (drop (Suc i) toks)"
    using Suc.prems by (simp add: Cons_nth_drop_Suc [symmetric])
  show ?case
  proof (cases "tk_type ?t = 0 \<or> tk_value ?t = None")
    case True
    then have nr: "\<not> tk_real ?t" by (auto simp: tk_real_def)
    have "encode_loop toks (int i) (int (i + Suc k)) (int n) out =
        encode_loop toks (int (Suc i)) (int (Suc i + k)) (int n) out"
      using True Suc.prems by (subst encode_loop.simps) (auto simp: algebra_simps)
    also have "\<dots> = (let bs = concat (map enc_token (filter tk_real (take k (drop (Suc i) toks))))
        in map_option (\<lambda>o'. (int (n + length bs), o')) (wr_block out (int n) bs))"
      using Suc.prems by (intro Suc.IH) auto
    finally show ?thesis using nr by (simp add: d)
  next
    case False
    then obtain v where v: "tk_value ?t = Some v" by auto
    let ?e = "enc_token ?t" and ?bs = "concat (map enc_token (filter tk_real (take k (drop (Suc i) toks))))"
    have e: "?e = char_of (tk_type ?t) # v @ [NUL]" by (simp add: enc_token_def v)
    have le: "length ?e = length v + 2" by (simp add: e)
    have writes: "Option.bind (wr out (int n) (char_of (tk_type ?t))) (\<lambda>o1. copy_value o1 (int n + 1) v) =
        wr_block out (int n) ?e"
      using copy_value_eq [of _ "Suc n" v] by (simp only: e wr_block_Cons) (simp add: add.commute)
    have "encode_loop toks (int i) (int (i + Suc k)) (int n) out =
        Option.bind (wr_block out (int n) ?e)
          (\<lambda>o2. encode_loop toks (int (Suc i)) (int (Suc i + k)) (int (n + length ?e)) o2)"
      using False v Suc.prems unfolding writes [symmetric]
      by (subst encode_loop.simps) (simp add: le algebra_simps)
    also have "\<dots> = Option.bind (wr_block out (int n) ?e)
        (\<lambda>o2. map_option (\<lambda>o'. (int (n + length ?e + length ?bs), o')) (wr_block o2 (int (n + length ?e)) ?bs))"
    proof (rule bind_option_cong [OF refl])
      fix o2 assume w: "o2 \<in> set_option (wr_block out (int n) ?e)"
      then have "n + length ?e \<le> length o2"
        by (auto simp: wr_block_nat split: if_splits)
      then show "encode_loop toks (int (Suc i)) (int (Suc i + k)) (int (n + length ?e)) o2 =
          map_option (\<lambda>o'. (int (n + length ?e + length ?bs), o')) (wr_block o2 (int (n + length ?e)) ?bs)"
        using Suc.IH [of "Suc i" "n + length ?e" o2] Suc.prems by (simp add: Let_def)
    qed
    also have "\<dots> = map_option (\<lambda>o'. (int (n + length (?e @ ?bs)), o')) (wr_block out (int n) (?e @ ?bs))"
      using Suc.prems by (simp add: wr_block_append map_option_bind add.assoc comp_def)
    finally show ?thesis using False by (simp add: d Let_def tk_real_def [of ?t])
  qed
qed

section \<open>Messages\<close>

definition stream_ok :: "ProtocolTokenStream \<Rightarrow> bool" where
  "stream_ok ts \<longleftrightarrow> 0 \<le> ts_length ts \<and> ts_length ts \<le> int (length (ts_tokens ts)) \<and> in_int32 (ts_length ts)
     \<and> 0 \<le> ts_type ts \<and> ts_type ts < 4294967296
     \<and> (\<forall>t \<in> set (ts_tokens ts). tk_real t \<longrightarrow> token_ok t)"

definition real_tokens :: "ProtocolTokenStream \<Rightarrow> ProtocolToken list" where
  "real_tokens ts = filter tk_real (take (nat (ts_length ts)) (ts_tokens ts))"

definition payload :: "ProtocolTokenStream \<Rightarrow> byte list" where
  "payload ts = int_bytes (ts_type ts) @ int_bytes (ts_length ts) @ concat (map enc_token (real_tokens ts))"

text \<open>The length field counts 4 bytes more than the message has.\<close>

definition message :: "ProtocolTokenStream \<Rightarrow> byte list" where
  "message ts = int_bytes (int (length (payload ts)) + 8) @ payload ts"

lemma message_length: "length (message ts) = 4 + length (payload ts)"
  by (simp add: message_def)

lemma payload_length: "8 \<le> length (payload ts)"
  by (simp add: payload_def)

lemma to_buf_eq:
  assumes "stream_ok ts" and "s \<le> length out"
  shows "protocol_tokenstream_to_buf (Some ts) (Some out) L (int s) =
    map_option (\<lambda>o'. (int (s + length (payload ts)), Some o')) (wr_block out (int s) (payload ts))"
proof -
  define k where "k = nat (ts_length ts)"
  have k: "ts_length ts = int k" "0 + k \<le> length (ts_tokens ts)"
    using assms by (auto simp: stream_ok_def k_def)
  let ?t = "int_bytes (ts_type ts)" and ?l = "int_bytes (ts_length ts)"
    and ?bs = "concat (map enc_token (real_tokens ts))"
  have loop: "encode_loop (ts_tokens ts) 0 (ts_length ts) (int (s + 8)) o2 =
      map_option (\<lambda>o'. (int (s + length (payload ts)), o')) (wr_block o2 (int (s + 8)) ?bs)"
    if "s + 8 \<le> length o2" for o2
    using encode_loop_eq [OF k(2) that] k by (simp add: Let_def real_tokens_def payload_def add.assoc)
  have hd: "Option.bind (wr_int out (int s) (ts_type ts)) (\<lambda>o1. wr_int o1 (int s + 4) (ts_length ts)) =
      wr_block out (int s) (?t @ ?l)"
    unfolding wr_int_def wr_block_append [OF assms(2)] by simp
  have "protocol_tokenstream_to_buf (Some ts) (Some out) L (int s) =
      Option.bind (wr_block out (int s) (?t @ ?l))
        (\<lambda>o2. map_option (\<lambda>(c, o3). (c, Some o3)) (encode_loop (ts_tokens ts) 0 (ts_length ts) (int (s + 8)) o2))"
    unfolding hd [symmetric]
    by (simp add: protocol_tokenstream_to_buf_def map_conv_bind_option comp_def case_prod_beta' add.assoc)
  also have "\<dots> = Option.bind (wr_block out (int s) (?t @ ?l))
        (\<lambda>o2. map_option (\<lambda>o'. (int (s + length (payload ts)), Some o')) (wr_block o2 (int (s + 8)) ?bs))"
  proof (rule bind_option_cong [OF refl])
    fix o2 assume "o2 \<in> set_option (wr_block out (int s) (?t @ ?l))"
    then have "s + 8 \<le> length o2" by (auto simp: wr_block_nat split: if_splits)
    then show "map_option (\<lambda>(c, o3). (c, Some o3)) (encode_loop (ts_tokens ts) 0 (ts_length ts) (int (s + 8)) o2) =
        map_option (\<lambda>o'. (int (s + length (payload ts)), Some o')) (wr_block o2 (int (s + 8)) ?bs)"
      by (simp add: loop option.map_comp comp_def del: of_nat_add)
  qed
  also have "\<dots> = map_option (\<lambda>o'. (int (s + length (payload ts)), Some o')) (wr_block out (int s) (payload ts))"
    using wr_block_append [OF assms(2), of "?t @ ?l" ?bs] by (simp add: payload_def map_option_bind comp_def)
  finally show ?thesis .
qed

lemma protocol_send_eq:
  assumes "stream_ok ts"
  shows "protocol_send f k (Some out) L (Some ts) =
    (if length (message ts) \<le> length out
     then let buf = message ts @ drop (length (message ts)) out in
          map_option (\<lambda>r. (r, Some buf)) (socket_send f k buf (int (length (message ts)) + 4))
     else None)"
proof (cases "length (message ts) \<le> length out")
  case True
  let ?o1 = "take 4 out @ payload ts @ drop (4 + length (payload ts)) out"
  have "protocol_tokenstream_to_buf (Some ts) (Some out) L 4 = Some (int (4 + length (payload ts)), Some ?o1)"
    using to_buf_eq [OF assms, of 4 out L] True wr_block_nat [of out 4 "payload ts"] by (simp add: message_length)
  moreover have "wr_int ?o1 0 (int (4 + length (payload ts)) + 4) = Some (message ts @ drop (length (message ts)) out)"
    using True wr_block_nat [of ?o1 0] by (simp add: wr_int_def message_def add.commute)
  ultimately show ?thesis using True
    by (simp add: protocol_send_def map_conv_bind_option comp_def message_length Let_def)
next
  case False
  have "protocol_tokenstream_to_buf (Some ts) (Some out) L 4 = None"
  proof (cases "4 \<le> length out")
    case True
    then show ?thesis using to_buf_eq [OF assms, of 4 out L] False wr_block_nat [of out 4 "payload ts"]
      by (simp add: message_length)
  next
    case False
    then show ?thesis using wr_block_nat [of out 4 "int_bytes (ts_type ts)"]
      by (simp add: protocol_tokenstream_to_buf_def wr_int_def)
  qed
  then show ?thesis using False by (simp add: protocol_send_def)
qed

lemma socket_send_beyond:
  assumes "int (length buf) < n"
  shows "socket_send f k buf n = None"
proof -
  have "rd_block buf 0 (nat n) = None" "0 < n" using assms by (auto simp: rd_None_block)
  then show ?thesis unfolding socket_send_def by (subst send_loop.simps) simp
qed

lemma clear_tokens_eq:
  "0 \<le> n \<Longrightarrow> n \<le> int (length toks) \<Longrightarrow>
    clear_tokens n toks = Some (replicate (nat n) zero_token @ drop (nat n) toks)"
  using wr_block_nat [of toks 0 "replicate (nat n) zero_token"] by (simp add: clear_tokens_def)

lemma clear_tokens_None: "int (length toks) < n \<Longrightarrow> clear_tokens n toks = None"
  by (simp add: clear_tokens_def wr_None_block)

lemma rd_int_at: "rd_int (p @ int_bytes v @ r) (int (length p)) = Some (to_int32 v)"
  by (simp add: rd_int_def rd_block_nat bytes_int_bytes)

lemma to_uint32_to_int32 [simp]: "to_uint32 (to_int32 i) = to_uint32 i"
  by (simp add: to_uint32_def to_int32_def mod_diff_left_eq)

lemma protocol_read_eq:
  assumes h: "length h = 4" and n: "in_int32 n"
  shows "protocol_read (Some (h @ int_bytes ty @ int_bytes n @ r)) L (Some rx) =
    (if n < 1 then Some (-1, Some rx)
     else if int (length (ts_tokens rx)) < n then None
     else map_option (\<lambda>(toks, _). (0, Some \<lparr>ts_type = to_uint32 ty, ts_length = n,
              ts_tokens = toks @ drop (nat n) (ts_tokens rx)\<rparr>)) (dec_many dec_token (nat n) r))"
proof -
  let ?b = "h @ int_bytes ty @ int_bytes n @ r"
  have r0: "\<exists>m. rd_int ?b 0 = Some m" using rd_block_nat [of ?b 0 4] h by (auto simp: rd_int_def)
  have r4: "rd_int ?b 4 = Some (to_int32 ty)" using rd_int_at [of h ty "int_bytes n @ r"] h by simp
  have r8: "rd_int ?b 8 = Some n" using rd_int_at [of "h @ int_bytes ty" n r] h n by simp
  show ?thesis
  proof (cases "1 \<le> n \<and> n \<le> int (length (ts_tokens rx))")
    case True
    define k where "k = nat n"
    have k: "n = int k" "k \<le> length (ts_tokens rx)" using True by (auto simp: k_def)
    let ?z = "replicate k zero_token @ drop k (ts_tokens rx)"
    have "decode_loop ?b 12 0 n ?z =
        map_option (\<lambda>(ts, _). ts @ drop k (ts_tokens rx)) (dec_many dec_token k r)"
      using decode_loop_eq [of 0 k ?z ?b 12] k h by simp
    then show ?thesis using True r0 r4 r8 k clear_tokens_eq [of n "ts_tokens rx"]
      by (auto simp: protocol_read_def protocol_buf_to_tokenstream_def map_conv_bind_option comp_def case_prod_beta')
  next
    case False
    then show ?thesis using r0 r4 r8
      by (auto simp: protocol_read_def protocol_buf_to_tokenstream_def clear_tokens_None)
  qed
qed

section \<open>Splitting a stream\<close>

definition values_of :: "ProtocolTokenType \<Rightarrow> ProtocolToken list \<Rightarrow> string option list" where
  "values_of ty toks = map tk_value (filter (\<lambda>t. tk_type t = token_code ty) toks)"

lemma parse_loop_eq:
  assumes "i + k \<le> length toks" and "a \<le> length args" and "v \<le> length vars"
  shows "parse_loop toks (int i) (int (i + k)) (int a) (int v) args vars =
    (let A = values_of PROTOCOL_TOKEN_ARG (take k (drop i toks));
         V = values_of PROTOCOL_TOKEN_VAR (take k (drop i toks))
     in do { x \<leftarrow> wr_block args (int a) A; y \<leftarrow> wr_block vars (int v) V;
             Some (int (a + length A), int (v + length V), x, y) })"
  using assms
proof (induction k arbitrary: i a v args vars)
  case 0
  then show ?case by (subst parse_loop.simps) (simp add: values_of_def wr_block_nat)
next
  case (Suc k)
  let ?t = "toks ! i"
  have d: "take (Suc k) (drop i toks) = ?t # take k (drop (Suc i) toks)"
    using Suc.prems by (simp add: Cons_nth_drop_Suc [symmetric])
  have r: "rd toks (int i) = Some ?t" using Suc.prems by simp
  have IH: "parse_loop toks (1 + int i) (1 + (int i + int k)) (int a') (int v') args' vars' =
      (let A = values_of PROTOCOL_TOKEN_ARG (take k (drop (Suc i) toks));
           V = values_of PROTOCOL_TOKEN_VAR (take k (drop (Suc i) toks))
       in do { x \<leftarrow> wr_block args' (int a') A; y \<leftarrow> wr_block vars' (int v') V;
               Some (int (a' + length A), int (v' + length V), x, y) })"
    if "a' \<le> length args'" and "v' \<le> length vars'" for a' v' args' vars'
    using Suc.IH [of "Suc i" a' args' v' vars'] Suc.prems that by simp
  consider "tk_type ?t = 1" | "tk_type ?t = 2" | "tk_type ?t \<noteq> 1" "tk_type ?t \<noteq> 2" by auto
  then show ?case
  proof cases
    case 1
    show ?thesis
    proof (cases "a < length args")
      case True
      then show ?thesis using 1 r Suc.prems IH [of "Suc a" "args[a := tk_value ?t]" v vars]
        by (subst parse_loop.simps) (simp add: d values_of_def Let_def wr_block_Cons algebra_simps)
    next
      case False
      then show ?thesis using 1 r Suc.prems
        by (subst parse_loop.simps) (simp add: d values_of_def Let_def wr_block_Cons)
    qed
  next
    case 2
    show ?thesis
    proof (cases "v < length vars")
      case True
      then show ?thesis using 2 r Suc.prems IH [of a args "Suc v" "vars[v := tk_value ?t]"]
        by (subst parse_loop.simps) (simp add: d values_of_def Let_def wr_block_Cons algebra_simps)
    next
      case False
      then show ?thesis using 2 r Suc.prems
        by (subst parse_loop.simps) (simp add: d values_of_def Let_def wr_block_Cons)
    qed
  next
    case 3
    then show ?thesis using r Suc.prems IH [of a args v vars]
      by (subst parse_loop.simps) (simp add: d values_of_def Let_def algebra_simps)
  qed
qed

lemma parse_token_stream_eq:
  assumes "stream_ok ts"
  shows "protocol_parse_token_stream ts args vars =
    (let toks = take (nat (ts_length ts)) (ts_tokens ts);
         A = values_of PROTOCOL_TOKEN_ARG toks; V = values_of PROTOCOL_TOKEN_VAR toks
     in if length A < length args \<and> length V < length vars
        then Some (0, ts_type ts mod 256, A @ None # drop (Suc (length A)) args, V @ None # drop (Suc (length V)) vars)
        else None)"
proof -
  define k where "k = nat (ts_length ts)"
  have k: "ts_length ts = int k" "0 + k \<le> length (ts_tokens ts)"
    using assms by (auto simp: stream_ok_def k_def)
  define A where "A = values_of PROTOCOL_TOKEN_ARG (take k (ts_tokens ts))"
  define V where "V = values_of PROTOCOL_TOKEN_VAR (take k (ts_tokens ts))"
  have upd: "(xs @ drop (length xs) ys)[length xs := None] = xs @ None # drop (Suc (length xs)) ys"
    if "length xs < length ys" for xs ys :: "string option list"
    using that by (simp add: list_update_append Cons_nth_drop_Suc [symmetric])
  have "parse_loop (ts_tokens ts) 0 (ts_length ts) 0 0 args vars =
      do { x \<leftarrow> wr_block args 0 A; y \<leftarrow> wr_block vars 0 V; Some (int (length A), int (length V), x, y) }"
    using parse_loop_eq [OF k(2), of 0 args 0 vars] k(1) by (simp add: Let_def A_def V_def)
  then show ?thesis
    using wr_block_nat [of args 0 A] wr_block_nat [of vars 0 V]
    by (auto simp: protocol_parse_token_stream_def k A_def [symmetric] V_def [symmetric] Let_def upd split: bind_splits)
qed

section \<open>Decoding what was encoded\<close>

definition empty_token :: ProtocolToken where
  "empty_token = \<lparr>tk_type = 0, tk_value = Some []\<rparr>"

lemma dec_many_zeros:
  "2 * k \<le> z \<Longrightarrow> dec_many dec_token k (replicate z NUL @ r) = Some (replicate k empty_token, replicate (z - 2 * k) NUL @ r)"
proof (induction k arbitrary: z)
  case (Suc k)
  obtain w where z: "z = Suc (Suc w)" "2 * k \<le> w" using Suc.prems by (cases z; cases "z - 1") auto
  then show ?case using Suc.IH [of w] by (simp add: empty_token_def)
qed simp

lemma real_tokens_wire: "stream_ok ts \<Longrightarrow> t \<in> set (real_tokens ts) \<Longrightarrow> token_wire t"
  by (auto simp: real_tokens_def stream_ok_def intro!: token_ok_wire dest: in_set_takeD)

lemma real_tokens_count: "stream_ok ts \<Longrightarrow> length (real_tokens ts) \<le> nat (ts_length ts)"
  unfolding real_tokens_def by (rule order_trans [OF length_filter_le]) simp

lemma protocol_read_message:
  assumes ok: "stream_ok ts" and n: "1 \<le> ts_length ts" and room: "ts_length ts \<le> int (length (ts_tokens rx))"
  shows "protocol_read (Some (message ts @ r)) L (Some rx) =
    map_option (\<lambda>(toks, _). (0, Some \<lparr>ts_type = ts_type ts, ts_length = ts_length ts,
        ts_tokens = real_tokens ts @ toks @ drop (nat (ts_length ts)) (ts_tokens rx)\<rparr>))
      (dec_many dec_token (nat (ts_length ts) - length (real_tokens ts)) r)"
proof -
  let ?k = "nat (ts_length ts) - length (real_tokens ts)"
  have "dec_many dec_token (nat (ts_length ts)) (concat (map enc_token (real_tokens ts)) @ r) =
      map_option (\<lambda>(ys, s). (real_tokens ts @ ys, s)) (dec_many dec_token ?k r)"
    using tokens.dec_many_append [of "real_tokens ts" ?k r] real_tokens_wire [OF ok] real_tokens_count [OF ok]
    by simp
  moreover have "to_uint32 (ts_type ts) = ts_type ts" using ok by (simp add: stream_ok_def to_uint32_def)
  ultimately show ?thesis
    using protocol_read_eq [of "int_bytes (int (length (payload ts)) + 8)" "ts_length ts" "ts_type ts"
        "concat (map enc_token (real_tokens ts)) @ r" L rx] ok n room
    by (auto simp: message_def payload_def stream_ok_def option.map_comp comp_def case_prod_beta')
qed

lemma protocol_send_all:
  assumes "stream_ok ts" and "send_sane f" and "send_progress f k"
  shows "protocol_send f k (Some out) L (Some ts) =
    (if length (message ts) + 4 \<le> length out
     then let buf = message ts @ drop (length (message ts)) out; n = length (message ts) + 4
          in Some ((int n, take n buf), Some buf)
     else None)"
proof (cases "length (message ts) + 4 \<le> length out")
  case True
  let ?b = "message ts @ drop (length (message ts)) out"
  have "socket_send f k ?b (int (length (message ts)) + 4) =
      Some (int (length (message ts) + 4), take (length (message ts) + 4) ?b)"
    using socket_send_all [OF assms(2,3), of "length (message ts) + 4" ?b] True by simp
  then show ?thesis using True by (simp add: protocol_send_eq [OF assms(1)] Let_def)
next
  case False
  then have "socket_send f k (message ts @ drop (length (message ts)) out) (int (length (message ts)) + 4) = None"
    if "length (message ts) \<le> length out" using that by (intro socket_send_beyond) simp
  then show ?thesis using False by (simp add: protocol_send_eq [OF assms(1)] Let_def)
qed

section \<open>Properties\<close>

text \<open>C32. Round trip of a message: what \<open>protocol_send\<close> puts on the wire, followed by anything,
  \<open>protocol_read\<close> decodes to the same type, count and tokens, when every token has a type and a
  value, the sender's buffer has room and the receiver's stream has the capacity.\<close>

theorem protocol_roundtrip:
  assumes "stream_ok ts" and "1 \<le> ts_length ts" and "\<forall>t \<in> set (take (nat (ts_length ts)) (ts_tokens ts)). token_ok t"
    and "ts_length ts \<le> int (length (ts_tokens rx))" and "length (message ts) + 4 \<le> length out"
    and "send_sane f" and "send_progress f k"
  shows "\<exists>wire buf. protocol_send f k (Some out) L (Some ts) = Some ((int (length wire), wire), Some buf)
    \<and> protocol_read (Some (wire @ r)) L' (Some rx) =
        Some (0, Some \<lparr>ts_type = ts_type ts, ts_length = ts_length ts,
          ts_tokens = take (nat (ts_length ts)) (ts_tokens ts) @ drop (nat (ts_length ts)) (ts_tokens rx)\<rparr>)"
proof -
  have "real_tokens ts = take (nat (ts_length ts)) (ts_tokens ts)"
    unfolding real_tokens_def using assms(3) by (intro filter_True) (auto simp: token_ok_def tk_real_def)
  moreover have "nat (ts_length ts) \<le> length (ts_tokens ts)" using assms(1) by (auto simp: stream_ok_def)
  ultimately show ?thesis using assms protocol_send_all [OF assms(1,6,7), of out L]
      protocol_read_message [OF assms(1,2,4), of "take 4 (drop (length (message ts)) out) @ r" L']
    by (simp add: Let_def add.commute)
qed

text \<open>A stream with skipped entries (type NONE or a NULL value) that still counts them: on a
  receive buffer that is zero behind the message the decoder finds the written tokens in order,
  then one empty NONE token per skipped entry. The client's streams are of this kind.\<close>

theorem protocol_read_padded:
  assumes "stream_ok ts" and "1 \<le> ts_length ts" and "ts_length ts \<le> int (length (ts_tokens rx))"
    and "2 * (nat (ts_length ts) - length (real_tokens ts)) \<le> z"
  shows "protocol_read (Some (message ts @ replicate z NUL)) L (Some rx) =
    Some (0, Some \<lparr>ts_type = ts_type ts, ts_length = ts_length ts,
      ts_tokens = real_tokens ts @ replicate (nat (ts_length ts) - length (real_tokens ts)) empty_token
        @ drop (nat (ts_length ts)) (ts_tokens rx)\<rparr>)"
  using dec_many_zeros [OF assms(4), of "[]"] by (simp add: protocol_read_message [OF assms(1-3)])

text \<open>C33. The decoder trusts the message. Behind any 4-byte length field, a count below 1 is
  refused with the stream untouched; otherwise decoding stays inside its memory exactly when the
  stream has the capacity and the rest of the buffer holds that many NUL-terminated tokens. A
  peer that sends a larger count makes the server write past its token array.\<close>

theorem protocol_read_bounds:
  assumes "length h = 4" and "in_int32 n"
  shows "(n < 1 \<longrightarrow> protocol_read (Some (h @ int_bytes ty @ int_bytes n @ r)) L (Some rx) = Some (-1, Some rx))
    \<and> (1 \<le> n \<longrightarrow>
        (protocol_read (Some (h @ int_bytes ty @ int_bytes n @ r)) L (Some rx) \<noteq> None
          \<longleftrightarrow> n \<le> int (length (ts_tokens rx)) \<and> dec_many dec_token (nat n) r \<noteq> None))"
  using assms by (auto simp: protocol_read_eq)

text \<open>C34. \<open>protocol_send\<close> counts the length field twice: it needs and sends 4 bytes more than the
  message it built, and reads past the buffer when fewer than 4 spare bytes are left.\<close>

theorem protocol_send_wire:
  assumes "stream_ok ts" and "send_sane f" and "send_progress f k"
  shows "protocol_send f k (Some out) L (Some ts) =
    (if length (message ts) + 4 \<le> length out
     then Some ((int (length (message ts)) + 4, message ts @ take 4 (drop (length (message ts)) out)),
            Some (message ts @ drop (length (message ts)) out))
     else None)"
  by (simp add: protocol_send_all [OF assms] Let_def)

text \<open>C35. \<open>protocol_parse_token_stream\<close> splits the tokens into the argument values and the
  variable values, each in stream order and followed by NULL; it stays inside the two arrays
  exactly when each has a cell for that NULL too.\<close>

theorem protocol_parse_split:
  assumes "stream_ok ts"
  shows "protocol_parse_token_stream ts args vars =
    (let toks = take (nat (ts_length ts)) (ts_tokens ts);
         A = values_of PROTOCOL_TOKEN_ARG toks; V = values_of PROTOCOL_TOKEN_VAR toks
     in if length A < length args \<and> length V < length vars
        then Some (0, ts_type ts mod 256, A @ None # drop (Suc (length A)) args, V @ None # drop (Suc (length V)) vars)
        else None)"
  by (rule parse_token_stream_eq [OF assms])

section \<open>Witnesses\<close>

definition demo_send :: "int \<Rightarrow> byte list \<Rightarrow> int" where
  "demo_send fd c = int (length c)"

lemma demo_send_ok: "send_sane demo_send" "send_progress demo_send k"
  by (auto simp: send_sane_def send_progress_def demo_send_def Suc_le_eq)

definition demo_tokens :: "ProtocolToken list" where
  "demo_tokens = [\<lparr>tk_type = 1, tk_value = Some ''build''\<rparr>, \<lparr>tk_type = 2, tk_value = Some ''A=1''\<rparr>]"

definition demo_stream :: ProtocolTokenStream where
  "demo_stream = \<lparr>ts_type = 2, ts_length = 2, ts_tokens = demo_tokens\<rparr>"

definition demo_padded :: ProtocolTokenStream where
  "demo_padded = \<lparr>ts_type = 2, ts_length = 4, ts_tokens = [zero_token, zero_token] @ demo_tokens\<rparr>"

lemma demo_tokens_ok: "t \<in> set demo_tokens \<Longrightarrow> token_ok t"
  by (auto simp: demo_tokens_def token_ok_def cstring_def)

lemma demo_stream_ok: "stream_ok demo_stream" "stream_ok demo_padded"
  using demo_tokens_ok
  by (auto simp: stream_ok_def demo_stream_def demo_padded_def in_int32_def demo_tokens_def tk_real_def zero_token_def)

lemma demo_real: "real_tokens demo_stream = demo_tokens" "real_tokens demo_padded = demo_tokens"
  by (simp_all add: real_tokens_def demo_stream_def demo_padded_def demo_tokens_def tk_real_def zero_token_def
      numeral_2_eq_2 eval_nat_numeral)

lemma demo_message_length: "length (message demo_stream) = 24" "length (message demo_padded) = 24"
  by (simp_all add: message_length payload_def demo_real) (simp_all add: demo_tokens_def enc_token_def)

theorem protocol_roundtrip_witness:
  "\<exists>wire buf. protocol_send demo_send 4 (Some (replicate 32 NUL)) 32 (Some demo_stream)
       = Some ((int (length wire), wire), Some buf)
     \<and> protocol_read (Some (wire @ ''junk'')) 32 (Some demo_stream) =
        Some (0, Some \<lparr>ts_type = 2, ts_length = 2, ts_tokens = demo_tokens\<rparr>)"
  using protocol_roundtrip [OF demo_stream_ok(1), of demo_stream "replicate 32 NUL" demo_send 4 32 "''junk''" 32]
    demo_tokens_ok demo_send_ok demo_message_length
  by (auto simp: demo_stream_def demo_tokens_def)

theorem protocol_read_padded_witness:
  "protocol_read (Some (message demo_padded @ replicate 4 NUL)) 32 (Some demo_padded) =
    Some (0, Some \<lparr>ts_type = 2, ts_length = 4, ts_tokens = demo_tokens @ [empty_token, empty_token]\<rparr>)"
  using protocol_read_padded [OF demo_stream_ok(2), of demo_padded 4 32] demo_real
  by (simp add: demo_padded_def demo_tokens_def)

theorem protocol_read_bounds_witness:
  "protocol_read (Some (''abcd'' @ int_bytes 2 @ int_bytes 3 @ replicate 6 NUL)) 32 (Some demo_stream) = None"
  using protocol_read_bounds [of "''abcd''" 3 2 "replicate 6 NUL" 32 demo_stream]
  by (simp add: in_int32_def demo_stream_def demo_tokens_def del: not_None_eq)

theorem protocol_send_wire_witness:
  "protocol_send demo_send 4 (Some (replicate 27 NUL)) 27 (Some demo_stream) = None"
  using protocol_send_wire [OF demo_stream_ok(1) demo_send_ok, of 4 "replicate 27 NUL" 27]
  by (simp add: demo_message_length)

theorem protocol_parse_split_witness:
  "protocol_parse_token_stream demo_stream [None, None] [None, None] =
    Some (0, 2, [Some ''build'', None], [Some ''A=1'', None])"
  using protocol_parse_split [OF demo_stream_ok(1), of "[None, None]" "[None, None]"]
  by (simp add: demo_stream_def demo_tokens_def values_of_def)

end
