(* ===== verification/Ini.thy ===== *)
theory Ini
  imports Prelude
begin

text \<open>
  The workspace file parser, \<open>src/src/ini.h\<close>. As in \<open>ini_parse\<close>, the line, the section, the key and
  the value live in one block of 2048 bytes at fixed offsets, so a copy that is too long spills
  into the next field and only an access outside the block is undefined. The handler is a
  parameter that threads its own data and may itself be undefined.

  The specification reads a file as a list of lines (\<open>ini_line\<close>) and gives the handler calls it
  stands for; \<open>ini_parse_document\<close> shows that parsing a printed file makes exactly these calls.
\<close>

section \<open>Data\<close>

datatype IniRetCode = INI_OK | INI_NULL | INI_INVALID

datatype IniParseMode =
  PARSEMODE_STARTLINE | PARSEMODE_SECTION | PARSEMODE_KEY | PARSEMODE_VALUE | PARSEMODE_MULTILINE
| PARSEMODE_HANDLE

definition INI_BUF_SIZE :: nat where "INI_BUF_SIZE = 2048"
definition INI_LINE_BUF_SIZE :: nat where "INI_LINE_BUF_SIZE = 512"

text \<open>The offsets of the fields in the block.\<close>

definition SECTION_OFF :: int where "SECTION_OFF = 512"
definition KEY_OFF :: int where "KEY_OFF = 768"
definition VALUE_OFF :: int where "VALUE_OFF = 1024"

lemmas ini_offsets = SECTION_OFF_def KEY_OFF_def VALUE_OFF_def

record IniParseState =
  ip_buf :: "byte list"
  ip_value_loc :: int
  ip_save_loc :: int
  ip_mode :: IniParseMode

type_synonym 'd ini_handler = "'d \<Rightarrow> string \<Rightarrow> string \<Rightarrow> string \<Rightarrow> 'd option"

section \<open>Copying a field\<close>

definition is_space :: "byte \<Rightarrow> bool" where
  "is_space c \<longleftrightarrow> c = CHR '' '' \<or> c = CHR 0x09"

function trim_start :: "byte list \<Rightarrow> int \<Rightarrow> int option" where
  "trim_start buf start =
     (case rd buf start of
        None \<Rightarrow> None
      | Some c \<Rightarrow> if is_space c then trim_start buf (start + 1) else Some start)"
  by pat_completeness auto
termination
  by (relation "measure (\<lambda>(buf, s). nat (int (length buf) - s))") (auto simp: rd_eq_Some_iff)

function trim_end :: "byte list \<Rightarrow> int \<Rightarrow> int option" where
  "trim_end buf end' =
     (case rd buf end' of
        None \<Rightarrow> None
      | Some c \<Rightarrow> if is_space c \<or> c = NL then trim_end buf (end' - 1) else Some end')"
  by pat_completeness auto
termination
  by (relation "measure (\<lambda>(buf, e). nat (e + 1))") (auto simp: rd_eq_Some_iff)

declare trim_start.simps [simp del] trim_end.simps [simp del]

definition trim_start_end :: "byte list \<Rightarrow> int \<Rightarrow> int \<Rightarrow> (int \<times> int) option" where
  "trim_start_end buf start end' = do { s \<leftarrow> trim_start buf start; e \<leftarrow> trim_end buf end'; Some (s, e) }"

text \<open>The copy loop: \<open>pos\<close> is the index of the destination in the block.\<close>

function copy_chars :: "byte list \<Rightarrow> int \<Rightarrow> int \<Rightarrow> int \<Rightarrow> byte list option" where
  "copy_chars buf i end' pos =
     (if i \<le> end'
      then do { c \<leftarrow> rd buf i; buf' \<leftarrow> wr buf pos c; copy_chars buf' (i + 1) end' (pos + 1) }
      else Some buf)"
  by pat_completeness auto
termination
  by (relation "measure (\<lambda>(buf, i, e, p). nat (e + 1 - i))") auto

declare copy_chars.simps [simp del]

text \<open>\<open>out\<close> is the offset of the destination field; the result is the new end and the block.\<close>

definition copy_to_buf :: "byte list \<Rightarrow> int \<Rightarrow> int \<Rightarrow> int \<Rightarrow> int \<Rightarrow> (int \<times> byte list) option" where
  "copy_to_buf buf start end' out out_loc =
     do {
       (out_loc', buf1) \<leftarrow>
         (if 0 < out_loc then map_option (\<lambda>b. (out_loc + 1, b)) (wr buf (out + out_loc) NL) else Some (out_loc, buf));
       buf2 \<leftarrow> copy_chars buf1 start end' (out + out_loc');
       let loc = out_loc' + (end' - start) + 1;
       buf3 \<leftarrow> wr buf2 (out + loc) NUL;
       Some (loc, buf3)
     }"

definition copy_trimmed_to_buf :: "byte list \<Rightarrow> int \<Rightarrow> int \<Rightarrow> int \<Rightarrow> int \<Rightarrow> (int \<times> byte list) option" where
  "copy_trimmed_to_buf buf start end' out out_loc =
     do { (s, e) \<leftarrow> trim_start_end buf start end'; copy_to_buf buf s e out out_loc }"

lemma copy_chars_length [mem_lens]: "copy_chars buf i e p = Some b \<Longrightarrow> length b = length buf"
proof (induction buf i e p rule: copy_chars.induct)
  case (1 buf i e p)
  from "1.prems" show ?case
    by (subst (asm) copy_chars.simps) (auto split: if_splits bind_splits dest!: "1.IH" dest: wr_length)
qed

lemma copy_to_buf_length [mem_lens]: "copy_to_buf buf s e out loc = Some (r, b) \<Longrightarrow> length b = length buf"
  by (auto simp: copy_to_buf_def Let_def split: if_splits bind_splits dest!: wr_length copy_chars_length)

lemma copy_trimmed_length [mem_lens]:
  "copy_trimmed_to_buf buf s e out loc = Some (r, b) \<Longrightarrow> length b = length buf"
  by (auto simp: copy_trimmed_to_buf_def split: bind_splits dest: copy_to_buf_length)

section \<open>Parsing a line\<close>

definition call_handler :: "'d ini_handler \<Rightarrow> 'd \<Rightarrow> byte list \<Rightarrow> 'd option" where
  "call_handler handler d buf =
     do { s \<leftarrow> cstr_at buf SECTION_OFF; k \<leftarrow> cstr_at buf KEY_OFF; v \<leftarrow> cstr_at buf VALUE_OFF; handler d s k v }"

text \<open>The first character of a line. The result says whether the loop is left, and with what.\<close>

definition line_start ::
  "'d ini_handler \<Rightarrow> byte \<Rightarrow> IniParseState \<Rightarrow> 'd \<Rightarrow> (bool \<times> IniRetCode \<times> IniParseState \<times> 'd) option" where
  "line_start handler c st d =
     (if is_space c
      then (if ip_mode st = PARSEMODE_VALUE
            then Some (False, INI_OK, st\<lparr>ip_mode := PARSEMODE_MULTILINE, ip_save_loc := 1\<rparr>, d)
            else Some (True, INI_INVALID, st, d))
      else do {
        d' \<leftarrow> (if ip_mode st = PARSEMODE_VALUE then call_handler handler d (ip_buf st) else Some d);
        (if c = NL
         then Some (True, INI_OK,
                if ip_mode st \<noteq> PARSEMODE_MULTILINE
                then st\<lparr>ip_mode := PARSEMODE_STARTLINE, ip_save_loc := 0, ip_value_loc := 0\<rparr> else st, d')
         else if c = CHR ''[''
         then Some (False, INI_OK, st\<lparr>ip_mode := PARSEMODE_SECTION, ip_save_loc := 1, ip_value_loc := 0\<rparr>, d')
         else if c = CHR ''#'' then Some (True, INI_OK, st, d')
         else Some (False, INI_OK, st\<lparr>ip_mode := PARSEMODE_KEY, ip_save_loc := 0, ip_value_loc := 0\<rparr>, d'))
      })"

text \<open>The other characters.\<close>

definition line_char :: "byte \<Rightarrow> int \<Rightarrow> IniParseState \<Rightarrow> IniParseState option" where
  "line_char c i st =
     (if ip_mode st = PARSEMODE_SECTION
      then (if c = CHR '']''
            then do {
              (_, b) \<leftarrow> copy_trimmed_to_buf (ip_buf st) (ip_save_loc st) (i - 1) SECTION_OFF 0;
              Some (st\<lparr>ip_buf := b, ip_mode := PARSEMODE_STARTLINE, ip_save_loc := 0\<rparr>) }
            else Some st)
      else if ip_mode st = PARSEMODE_KEY
      then (if c = CHR ''=''
            then do {
              (_, b) \<leftarrow> copy_trimmed_to_buf (ip_buf st) 0 (i - 1) KEY_OFF 0;
              Some (st\<lparr>ip_buf := b, ip_mode := PARSEMODE_VALUE, ip_save_loc := i + 1\<rparr>) }
            else Some st)
      else if ip_mode st = PARSEMODE_MULTILINE
      then Some (if is_space c then st\<lparr>ip_save_loc := i\<rparr> else st\<lparr>ip_mode := PARSEMODE_VALUE\<rparr>)
      else Some st)"

lemma line_start_length:
  "line_start h c st d = Some (b, r, st', d') \<Longrightarrow> length (ip_buf st') = length (ip_buf st)"
  by (auto simp: line_start_def split: if_splits bind_splits)

lemma line_char_length: "line_char c i st = Some st' \<Longrightarrow> length (ip_buf st') = length (ip_buf st)"
  by (auto simp: line_char_def split: if_splits bind_splits dest: copy_trimmed_length)

function line_loop ::
  "'d ini_handler \<Rightarrow> int \<Rightarrow> IniParseState \<Rightarrow> 'd \<Rightarrow> (IniRetCode \<times> int \<times> IniParseState \<times> 'd) option" where
  "line_loop handler i st d =
     (case rd (ip_buf st) i of
        None \<Rightarrow> None
      | Some c \<Rightarrow>
          if c = NUL then Some (INI_OK, i, st, d)
          else if i = 0
          then (case line_start handler c st d of
                  None \<Rightarrow> None
                | Some (stop, status, st', d') \<Rightarrow>
                    if stop then Some (status, i, st', d') else line_loop handler (i + 1) st' d')
          else (case line_char c i st of
                  None \<Rightarrow> None
                | Some st' \<Rightarrow> line_loop handler (i + 1) st' d))"
  by pat_completeness auto
termination
  by (relation "measure (\<lambda>(h, i, st, d). nat (int (length (ip_buf st)) - i))")
    (auto simp: rd_eq_Some_iff nat_less_iff dest!: line_start_length line_char_length
      simp flip: length_greater_0_conv)

declare line_loop.simps [simp del]

definition parse_line ::
  "'d ini_handler \<Rightarrow> 'd \<Rightarrow> IniParseState \<Rightarrow> (IniRetCode \<times> IniParseState \<times> 'd) option" where
  "parse_line handler d st =
     do {
       (status, i, st1, d1) \<leftarrow> line_loop handler 0 st d;
       (if status = INI_OK \<and> ip_mode st1 = PARSEMODE_VALUE
        then do {
          (loc, b) \<leftarrow> copy_trimmed_to_buf (ip_buf st1) (ip_save_loc st1) (i - 1) VALUE_OFF (ip_value_loc st1);
          Some (status, st1\<lparr>ip_buf := b, ip_value_loc := loc\<rparr>, d1) }
        else Some (status, st1, d1))
     }"

section \<open>Parsing a file\<close>

text \<open>\<open>fgets(line, n + 1, fp)\<close>: at most \<open>n\<close> characters, up to and including a newline.\<close>

fun fgets_line :: "nat \<Rightarrow> byte list \<Rightarrow> byte list \<times> byte list" where
  "fgets_line 0 cs = ([], cs)"
| "fgets_line (Suc n) [] = ([], [])"
| "fgets_line (Suc n) (c # cs) =
     (if c = NL then ([c], cs) else let (l, r) = fgets_line n cs in (c # l, r))"

lemma fgets_line_append: "fgets_line n cs = (l, r) \<Longrightarrow> l @ r = cs"
  by (induction n cs arbitrary: l r rule: fgets_line.induct) (auto split: if_splits prod.splits)

lemma fgets_line_shorter:
  assumes "fgets_line n (c # cs) = (l, r)" and "0 < n"
  shows "length r < Suc (length cs)"
proof -
  have "l \<noteq> []" using assms by (cases n) (auto split: if_splits prod.splits)
  moreover have "length l + length r = Suc (length cs)"
    using fgets_line_append [OF assms(1)] by (metis length_Cons length_append)
  ultimately show ?thesis by (cases l) auto
qed

text \<open>The end of \<open>ini_parse\<close>: a value still pending is handed over.\<close>

definition ini_finish :: "'d ini_handler \<Rightarrow> IniRetCode \<Rightarrow> IniParseState \<Rightarrow> 'd \<Rightarrow> (IniRetCode \<times> 'd) option" where
  "ini_finish handler status st d =
     (if status = INI_OK \<and> ip_mode st = PARSEMODE_VALUE
      then do { d' \<leftarrow> call_handler handler d (ip_buf st); Some (status, d') }
      else Some (status, d))"

function ini_loop :: "'d ini_handler \<Rightarrow> byte list \<Rightarrow> IniParseState \<Rightarrow> 'd \<Rightarrow> (IniRetCode \<times> 'd) option" where
  "ini_loop handler [] st d = ini_finish handler INI_OK st d"
| "ini_loop handler (c # cs) st d =
     (case fgets_line (INI_LINE_BUF_SIZE - 1) (c # cs) of
        (l, r) \<Rightarrow>
          (case wr_block (ip_buf st) 0 (l @ [NUL]) of
             None \<Rightarrow> None
           | Some b \<Rightarrow>
               (case parse_line handler d (st\<lparr>ip_buf := b\<rparr>) of
                  None \<Rightarrow> None
                | Some (status, st', d') \<Rightarrow>
                    if status \<noteq> INI_OK then ini_finish handler status st' d'
                    else ini_loop handler r st' d')))"
  by pat_completeness auto
termination
  by (relation "measure (\<lambda>(h, cs, st, d). length cs)") (auto simp: INI_LINE_BUF_SIZE_def dest: fgets_line_shorter [OF sym])

definition ini_init :: IniParseState where
  "ini_init = \<lparr>ip_buf = replicate INI_BUF_SIZE NUL, ip_value_loc = 0, ip_save_loc = 0, ip_mode = PARSEMODE_STARTLINE\<rparr>"

text \<open>A file is its contents, or NULL when it could not be opened; likewise the handler.\<close>

definition ini_parse :: "byte list option \<Rightarrow> 'd ini_handler option \<Rightarrow> 'd \<Rightarrow> (IniRetCode \<times> 'd) option" where
  "ini_parse fp handler d =
     (case (fp, handler) of
        (Some content, Some h) \<Rightarrow> ini_loop h content ini_init d
      | _ \<Rightarrow> Some (INI_NULL, d))"

section \<open>Copies as block writes\<close>

lemma trim_start_skip:
  assumes "\<forall>c \<in> set ws. is_space c" and "\<not> is_space x"
  shows "trim_start (p @ ws @ x # r) (int (length p)) = Some (int (length p + length ws))"
  using assms(1)
proof (induction ws arbitrary: p)
  case Nil
  then show ?case using assms(2) by (subst trim_start.simps) simp
next
  case (Cons w ws)
  have "trim_start (p @ (w # ws) @ x # r) (int (length p)) =
      trim_start ((p @ [w]) @ ws @ x # r) (int (length (p @ [w])))"
    using Cons.prems by (subst trim_start.simps) (simp add: add.commute)
  then show ?case using Cons.IH [of "p @ [w]"] Cons.prems by simp
qed

lemma trim_end_skip:
  assumes "\<forall>c \<in> set ws. is_space c \<or> c = NL" and "\<not> is_space x" and "x \<noteq> NL"
  shows "trim_end (p @ x # ws @ r) (int (length p + length ws)) = Some (int (length p))"
  using assms(1)
proof (induction ws arbitrary: r rule: rev_induct)
  case Nil
  then show ?case using assms(2,3) by (subst trim_end.simps) simp
next
  case (snoc w ws)
  have "(p @ x # (ws @ [w]) @ r) ! (length p + Suc (length ws)) = w"
    by (simp add: nth_append)
  then have "trim_end (p @ x # (ws @ [w]) @ r) (int (length p + length (ws @ [w]))) =
      trim_end (p @ x # ws @ (w # r)) (int (length p + length ws))"
    using snoc.prems by (subst trim_end.simps) (simp add: rd_def nat_add_distrib)
  then show ?case using snoc.IH [of "w # r"] snoc.prems by simp
qed

lemma copy_chars_eq:
  assumes "i + n \<le> p" and "p \<le> length buf"
  shows "copy_chars buf (int i) (int i + int n - 1) (int p) = wr_block buf (int p) (take n (drop i buf))"
  using assms
proof (induction n arbitrary: i p buf)
  case 0
  then show ?case by (subst copy_chars.simps) (simp add: wr_block_nat)
next
  case (Suc n)
  have i: "i < length buf" using Suc.prems by simp
  have d: "take (Suc n) (drop i buf) = buf ! i # take n (drop (Suc i) buf)"
    using i by (simp add: Cons_nth_drop_Suc [symmetric])
  show ?case
  proof (cases "p < length buf")
    case False
    then show ?thesis using i by (subst copy_chars.simps) (simp add: d wr_block_Cons)
  next
    case True
    let ?b = "buf[p := buf ! i]"
    have same: "take n (drop (Suc i) ?b) = take n (drop (Suc i) buf)"
      using Suc.prems by (simp add: drop_update_swap)
    have "copy_chars buf (int i) (int i + int (Suc n) - 1) (int p) =
        copy_chars ?b (int (Suc i)) (int (Suc i) + int n - 1) (int (Suc p))"
      using True i by (subst copy_chars.simps) (simp add: algebra_simps)
    also have "\<dots> = wr_block ?b (int (Suc p)) (take n (drop (Suc i) buf))"
      using Suc.prems True by (subst Suc.IH) (simp_all add: same)
    finally show ?thesis using True by (simp only: d wr_block_Cons) simp
  qed
qed

text \<open>The separator a continuation line puts before its text.\<close>

definition sep :: "nat \<Rightarrow> byte list" where
  "sep loc = (if 0 < loc then [NL] else [])"

lemma copy_to_buf_eq:
  assumes "i + n \<le> out + loc" and "out + loc + length (sep loc) \<le> length buf"
  shows "copy_to_buf buf (int i) (int i + int n - 1) (int out) (int loc) =
    map_option (\<lambda>b. (int (loc + length (sep loc) + n), b))
      (wr_block buf (int (out + loc)) (sep loc @ take n (drop i buf) @ [NUL]))"
proof -
  let ?s = "length (sep loc)" and ?t = "take n (drop i buf)"
  have n: "length ?t = n" using assms by simp
  have first: "(if 0 < int loc then map_option (\<lambda>b. (int loc + 1, b)) (wr buf (int out + int loc) NL) else Some (int loc, buf)) =
      map_option (\<lambda>b. (int (loc + ?s), b)) (wr_block buf (int (out + loc)) (sep loc))"
  proof (cases "0 < loc")
    case True
    then show ?thesis using wr_block_one [of buf "out + loc" NL] by (simp add: sep_def add.commute)
  next
    case False
    then show ?thesis using assms by (simp add: sep_def wr_block_nat)
  qed
  have copy: "copy_chars b (int i) (int i + int n - 1) (int (out + loc + ?s)) = wr_block b (int (out + loc + ?s)) ?t"
    if "wr_block buf (int (out + loc)) (sep loc) = Some b" for b
  proof -
    have "take n (drop i b) = ?t"
      using rd_wr_block_other [OF that, of i n] assms wr_block_length [OF that] by (simp add: rd_block_nat split: if_splits)
    then show ?thesis using assms wr_block_length [OF that] by (subst copy_chars_eq) auto
  qed
  have parts: "wr_block buf (int (out + loc)) (sep loc @ ?t @ [NUL]) =
      do { b \<leftarrow> wr_block buf (int (out + loc)) (sep loc); b2 \<leftarrow> wr_block b (int (out + loc + ?s)) ?t;
           wr b2 (int (out + loc + ?s + n)) NUL }"
  proof -
    have "wr_block b (int (out + loc + ?s)) (?t @ [NUL]) =
        Option.bind (wr_block b (int (out + loc + ?s)) ?t) (\<lambda>b2. wr b2 (int (out + loc + ?s + n)) NUL)"
      if "wr_block buf (int (out + loc)) (sep loc) = Some b" for b
      using wr_block_append [of "out + loc + ?s" b ?t "[NUL]"] assms wr_block_length [OF that] n
      by (simp add: wr_block_one del: of_nat_add)
    then show ?thesis using wr_block_append [of "out + loc" buf "sep loc" "?t @ [NUL]"] assms
      by (auto intro!: bind_option_cong simp del: of_nat_add)
  qed
  show ?thesis
  proof (cases "wr_block buf (int (out + loc)) (sep loc)")
    case (Some b)
    have pos: "int out + int (loc + ?s) = int (out + loc + ?s)"
      "int out + int (loc + ?s + n) = int (out + loc + ?s + n)"
      "int (loc + ?s) + (int i + int n - 1 - int i) + 1 = int (loc + ?s + n)" by simp_all
    show ?thesis unfolding copy_to_buf_def first parts
      by (simp only: Some option.map bind.bind_lunit prod.case pos copy [OF Some] Let_def
          map_conv_bind_option comp_def bind_assoc)
  qed (use assms in \<open>simp add: wr_block_nat del: of_nat_add\<close>)
qed

text \<open>The whole of \<open>copy_trimmed_to_buf\<close> on a text between white space.\<close>

lemma copy_trimmed_eq:
  assumes buf: "buf = p @ ws1 @ t @ ws2 @ r" and t: "t \<noteq> []" "\<not> is_space (hd t)" "\<not> is_space (last t)" "last t \<noteq> NL"
    and ws: "\<forall>c \<in> set ws1. is_space c" "\<forall>c \<in> set ws2. is_space c \<or> c = NL"
    and room: "length p + length ws1 + length t \<le> out + loc" "out + loc + length (sep loc) \<le> length buf"
  shows "copy_trimmed_to_buf buf (int (length p)) (int (length p + length ws1 + length t + length ws2) - 1) (int out) (int loc) =
    map_option (\<lambda>b. (int (loc + length (sep loc) + length t), b))
      (wr_block buf (int (out + loc)) (sep loc @ t @ [NUL]))"
proof -
  let ?i = "length p + length ws1"
  have s: "trim_start buf (int (length p)) = Some (int ?i)"
    using trim_start_skip [of ws1 "hd t" p "tl t @ ws2 @ r"] t ws by (cases t) (auto simp: buf)
  have "buf = (p @ ws1 @ butlast t) @ last t # ws2 @ r"
    using append_butlast_last_id [OF t(1)] buf by (metis append.assoc append_Cons append_Nil)
  moreover have "int (?i + length t + length ws2) - 1 = int (length (p @ ws1 @ butlast t) + length ws2)"
    using t(1) by (cases t) auto
  ultimately have e: "trim_end buf (int (?i + length t + length ws2) - 1) = Some (int (length (p @ ws1 @ butlast t)))"
    using trim_end_skip [of ws2 "last t" "p @ ws1 @ butlast t" r] t ws by (simp only: simp_thms)
  have e': "int (length (p @ ws1 @ butlast t)) = int ?i + int (length t) - 1" using t(1) by (cases t) auto
  have "take (length t) (drop ?i buf) = t" by (simp add: buf)
  then show ?thesis using copy_to_buf_eq [of ?i "length t" out loc buf] room
    unfolding copy_trimmed_to_buf_def trim_start_end_def s e e' by simp
qed

section \<open>Fields of the block\<close>

definition field :: "byte list \<Rightarrow> nat \<Rightarrow> string \<Rightarrow> bool" where
  "field buf off s \<longleftrightarrow> rd_block buf (int off) (length s + 1) = Some (s @ [NUL])"

lemma field_cstr: "field buf off s \<Longrightarrow> cstring s \<Longrightarrow> cstr_at buf (int off) = Some s"
proof -
  assume f: "field buf off s" and s: "cstring s"
  then have eq: "take (Suc (length s)) (drop off buf) = s @ [NUL]"
    by (simp add: field_def rd_block_nat split: if_splits)
  have "drop off buf = take (Suc (length s)) (drop off buf) @ drop (Suc (length s)) (drop off buf)"
    by (rule append_take_drop_id [symmetric])
  then have "drop off buf = s @ NUL # drop (Suc (length s)) (drop off buf)"
    unfolding eq by simp
  then show ?thesis using takeWhile_NUL [OF s] unfolding cstr_at_def
    by (metis in_set_conv_decomp nat_int of_nat_0_le_iff)
qed

lemma field_frame:
  assumes "wr_block buf (int n) ys = Some b" and "off + length s + 1 \<le> n \<or> n + length ys \<le> off"
  shows "field b off s = field buf off s"
  using rd_wr_block_other [OF assms(1), of off "length s + 1"] assms(2) by (auto simp: field_def)

lemma field_set: "wr_block buf (int off) (s @ [NUL]) = Some b \<Longrightarrow> field b off s"
  using rd_wr_block_same [of buf "int off" "s @ [NUL]" b] by (simp add: field_def)

lemma wr_block_prefix:
  assumes "wr_block (p @ r) (int n) ys = Some b" and "length p \<le> n"
  obtains r' where "b = p @ r'"
  using assms by (auto simp: wr_block_nat take_append split: if_splits)

section \<open>The loop over a line\<close>

definition inert :: "IniParseMode \<Rightarrow> byte \<Rightarrow> bool" where
  "inert m c \<longleftrightarrow> c \<noteq> NUL \<and> (m = PARSEMODE_STARTLINE \<or> m = PARSEMODE_VALUE
     \<or> m = PARSEMODE_SECTION \<and> c \<noteq> CHR '']'' \<or> m = PARSEMODE_KEY \<and> c \<noteq> CHR ''='')"

lemma line_char_inert: "inert (ip_mode st) c \<Longrightarrow> line_char c i st = Some st"
  by (cases "ip_mode st") (simp_all add: line_char_def inert_def)

lemma line_loop_NUL: "ip_buf st = p @ NUL # r \<Longrightarrow> line_loop h (int (length p)) st d = Some (INI_OK, int (length p), st, d)"
  by (subst line_loop.simps) simp

lemma line_loop_char:
  assumes "ip_buf st = p @ c # r" and "p \<noteq> []" and "c \<noteq> NUL" and "line_char c (int (length p)) st = Some st'"
  shows "line_loop h (int (length p)) st d = line_loop h (int (length p + 1)) st' d"
  using assms by (subst line_loop.simps) (simp add: add.commute)

lemma line_loop_skip:
  assumes "ip_buf st = p @ m @ r" and "p \<noteq> []" and "\<forall>c \<in> set m. inert (ip_mode st) c"
  shows "line_loop h (int (length p)) st d = line_loop h (int (length p + length m)) st d"
  using assms
proof (induction m arbitrary: p)
  case (Cons c m)
  have "line_char c (int (length p)) st = Some st" using Cons.prems(3) by (intro line_char_inert) simp
  then have "line_loop h (int (length p)) st d = line_loop h (int (length p + 1)) st d"
    using Cons.prems line_loop_char [of st p c "m @ r" st h d] by (simp add: inert_def)
  then show ?case using Cons.IH [of "p @ [c]"] Cons.prems by simp
qed simp

text \<open>A run of inert characters up to the end of the line.\<close>

lemma line_loop_rest:
  assumes "ip_buf st = p @ m @ NUL # r" and "p \<noteq> []" and "\<forall>c \<in> set m. inert (ip_mode st) c"
  shows "line_loop h (int (length p)) st d = Some (INI_OK, int (length p + length m), st, d)"
proof -
  have "line_loop h (int (length (p @ m))) st d = Some (INI_OK, int (length (p @ m)), st, d)"
    using assms(1) by (intro line_loop_NUL) simp
  then show ?thesis using line_loop_skip [OF assms, of h d] by (simp only: length_append)
qed

lemma line_loop_indent:
  assumes "ip_buf st = p @ ws @ r" and "p \<noteq> []" and "\<forall>c \<in> set ws. is_space c" and "ip_mode st = PARSEMODE_MULTILINE"
  shows "line_loop h (int (length p)) st d =
    line_loop h (int (length p + length ws))
      (if ws = [] then st else st\<lparr>ip_save_loc := int (length p + length ws) - 1\<rparr>) d"
  using assms
proof (induction ws arbitrary: p st)
  case (Cons c ws)
  let ?st = "st\<lparr>ip_save_loc := int (length p)\<rparr>"
  have c: "is_space c" "c \<noteq> NUL" using Cons.prems by (auto simp: is_space_def)
  then have "line_char c (int (length p)) st = Some ?st"
    using Cons.prems(4) by (simp add: line_char_def)
  then have "line_loop h (int (length p)) st d = line_loop h (int (length p + 1)) ?st d"
    using Cons.prems line_loop_char [of st p c "ws @ r" ?st h d] c by simp
  moreover have "line_loop h (int (length (p @ [c]))) ?st d =
      line_loop h (int (length (p @ [c]) + length ws))
        (if ws = [] then ?st else ?st\<lparr>ip_save_loc := int (length (p @ [c]) + length ws) - 1\<rparr>) d"
    using Cons.prems by (intro Cons.IH) auto
  ultimately show ?case by (cases ws) auto
qed simp

section \<open>Specification: lines and the calls they stand for\<close>

text \<open>White space is kept as it stands in the file.\<close>

datatype ini_line =
  Blank
| Comment string
| Section string string string string
| Entry string string string string string
| More string string string

fun body :: "ini_line \<Rightarrow> string" where
  "body Blank = []"
| "body (Comment c) = CHR ''#'' # c"
| "body (Section w1 s w2 j) = [CHR ''[''] @ w1 @ s @ w2 @ [CHR '']''] @ j"
| "body (Entry k w1 w2 v w3) = k @ w1 @ [CHR ''=''] @ w2 @ v @ w3"
| "body (More w v w3) = w @ v @ w3"

definition render :: "ini_line \<Rightarrow> string" where
  "render l = body l @ [NL]"

definition spaces :: "string \<Rightarrow> bool" where
  "spaces w \<longleftrightarrow> (\<forall>c \<in> set w. is_space c)"

definition trimmed :: "string \<Rightarrow> bool" where
  "trimmed t \<longleftrightarrow> t \<noteq> [] \<and> \<not> is_space (hd t) \<and> \<not> is_space (last t)"

fun shape_ok :: "ini_line \<Rightarrow> bool" where
  "shape_ok Blank \<longleftrightarrow> True"
| "shape_ok (Comment c) \<longleftrightarrow> True"
| "shape_ok (Section w1 s w2 j) \<longleftrightarrow> spaces w1 \<and> spaces w2 \<and> trimmed s \<and> CHR '']'' \<notin> set s \<and> length s < 256"
| "shape_ok (Entry k w1 w2 v w3) \<longleftrightarrow> spaces w1 \<and> spaces w2 \<and> spaces w3 \<and> trimmed k \<and> CHR ''='' \<notin> set k
     \<and> hd k \<noteq> CHR ''['' \<and> hd k \<noteq> CHR ''#'' \<and> length k < 256
     \<and> (if v = [] then w2 = [] \<and> w3 = [] else trimmed v)"
| "shape_ok (More w v w3) \<longleftrightarrow> w \<noteq> [] \<and> spaces w \<and> spaces w3 \<and> trimmed v"

definition line_ok :: "ini_line \<Rightarrow> bool" where
  "line_ok l \<longleftrightarrow> shape_ok l \<and> NUL \<notin> set (body l) \<and> NL \<notin> set (body l) \<and> length (body l) < 511"

type_synonym ini_event = "string \<times> string \<times> string"
type_synonym ini_spec = "string \<times> (string \<times> string) option"

definition flush :: "ini_spec \<Rightarrow> ini_event list" where
  "flush s = (case s of (sec, None) \<Rightarrow> [] | (sec, Some (k, v)) \<Rightarrow> [(sec, k, v)])"

definition join :: "string \<Rightarrow> string \<Rightarrow> string" where
  "join a b = (if a = [] then b else a @ [NL] @ b)"

fun line_calls :: "ini_line \<Rightarrow> ini_spec \<Rightarrow> ini_event list" where
  "line_calls (Comment c) s = []"
| "line_calls (More w v w3) s = []"
| "line_calls _ s = flush s"

fun line_next :: "ini_line \<Rightarrow> ini_spec \<Rightarrow> ini_spec" where
  "line_next Blank s = (fst s, None)"
| "line_next (Comment c) s = s"
| "line_next (Section w1 n w2 j) s = (n, None)"
| "line_next (Entry k w1 w2 v w3) s = (fst s, Some (k, v))"
| "line_next (More w v w3) s = (fst s, map_option (\<lambda>(k, old). (k, join old v)) (snd s))"

text \<open>Where a line may stand: a comment not right after a value, a continuation only there.\<close>

fun line_fits :: "ini_line \<Rightarrow> ini_spec \<Rightarrow> bool" where
  "line_fits (Comment c) s \<longleftrightarrow> snd s = None"
| "line_fits (More w v w3) s \<longleftrightarrow> (case snd s of None \<Rightarrow> False | Some (k, old) \<Rightarrow> length (join old v) < 1024)"
| "line_fits _ s \<longleftrightarrow> True"

primrec doc_ok :: "ini_line list \<Rightarrow> ini_spec \<Rightarrow> bool" where
  "doc_ok [] s \<longleftrightarrow> True"
| "doc_ok (l # ls) s \<longleftrightarrow> line_ok l \<and> line_fits l s \<and> doc_ok ls (line_next l s)"

primrec doc_calls :: "ini_line list \<Rightarrow> ini_spec \<Rightarrow> ini_event list" where
  "doc_calls [] s = flush s"
| "doc_calls (l # ls) s = line_calls l s @ doc_calls ls (line_next l s)"

fun run_calls :: "'d ini_handler \<Rightarrow> 'd \<Rightarrow> ini_event list \<Rightarrow> 'd option" where
  "run_calls h d [] = Some d"
| "run_calls h d ((s, k, v) # es) = Option.bind (h d s k v) (\<lambda>d'. run_calls h d' es)"

lemma run_calls_append: "run_calls h d (es @ es') = Option.bind (run_calls h d es) (\<lambda>d'. run_calls h d' es')"
  by (induction h d es rule: run_calls.induct) (auto simp: bind_assoc intro!: bind_option_cong)

section \<open>Simulation of the specification\<close>

definition sim :: "IniParseState \<Rightarrow> ini_spec \<Rightarrow> bool" where
  "sim st s \<longleftrightarrow> length (ip_buf st) = 2048 \<and> field (ip_buf st) 512 (fst s) \<and> cstring (fst s) \<and> length (fst s) < 256
     \<and> (case snd s of
          None \<Rightarrow> ip_mode st = PARSEMODE_STARTLINE
        | Some (k, v) \<Rightarrow> ip_mode st = PARSEMODE_VALUE \<and> field (ip_buf st) 768 k \<and> field (ip_buf st) 1024 v
            \<and> cstring k \<and> cstring v \<and> length k < 256 \<and> length v < 1024 \<and> ip_value_loc st = int (length v))"

lemma sim_flush:
  assumes "sim st s"
  shows "(if ip_mode st = PARSEMODE_VALUE then call_handler h d (ip_buf st) else Some d) = run_calls h d (flush s)"
proof (cases s)
  case (Pair sec pending)
  show ?thesis
  proof (cases pending)
    case None
    then show ?thesis using assms Pair by (simp add: sim_def flush_def)
  next
    case (Some kv)
    obtain k v where kv: "kv = (k, v)" by (cases kv)
    have f: "cstr_at (ip_buf st) 512 = Some sec" "cstr_at (ip_buf st) 768 = Some k" "cstr_at (ip_buf st) 1024 = Some v"
      using assms Pair Some kv field_cstr [of "ip_buf st" 512 sec] field_cstr [of "ip_buf st" 768 k]
        field_cstr [of "ip_buf st" 1024 v] by (simp_all add: sim_def)
    then show ?thesis using assms Pair Some kv by (simp add: sim_def flush_def call_handler_def ini_offsets)
  qed
qed

lemma line_loop_first:
  assumes "ip_buf st = c # r" and "c \<noteq> NUL"
  shows "line_loop h 0 st d = Option.bind (line_start h c st d)
    (\<lambda>(stop, status, st', d'). if stop then Some (status, 0, st', d') else line_loop h 1 st' d')"
  using assms by (subst line_loop.simps) (simp add: rd_def split: option.split)

lemma line_start_eq:
  assumes "sim st s" and "\<not> is_space c"
  shows "line_start h c st d = map_option (\<lambda>d'.
    if c = NL then (True, INI_OK, st\<lparr>ip_mode := PARSEMODE_STARTLINE, ip_save_loc := 0, ip_value_loc := 0\<rparr>, d')
    else if c = CHR ''['' then (False, INI_OK, st\<lparr>ip_mode := PARSEMODE_SECTION, ip_save_loc := 1, ip_value_loc := 0\<rparr>, d')
    else if c = CHR ''#'' then (True, INI_OK, st, d')
    else (False, INI_OK, st\<lparr>ip_mode := PARSEMODE_KEY, ip_save_loc := 0, ip_value_loc := 0\<rparr>, d')) (run_calls h d (flush s))"
proof -
  have "ip_mode st \<noteq> PARSEMODE_MULTILINE" using assms(1) by (auto simp: sim_def split: option.splits)
  then show ?thesis using assms(2)
    unfolding line_start_def sim_flush [OF assms(1), symmetric]
    by (cases "if ip_mode st = PARSEMODE_VALUE then call_handler h d (ip_buf st) else Some d") simp_all
qed

text \<open>How the parser ends once the calls at the start of the line are made.\<close>

definition line_tail :: "int \<times> IniParseState \<Rightarrow> IniParseState option" where
  "line_tail x = (case x of (i, st) \<Rightarrow>
     if ip_mode st = PARSEMODE_VALUE
     then map_option (\<lambda>(loc, b). st\<lparr>ip_buf := b, ip_value_loc := loc\<rparr>)
            (copy_trimmed_to_buf (ip_buf st) (ip_save_loc st) (i - 1) VALUE_OFF (ip_value_loc st))
     else Some st)"

lemma parse_line_eq:
  assumes "line_loop h 0 st d = map_option (\<lambda>d'. (INI_OK, i, st1, d')) r" and "line_tail (i, st1) = Some st2"
  shows "parse_line h d st = map_option (\<lambda>d'. (INI_OK, st2, d')) r"
  using assms
  by (cases r) (auto simp: parse_line_def line_tail_def split: if_splits)

lemma NL_facts [simp]: "\<not> is_space NL" "NL \<noteq> NUL" "NL \<noteq> CHR ''#''" "NL \<noteq> CHR ''[''" "NL \<noteq> CHR '']''" "NL \<noteq> CHR ''=''"
  by (simp_all add: is_space_def NL_def)

lemma spaces_facts:
  assumes "spaces w" and "c \<in> set w"
  shows "c \<noteq> NUL \<and> c \<noteq> NL \<and> c \<noteq> CHR '']'' \<and> c \<noteq> CHR ''=''"
proof -
  have "c = CHR '' '' \<or> c = CHR 0x09" using assms by (simp add: spaces_def is_space_def)
  then show ?thesis by (elim disjE) (simp_all add: NL_def)
qed

lemma step_blank:
  assumes "sim st s" and "ip_buf st = render Blank @ NUL # r"
  shows "\<exists>st'. sim st' (line_next Blank s) \<and> parse_line h d st = map_option (\<lambda>d'. (INI_OK, st', d')) (run_calls h d (flush s))"
proof (intro exI conjI)
  let ?st = "st\<lparr>ip_mode := PARSEMODE_STARTLINE, ip_save_loc := 0, ip_value_loc := 0\<rparr>"
  show "sim ?st (line_next Blank s)" using assms(1) by (simp add: sim_def)
  have "line_loop h 0 st d = map_option (\<lambda>d'. (INI_OK, 0, ?st, d')) (run_calls h d (flush s))"
    using line_loop_first [of st NL "NUL # r" h d] assms line_start_eq [OF assms(1), of NL h d]
    by (cases "run_calls h d (flush s)") (simp_all add: render_def)
  then show "parse_line h d st = map_option (\<lambda>d'. (INI_OK, ?st, d')) (run_calls h d (flush s))"
    by (rule parse_line_eq) (simp add: line_tail_def)
qed

lemma step_comment:
  assumes "sim st s" and "ip_buf st = render (Comment c) @ NUL # r" and "snd s = None"
  shows "parse_line h d st = Some (INI_OK, st, d)"
proof -
  have "flush s = []" using assms(3) by (cases s) (simp add: flush_def)
  then have "line_loop h 0 st d = map_option (\<lambda>d'. (INI_OK, 0, st, d')) (Some d)"
    using line_loop_first [of st "CHR ''#''" "c @ NL # NUL # r" h d] assms line_start_eq [OF assms(1), of "CHR ''#''" h d]
    by (simp add: render_def is_space_def NL_def)
  then have "parse_line h d st = map_option (\<lambda>d'. (INI_OK, st, d')) (Some d)"
    using assms(1,3) by (intro parse_line_eq) (auto simp: line_tail_def sim_def)
  then show ?thesis by simp
qed

lemma write_field:
  assumes "length buf = 2048" and "off + length t < 2048"
  obtains b where "wr_block buf (int off) (t @ [NUL]) = Some b" and "length b = 2048" and "field b off t"
proof -
  obtain b where b: "wr_block buf (int off) (t @ [NUL]) = Some b" using assms by (simp add: wr_block_nat)
  show ?thesis using that [OF b] wr_block_length [OF b] field_set [OF b] assms(1) by simp
qed

lemma trimmed_last: "trimmed t \<Longrightarrow> NL \<notin> set t \<Longrightarrow> last t \<noteq> NL"
  by (metis last_in_set trimmed_def)

lemma step_section:
  assumes sim: "sim st s" and buf: "ip_buf st = render (Section w1 n w2 j) @ NUL # r" and ok: "line_ok (Section w1 n w2 j)"
  shows "\<exists>st'. sim st' (line_next (Section w1 n w2 j) s)
    \<and> parse_line h d st = map_option (\<lambda>d'. (INI_OK, st', d')) (run_calls h d (flush s))"
proof -
  let ?m = "w1 @ n @ w2" and ?st1 = "st\<lparr>ip_mode := PARSEMODE_SECTION, ip_save_loc := 1, ip_value_loc := 0\<rparr>"
  let ?line = "CHR ''['' # ?m @ CHR '']'' # j @ [NL, NUL]"
  have w: "spaces w1" "spaces w2" "trimmed n" "CHR '']'' \<notin> set n" "length n < 256" "NUL \<notin> set n" "NL \<notin> set n"
    "NUL \<notin> set j" "length ?line \<le> 512"
    using ok by (auto simp: line_ok_def)
  have b0: "ip_buf st = ?line @ r" using buf by (simp add: render_def)
  have len: "length (ip_buf st) = 2048" using sim by (simp add: sim_def)
  obtain b where b: "wr_block (ip_buf st) 512 (n @ [NUL]) = Some b" "length b = 2048" "field b 512 n"
    using write_field [OF len, of 512 n] w by auto
  obtain r' where b': "b = ?line @ r'"
    using wr_block_prefix [of ?line r 512 "n @ [NUL]" b] b w b0 by auto
  let ?st2 = "?st1\<lparr>ip_buf := b, ip_mode := PARSEMODE_STARTLINE, ip_save_loc := 0\<rparr>"
  have inert: "\<forall>c \<in> set ?m. inert PARSEMODE_SECTION c"
    using w spaces_facts by (auto simp: inert_def)
  have "copy_trimmed_to_buf (ip_buf st) 1 (int (length ?m)) 512 0 = Some (int (length n), b)"
    using copy_trimmed_eq [of "ip_buf st" "[CHR ''['']" w1 n w2 "CHR '']'' # j @ [NL, NUL] @ r" 512 0] b w b0 len trimmed_last [OF w(3,7)]
    by (auto simp: trimmed_def spaces_def sep_def add.assoc)
  then have "line_char CHR '']'' (int (length (CHR ''['' # ?m))) ?st1 = Some ?st2"
    by (simp add: line_char_def SECTION_OFF_def)
  then have "line_loop h 1 ?st1 d' = line_loop h (int (length (CHR ''['' # ?m @ [CHR '']'']))) ?st2 d'" for d'
    using line_loop_skip [of ?st1 "[CHR ''['']" ?m "CHR '']'' # j @ [NL, NUL] @ r" h d'] inert b0
      line_loop_char [of ?st1 "CHR ''['' # ?m" "CHR '']''" "j @ [NL, NUL] @ r" ?st2 h d'] by simp
  moreover have "line_loop h (int (length (CHR ''['' # ?m @ [CHR '']'']))) ?st2 d' =
      Some (INI_OK, int (length ?line) - 1, ?st2, d')" for d'
    using line_loop_rest [of ?st2 "CHR ''['' # ?m @ [CHR '']'']" "j @ [NL]" r' h d'] w b' by (auto simp: inert_def)
  ultimately have "line_loop h 0 st d = map_option (\<lambda>d'. (INI_OK, int (length ?line) - 1, ?st2, d')) (run_calls h d (flush s))"
    using line_loop_first [of st "CHR ''[''" "?m @ CHR '']'' # j @ [NL, NUL] @ r" h d] b0
      line_start_eq [OF sim, of "CHR ''[''" h d]
    by (cases "run_calls h d (flush s)") (simp_all add: is_space_def NL_def)
  then have "parse_line h d st = map_option (\<lambda>d'. (INI_OK, ?st2, d')) (run_calls h d (flush s))"
    by (rule parse_line_eq) (simp add: line_tail_def)
  moreover have "sim ?st2 (line_next (Section w1 n w2 j) s)"
    using b w by (auto simp: sim_def cstring_def)
  ultimately show ?thesis by blast
qed

text \<open>The value of an entry, possibly empty.\<close>

lemma copy_entry_value:
  assumes len: "length b = 2048" and b: "b = p @ w2 @ v @ w3 @ [NL, NUL] @ r" and p: "p \<noteq> []" "last p = CHR ''=''"
    and v: "if v = [] then w2 = [] \<and> w3 = [] else trimmed v" "spaces w2" "spaces w3" "NL \<notin> set v"
    and le: "length p + length w2 + length v < 1024" "wr_block b 1024 (v @ [NUL]) = Some b2"
  shows "copy_trimmed_to_buf b (int (length p)) (int (length (p @ w2 @ v @ w3 @ [NL])) - 1) 1024 0 = Some (int (length v), b2)"
proof (cases "v = []")
  case False
  then have "last v \<noteq> NL" using v(4) last_in_set by metis
  then show ?thesis
    using copy_trimmed_eq [of b p w2 v "w3 @ [NL]" "NUL # r" 1024 0] False assms
    by (auto simp: trimmed_def spaces_def sep_def add.assoc)
next
  case True
  define q where "q = butlast p"
  have pq: "p = q @ [CHR ''='']" using append_butlast_last_id [OF p(1)] p(2) by (simp add: q_def)
  have eq: "b = q @ CHR ''='' # [NL] @ NUL # r" using True v b pq by simp
  have lp: "int (length p) = int (length q + length [NL])" using pq by simp
  have s: "trim_start b (int (length p)) = Some (int (length p))"
    using trim_start_skip [of "[]" NL p "NUL # r"] True v b by simp
  have "trim_end b (int (length q + length [NL])) = Some (int (length q))"
    unfolding eq by (rule trim_end_skip) (simp_all add: is_space_def NL_def)
  then have e: "trim_end b (int (length p)) = Some (int (length p) - 1)" unfolding lp by simp
  have "copy_to_buf b (int (length p)) (int (length p) - 1) 1024 0 = Some (0, b2)"
    using copy_to_buf_eq [of "length p" 0 1024 0 b] le len True by (simp add: sep_def)
  then show ?thesis using s e True v by (simp add: copy_trimmed_to_buf_def trim_start_end_def)
qed

text \<open>A line with a key up to the end of the loop; \<open>x\<close> is what follows the equals sign.\<close>

definition key_ok :: "string \<Rightarrow> bool" where
  "key_ok k \<longleftrightarrow> trimmed k \<and> CHR ''='' \<notin> set k \<and> hd k \<noteq> CHR ''['' \<and> hd k \<noteq> CHR ''#'' \<and> length k < 256
     \<and> NUL \<notin> set k \<and> NL \<notin> set k"

lemma key_loop:
  assumes sim: "sim st s" and buf: "ip_buf st = (k @ w1 @ [CHR ''='']) @ (x @ [NL]) @ NUL # r"
    and w: "key_ok k" "spaces w1" "NUL \<notin> set x" "length ((k @ w1 @ [CHR ''='']) @ x @ [NL]) < 512"
  obtains b r' where "length b = 2048" and "b = (k @ w1 @ [CHR ''='']) @ (x @ [NL]) @ NUL # r'" and "field b 768 k"
    and "field b 512 (fst s)" and "\<And>v. field (ip_buf st) 1024 v \<Longrightarrow> field b 1024 v"
    and "line_loop h 0 st d = map_option (\<lambda>d'. (INI_OK, int (length ((k @ w1 @ [CHR ''='']) @ x @ [NL])),
      st\<lparr>ip_value_loc := 0, ip_buf := b, ip_mode := PARSEMODE_VALUE, ip_save_loc := int (length (k @ w1 @ [CHR ''='']))\<rparr>, d'))
      (run_calls h d (flush s))"
proof -
  let ?p = "k @ w1 @ [CHR ''='']" and ?m = "x @ [NL]"
    and ?st1 = "st\<lparr>ip_mode := PARSEMODE_KEY, ip_save_loc := 0, ip_value_loc := 0\<rparr>"
  note k' = w(1) [unfolded key_ok_def]
  obtain c k' where k: "k = c # k'" using k' by (cases k) (auto simp: trimmed_def)
  have c: "\<not> is_space c" "c \<noteq> NL" "c \<noteq> NUL" using k' k by (auto simp: trimmed_def)
  have len: "length (ip_buf st) = 2048" using sim by (simp add: sim_def)
  obtain b where b: "wr_block (ip_buf st) (int 768) (k @ [NUL]) = Some b" "length b = 2048" "field b 768 k"
    using write_field [OF len, of 768 k] k' by auto
  obtain r' where b': "b = ?p @ ?m @ NUL # r'"
    using wr_block_prefix [of "?p @ ?m @ [NUL]" r 768 "k @ [NUL]" b] b w buf by auto
  let ?st2 = "st\<lparr>ip_value_loc := 0, ip_buf := b, ip_mode := PARSEMODE_VALUE, ip_save_loc := int (length ?p)\<rparr>"
  have inert: "\<forall>x \<in> set (k' @ w1). inert PARSEMODE_KEY x"
    using k' k w(2) spaces_facts by (auto simp: inert_def)
  have "copy_trimmed_to_buf (ip_buf st) 0 (int (length (k @ w1)) - 1) 768 0 = Some (int (length k), b)"
    using copy_trimmed_eq [of "ip_buf st" "[]" "[]" k w1 "CHR ''='' # ?m @ NUL # r" 768 0] b w buf len
      trimmed_last [of k] k'
    by (auto simp: trimmed_def spaces_def sep_def add.assoc)
  then have "line_char CHR ''='' (int (length (k @ w1))) ?st1 = Some ?st2"
    by (simp add: line_char_def KEY_OFF_def add.commute)
  then have "line_loop h 1 ?st1 d' = line_loop h (int (length ?p)) ?st2 d'" for d'
    using line_loop_skip [of ?st1 "[c]" "k' @ w1" "CHR ''='' # ?m @ NUL # r" h d'] inert buf k
      line_loop_char [of ?st1 "k @ w1" "CHR ''=''" "?m @ NUL # r" ?st2 h d'] by (simp add: add.assoc)
  moreover have "line_loop h (int (length ?p)) ?st2 d' = Some (INI_OK, int (length (?p @ ?m)), ?st2, d')" for d'
    using line_loop_rest [of ?st2 ?p ?m r' h d'] w b' by (auto simp: inert_def)
  ultimately have "line_loop h 0 st d = map_option (\<lambda>d'. (INI_OK, int (length (?p @ ?m)), ?st2, d')) (run_calls h d (flush s))"
    using line_loop_first [of st c "k' @ w1 @ CHR ''='' # ?m @ NUL # r" h d] buf k c k'
      line_start_eq [OF sim, of c h d]
    by (cases "run_calls h d (flush s)") simp_all
  moreover have "field b 512 (fst s)" and "\<And>v. field (ip_buf st) 1024 v \<Longrightarrow> field b 1024 v"
    using sim k' field_frame [OF b(1), of 512] field_frame [OF b(1), of 1024] by (auto simp: sim_def)
  ultimately show ?thesis using that b b' by blast
qed

lemma step_entry:
  assumes sim: "sim st s" and buf: "ip_buf st = render (Entry k w1 w2 v w3) @ NUL # r" and ok: "line_ok (Entry k w1 w2 v w3)"
  shows "\<exists>st'. sim st' (line_next (Entry k w1 w2 v w3) s)
    \<and> parse_line h d st = map_option (\<lambda>d'. (INI_OK, st', d')) (run_calls h d (flush s))"
proof -
  let ?p = "k @ w1 @ [CHR ''='']" and ?x = "w2 @ v @ w3"
  have w: "spaces w1" "spaces w2" "spaces w3" "if v = [] then w2 = [] \<and> w3 = [] else trimmed v" "key_ok k"
    "NUL \<notin> set ?x" "NL \<notin> set v" "length (?p @ ?x @ [NL]) < 512"
    using ok by (auto simp: line_ok_def key_ok_def)
  have b0: "ip_buf st = ?p @ (?x @ [NL]) @ NUL # r" using buf by (simp add: render_def)
  obtain b r' where b: "length b = 2048" "b = ?p @ (?x @ [NL]) @ NUL # r'" "field b 768 k" "field b 512 (fst s)"
    and loop: "line_loop h 0 st d = map_option (\<lambda>d'. (INI_OK, int (length (?p @ ?x @ [NL])),
      st\<lparr>ip_value_loc := 0, ip_buf := b, ip_mode := PARSEMODE_VALUE, ip_save_loc := int (length ?p)\<rparr>, d')) (run_calls h d (flush s))"
    using key_loop [OF sim b0 w(5,1,6,8), of h d] by metis
  obtain b2 where b2: "wr_block b (int 1024) (v @ [NUL]) = Some b2" "length b2 = 2048" "field b2 1024 v"
    using write_field [OF b(1), of 1024 v] w(8) by auto
  let ?st2 = "st\<lparr>ip_value_loc := 0, ip_buf := b, ip_mode := PARSEMODE_VALUE, ip_save_loc := int (length ?p)\<rparr>"
  let ?st3 = "?st2\<lparr>ip_buf := b2, ip_value_loc := int (length v)\<rparr>"
  have "line_tail (int (length (?p @ ?x @ [NL])), ?st2) = Some ?st3"
    using copy_entry_value [of b ?p w2 v w3 r' b2] b b2 w by (simp add: line_tail_def VALUE_OFF_def)
  with loop have "parse_line h d st = map_option (\<lambda>d'. (INI_OK, ?st3, d')) (run_calls h d (flush s))"
    by (rule parse_line_eq)
  moreover have "sim ?st3 (line_next (Entry k w1 w2 v w3) s)"
    using sim b b2 w field_frame [OF b2(1), of 512 "fst s"] field_frame [OF b2(1), of 768 k]
    by (auto simp: sim_def cstring_def key_ok_def)
  ultimately show ?thesis by blast
qed

lemma field_extend:
  assumes f: "field buf off old" and w: "wr_block buf (int (off + length old)) (ys @ [NUL]) = Some b"
  shows "field b off (old @ ys)"
proof -
  have le: "off + length old + length ys + 1 \<le> length buf"
    and b: "b = take (off + length old) buf @ ys @ NUL # drop (off + length old + Suc (length ys)) buf"
    using w by (auto simp: wr_block_nat simp del: of_nat_add split: if_splits)
  have "take (Suc (length old)) (drop off buf) = old @ [NUL]"
    using f by (simp add: field_def rd_block_nat split: if_splits)
  then have "take (length old) (take (Suc (length old)) (drop off buf)) = old" by simp
  then have "take (length old) (drop off buf) = old" by simp
  then have "take (off + length old) buf = take off buf @ old" by (simp add: take_add)
  then have "b = take off buf @ (old @ ys) @ NUL # drop (off + length old + Suc (length ys)) buf"
    using b by simp
  moreover have "length (take off buf) = off" using le by simp
  moreover have "length b = length buf" using w by (rule wr_block_length)
  ultimately show ?thesis using le by (simp add: field_def rd_block_nat)
qed

lemma sep_join: "old @ sep (length old) @ v = join old v"
  by (simp add: sep_def join_def)

lemma step_more:
  assumes sim: "sim st s" and buf: "ip_buf st = render (More w v w3) @ NUL # r" and ok: "line_ok (More w v w3)"
    and s: "snd s = Some (k, old)" "length (join old v) < 1024"
  shows "\<exists>st'. sim st' (line_next (More w v w3) s) \<and> parse_line h d st = Some (INI_OK, st', d)"
proof -
  have w: "w \<noteq> []" "spaces w" "spaces w3" "trimmed v" "NUL \<notin> set v" "NL \<notin> set v" "length (w @ v @ w3 @ [NL]) < 512"
    using ok by (auto simp: line_ok_def)
  have st: "length (ip_buf st) = 2048" "ip_mode st = PARSEMODE_VALUE" "ip_value_loc st = int (length old)"
    "field (ip_buf st) 1024 old" "length old < 1024"
    using sim s(1) by (auto simp: sim_def)
  obtain x w' where x: "w = x # w'" "is_space x" "spaces w'" using w(1,2) by (cases w) (auto simp: spaces_def)
  obtain y v' where y: "v = y # v'" "\<not> is_space y" "y \<noteq> NUL" using w(4,5) by (cases v) (auto simp: trimmed_def)
  have xN: "x \<noteq> NUL" using spaces_facts [OF w(2), of x] x by simp
  have b0: "ip_buf st = w @ v @ w3 @ [NL, NUL] @ r" using buf by (simp add: render_def)
  define p where "p = (if w' = [] then w else butlast w)"
  define q where "q = (if w' = [] then [] else [last w])"
  have pq: "p @ q = w" "spaces q" using w(1,2) by (auto simp: p_def q_def spaces_def)
  have lp: "int (length p) = (if w' = [] then 1 else int (length w) - 1)" using x by (simp add: p_def)
  let ?st1 = "st\<lparr>ip_mode := PARSEMODE_MULTILINE, ip_save_loc := 1\<rparr>"
  let ?st2 = "st\<lparr>ip_mode := PARSEMODE_MULTILINE, ip_save_loc := int (length p)\<rparr>"
  let ?st3 = "st\<lparr>ip_mode := PARSEMODE_VALUE, ip_save_loc := int (length p)\<rparr>"
  have "line_loop h 0 st d = line_loop h 1 ?st1 d"
    using line_loop_first [of st x "w' @ v @ w3 @ [NL, NUL] @ r" h d] b0 x xN st by (simp add: line_start_def)
  also have "\<dots> = line_loop h (int (length w)) ?st2 d"
  proof -
    have "(if w' = [] then ?st1 else ?st1\<lparr>ip_save_loc := int (length [x] + length w') - 1\<rparr>) = ?st2"
      using lp x(1) by simp
    moreover have "line_loop h (int (length [x])) ?st1 d = line_loop h (int (length [x] + length w'))
        (if w' = [] then ?st1 else ?st1\<lparr>ip_save_loc := int (length [x] + length w') - 1\<rparr>) d"
      using b0 x by (intro line_loop_indent [of _ _ _ "v @ w3 @ [NL, NUL] @ r"]) (simp_all add: spaces_def)
    ultimately show ?thesis using x(1) by simp
  qed
  also have "\<dots> = line_loop h (int (length (w @ [y]))) ?st3 d"
    using line_loop_char [of ?st2 w y "v' @ w3 @ [NL, NUL] @ r" ?st3 h d] b0 w(1) y by (simp add: line_char_def)
  also have "\<dots> = Some (INI_OK, int (length (w @ v @ w3 @ [NL])), ?st3, d)"
    using line_loop_rest [of ?st3 "w @ [y]" "v' @ w3 @ [NL]" r h d] b0 y w(3,5) spaces_facts
    by (auto simp: inert_def)
  finally have loop: "line_loop h 0 st d = map_option (\<lambda>d'. (INI_OK, int (length (w @ v @ w3 @ [NL])), ?st3, d')) (Some d)"
    by simp
  let ?ys = "sep (length old) @ v"
  have room: "1024 + length old + length ?ys < 2048" using s(2) sep_join [of old v] by (metis add.assoc length_append nat_add_left_cancel_less numeral_Bit0)
  then obtain b where b: "wr_block (ip_buf st) (int (1024 + length old)) (?ys @ [NUL]) = Some b"
    using st(1) by (simp add: wr_block_nat del: of_nat_add)
  have "copy_trimmed_to_buf (ip_buf st) (int (length p)) (int (length (w @ v @ w3 @ [NL])) - 1) 1024 (int (length old)) =
      Some (int (length (join old v)), b)"
    using copy_trimmed_eq [of "ip_buf st" p q v "w3 @ [NL]" "NUL # r" 1024 "length old"] b b0 pq w trimmed_last [OF w(4,6)] st(1) room
    by (auto simp: trimmed_def spaces_def add.assoc simp flip: sep_join)
  then have "line_tail (int (length (w @ v @ w3 @ [NL])), ?st3) =
      Some (?st3\<lparr>ip_buf := b, ip_value_loc := int (length (join old v))\<rparr>)"
    using st by (simp add: line_tail_def VALUE_OFF_def)
  with loop have "parse_line h d st = map_option
      (\<lambda>d'. (INI_OK, ?st3\<lparr>ip_buf := b, ip_value_loc := int (length (join old v))\<rparr>, d')) (Some d)"
    by (rule parse_line_eq)
  moreover have "field b 1024 (join old v)" using field_extend [OF st(4), of ?ys b] b by (simp add: sep_join)
  then have "sim (?st3\<lparr>ip_buf := b, ip_value_loc := int (length (join old v))\<rparr>) (line_next (More w v w3) s)"
    using sim s w wr_block_length [OF b] field_frame [OF b, of 512 "fst s"] field_frame [OF b, of 768 k]
    by (auto simp: sim_def cstring_def join_def NL_def)
  ultimately show ?thesis by auto
qed

lemma step_line:
  assumes "sim st s" and "ip_buf st = render l @ NUL # r" and "line_ok l" and "line_fits l s"
  shows "\<exists>st'. sim st' (line_next l s)
    \<and> parse_line h d st = map_option (\<lambda>d'. (INI_OK, st', d')) (run_calls h d (line_calls l s))"
proof (cases l)
  case Blank
  then show ?thesis using step_blank [OF assms(1), of r h d] assms by simp
next
  case (Comment c)
  then show ?thesis using step_comment [OF assms(1), of c r h d] assms by auto
next
  case (Section w1 n w2 j)
  then show ?thesis using step_section [OF assms(1), of w1 n w2 j r h d] assms by simp
next
  case (Entry k w1 w2 v w3)
  then show ?thesis using step_entry [OF assms(1), of k w1 w2 v w3 r h d] assms by simp
next
  case (More w v w3)
  then obtain k old where "snd s = Some (k, old)" "length (join old v) < 1024"
    using assms(4) by (auto split: option.splits)
  then show ?thesis using step_more [OF assms(1), of w v w3 r k old h d] More assms by auto
qed

section \<open>Files\<close>

lemma fgets_line_NL: "NL \<notin> set b \<Longrightarrow> length b < n \<Longrightarrow> fgets_line n (b @ NL # r) = (b @ [NL], r)"
proof (induction b arbitrary: n)
  case Nil
  then show ?case by (cases n) auto
next
  case (Cons c b)
  then show ?case by (cases n) auto
qed

text \<open>One turn of the loop of \<open>ini_parse\<close> on a line that fits.\<close>

lemma ini_loop_line:
  assumes sim: "sim st s" and b: "NL \<notin> set b" "length b < 511"
  obtains st1 r where "sim st1 s" and "ip_buf st1 = (b @ [NL]) @ NUL # r"
    and "ini_loop h (b @ NL # cs) st d = Option.bind (parse_line h d st1)
      (\<lambda>(status, st', d'). if status \<noteq> INI_OK then ini_finish h status st' d' else ini_loop h cs st' d')"
proof -
  let ?l = "b @ [NL]"
  have len: "length (ip_buf st) = 2048" using sim by (simp add: sim_def)
  obtain b1 where b1: "wr_block (ip_buf st) 0 (?l @ [NUL]) = Some b1" "b1 = ?l @ NUL # drop (length ?l + 1) (ip_buf st)"
    using wr_block_nat [of "ip_buf st" 0 "?l @ [NUL]"] b len by auto
  have w: "wr_block (ip_buf st) (int 0) (?l @ [NUL]) = Some b1" using b1 by simp
  have "sim (st\<lparr>ip_buf := b1\<rparr>) s"
    using sim b wr_block_length [OF w] field_frame [OF w, of 512] field_frame [OF w, of 768] field_frame [OF w, of 1024]
    by (simp add: sim_def split: option.splits prod.splits)
  moreover have "ini_loop h (b @ NL # cs) st d = Option.bind (parse_line h d (st\<lparr>ip_buf := b1\<rparr>))
      (\<lambda>(status, st', d'). if status \<noteq> INI_OK then ini_finish h status st' d' else ini_loop h cs st' d')"
    using b1(1) fgets_line_NL [of b 511 cs] b
    by (cases "b @ NL # cs") (auto simp: INI_LINE_BUF_SIZE_def split: option.split)
  ultimately show ?thesis using that b1(2) by simp
qed

text \<open>The state and the calls after the lines of a document, the last value still pending.\<close>

primrec doc_end :: "ini_line list \<Rightarrow> ini_spec \<Rightarrow> ini_spec" where
  "doc_end [] s = s"
| "doc_end (l # ls) s = doc_end ls (line_next l s)"

primrec open_calls :: "ini_line list \<Rightarrow> ini_spec \<Rightarrow> ini_event list" where
  "open_calls [] s = []"
| "open_calls (l # ls) s = line_calls l s @ open_calls ls (line_next l s)"

lemma doc_calls_open: "doc_calls ls s = open_calls ls s @ flush (doc_end ls s)"
  by (induction ls arbitrary: s) auto

definition render_doc :: "ini_line list \<Rightarrow> string" where
  "render_doc ls = concat (map render ls)"

lemma ini_loop_doc:
  assumes "sim st s" and "doc_ok ls s"
  obtains (undef) "run_calls h d (open_calls ls s) = None" and "ini_loop h (render_doc ls @ cs) st d = None"
  | (go) d' st' where "run_calls h d (open_calls ls s) = Some d'" and "sim st' (doc_end ls s)"
      and "ini_loop h (render_doc ls @ cs) st d = ini_loop h cs st' d'"
  using assms
proof (induction ls arbitrary: st s d thesis)
  case Nil
  then show ?case by (simp add: render_doc_def)
next
  case (Cons l ls)
  obtain st1 r where st1: "sim st1 s" "ip_buf st1 = render l @ NUL # r"
    "ini_loop h (body l @ NL # render_doc ls @ cs) st d = Option.bind (parse_line h d st1)
      (\<lambda>(status, st', d'). if status \<noteq> INI_OK then ini_finish h status st' d' else ini_loop h (render_doc ls @ cs) st' d')"
    using ini_loop_line [OF Cons.prems(3), where b = "body l" and h = h and cs = "render_doc ls @ cs" and d = d] Cons.prems(4)
    unfolding render_def by (auto simp: line_ok_def)
  have eq: "render_doc (l # ls) @ cs = body l @ NL # render_doc ls @ cs" by (simp add: render_doc_def render_def)
  have ok: "line_ok l" "line_fits l s" "doc_ok ls (line_next l s)" using Cons.prems(4) by auto
  obtain st2 where st2: "sim st2 (line_next l s)"
    "parse_line h d st1 = map_option (\<lambda>d'. (INI_OK, st2, d')) (run_calls h d (line_calls l s))"
    using step_line [OF st1(1,2) ok(1,2), of h d] by auto
  show ?case
  proof (cases "run_calls h d (line_calls l s)")
    case None
    then show ?thesis using st1(3) st2(2) eq by (intro Cons.prems(1)) (simp_all add: run_calls_append)
  next
    case (Some d1)
    have step: "ini_loop h (render_doc (l # ls) @ cs) st d = ini_loop h (render_doc ls @ cs) st2 d1"
      using st1(3) st2(2) eq Some by simp
    show ?thesis
    proof (rule Cons.IH [of d1 "line_next l s" st2])
      assume "run_calls h d1 (open_calls ls (line_next l s)) = None" "ini_loop h (render_doc ls @ cs) st2 d1 = None"
      then show ?thesis using Some step by (intro Cons.prems(1)) (simp_all add: run_calls_append)
    next
      fix d' st'
      assume "run_calls h d1 (open_calls ls (line_next l s)) = Some d'" "sim st' (doc_end ls (line_next l s))"
        "ini_loop h (render_doc ls @ cs) st2 d1 = ini_loop h cs st' d'"
      then show ?thesis using Some step by (intro Cons.prems(2)) (simp_all add: run_calls_append)
    qed (use st2(1) ok(3) in auto)
  qed
qed

lemma sim_init: "sim ini_init ([], None)"
  by (simp add: sim_def ini_init_def INI_BUF_SIZE_def field_def rd_block_def cstring_def del: replicate_numeral_Cons)

lemma ini_finish_eq: "sim st s \<Longrightarrow> ini_finish h INI_OK st d = map_option (Pair INI_OK) (run_calls h d (flush s))"
  using sim_flush [of st s h d, symmetric] by (auto simp: ini_finish_def map_conv_bind_option comp_def)

section \<open>Behaviours at the edge of the format\<close>

text \<open>White space after an equals sign with no value: the value field keeps the previous value.\<close>

lemma step_stale:
  assumes sim: "sim st (sec, Some (k0, v0))" and buf: "ip_buf st = (k @ w1 @ [CHR ''='']) @ (w2 @ [NL]) @ NUL # r"
    and k: "key_ok k" "spaces w1" "spaces w2" "w2 \<noteq> []" "length k + length w2 < 256"
    and len: "length ((k @ w1 @ [CHR ''='']) @ w2 @ [NL]) < 512"
  shows "\<exists>st'. sim (st'\<lparr>ip_value_loc := int (length v0)\<rparr>) (sec, Some (k, v0))
    \<and> parse_line h d st = map_option (\<lambda>d'. (INI_OK, st', d')) (h d sec k0 v0)"
proof -
  let ?p = "k @ w1 @ [CHR ''='']"
  have N: "NUL \<notin> set w2" using spaces_facts [OF k(3)] by auto
  obtain b r' where b: "length b = 2048" "b = ?p @ (w2 @ [NL]) @ NUL # r'" "field b 768 k" "field b 512 sec"
    "\<And>v. field (ip_buf st) 1024 v \<Longrightarrow> field b 1024 v"
    and loop: "line_loop h 0 st d = map_option (\<lambda>d'. (INI_OK, int (length (?p @ w2 @ [NL])),
      st\<lparr>ip_value_loc := 0, ip_buf := b, ip_mode := PARSEMODE_VALUE, ip_save_loc := int (length ?p)\<rparr>, d')) (h d sec k0 v0)"
    using key_loop [OF sim buf k(1,2) N len, of h d] by (auto simp: flush_def)
  let ?st2 = "st\<lparr>ip_value_loc := 0, ip_buf := b, ip_mode := PARSEMODE_VALUE, ip_save_loc := int (length ?p)\<rparr>"
  have s: "trim_start b (int (length ?p)) = Some (int (length ?p + length w2))"
    using trim_start_skip [of w2 NL ?p "NUL # r'"] b(2) k(3) by (simp add: spaces_def)
  have bb: "b = (k @ w1) @ CHR ''='' # (w2 @ [NL]) @ NUL # r'" using b(2) by simp
  have "trim_end b (int (length (k @ w1) + length (w2 @ [NL]))) = Some (int (length (k @ w1)))"
    unfolding bb using k(3) by (intro trim_end_skip) (auto simp: spaces_def is_space_def NL_def)
  then have e: "trim_end b (int (length (?p @ w2 @ [NL])) - 1) = Some (int (length ?p) - 1)" by (simp add: add.assoc)
  define pos where "pos = 1024 - length w2"
  have pos: "768 + length k + 1 \<le> pos" "pos < 1024" "int pos = 1024 - int (length w2)"
    using k(4,5) by (cases w2; auto simp: pos_def)+
  obtain b2 where b2: "wr_block b (int pos) [NUL] = Some b2" using b(1) pos(2) by (simp add: wr_block_nat)
  then have w: "wr b (1024 - int (length w2)) NUL = Some b2" using wr_block_one [of b pos NUL] pos(3) by simp
  have "copy_chars b (int (length ?p + length w2)) (int (length ?p) - 1) 1024 = Some b" by (subst copy_chars.simps) simp
  then have "copy_trimmed_to_buf b (int (length ?p)) (int (length (?p @ w2 @ [NL])) - 1) 1024 0 =
      Some (- int (length w2), b2)"
    unfolding copy_trimmed_to_buf_def trim_start_end_def s e by (simp add: copy_to_buf_def w algebra_simps)
  then have "line_tail (int (length (?p @ w2 @ [NL])), ?st2) = Some (?st2\<lparr>ip_buf := b2, ip_value_loc := - int (length w2)\<rparr>)"
    by (simp add: line_tail_def VALUE_OFF_def)
  with loop have "parse_line h d st = map_option (\<lambda>d'. (INI_OK, ?st2\<lparr>ip_buf := b2, ip_value_loc := - int (length w2)\<rparr>, d')) (h d sec k0 v0)"
    by (rule parse_line_eq)
  moreover have "sim (?st2\<lparr>ip_buf := b2, ip_value_loc := int (length v0)\<rparr>) (sec, Some (k, v0))"
    using sim b k pos wr_block_length [OF b2] field_frame [OF b2, of 512 sec] field_frame [OF b2, of 768 k]
      field_frame [OF b2, of 1024 v0] by (auto simp: sim_def key_ok_def cstring_def)
  ultimately show ?thesis
    by (intro exI [of _ "?st2\<lparr>ip_buf := b2, ip_value_loc := - int (length w2)\<rparr>"] conjI) simp_all
qed

lemma parse_line_comment_undefined:
  assumes "ip_mode st = PARSEMODE_VALUE" and "ip_buf st = CHR ''#'' # r"
  shows "parse_line h d st = None"
proof -
  have "trim_end (ip_buf st) (-1) = None" by (subst trim_end.simps) (simp add: rd_def)
  then have "copy_trimmed_to_buf (ip_buf st) s (-1) off loc = None" for s off loc
    by (auto simp: copy_trimmed_to_buf_def trim_start_end_def split: bind_splits)
  then show ?thesis using assms line_loop_first [of st "CHR ''#''" r h d]
    by (cases "call_handler h d (ip_buf st)") (simp_all add: parse_line_def line_start_def is_space_def NL_def)
qed

lemma trim_end_below:
  "\<forall>c \<in> set ws. is_space c \<or> c = NL \<Longrightarrow> trim_end (ws @ r) (int (length ws) - 1) = None"
proof (induction ws arbitrary: r rule: rev_induct)
  case Nil
  then show ?case by (subst trim_end.simps) (simp add: rd_def)
next
  case (snoc c ws)
  then show ?case using snoc.IH [of "c # r"] by (subst trim_end.simps) (simp add: nth_append)
qed

lemma parse_line_white_undefined:
  assumes "ip_mode st = PARSEMODE_VALUE" and buf: "ip_buf st = (w @ [NL]) @ NUL # r" and w: "spaces w" "w \<noteq> []"
  shows "parse_line h d st = None"
proof -
  obtain x w' where x: "w = x # w'" "is_space x" "spaces w'" "x \<noteq> NUL"
    using w spaces_facts [OF w(1)] by (cases w) (auto simp: spaces_def)
  let ?st1 = "st\<lparr>ip_mode := PARSEMODE_MULTILINE, ip_save_loc := 1\<rparr>"
  let ?st2 = "if w' = [] then ?st1 else ?st1\<lparr>ip_save_loc := int (length [x] + length w') - 1\<rparr>"
  have e1: "line_loop h 0 st d = line_loop h 1 ?st1 d"
    using line_loop_first [of st x "w' @ NL # NUL # r" h d] assms x by (simp add: line_start_def)
  have "line_loop h (int (length [x])) ?st1 d = line_loop h (int (length [x] + length w')) ?st2 d"
    using buf x by (intro line_loop_indent [of _ _ _ "NL # NUL # r"]) (simp_all add: spaces_def)
  then have e2: "line_loop h 1 ?st1 d = line_loop h (int (length w)) ?st2 d" using x(1) by simp
  have e3: "line_loop h (int (length w)) ?st2 d = line_loop h (int (length w + 1)) (?st2\<lparr>ip_mode := PARSEMODE_VALUE\<rparr>) d"
    using buf w(2) by (intro line_loop_char [of _ _ NL "NUL # r"]) (simp_all add: line_char_def)
  have "line_loop h (int (length (w @ [NL]))) (?st2\<lparr>ip_mode := PARSEMODE_VALUE\<rparr>) d =
      Some (INI_OK, int (length (w @ [NL])), ?st2\<lparr>ip_mode := PARSEMODE_VALUE\<rparr>, d)"
    using buf by (intro line_loop_NUL [of _ _ r]) simp
  then have loop: "line_loop h 0 st d = Some (INI_OK, int (length (w @ [NL])), ?st2\<lparr>ip_mode := PARSEMODE_VALUE\<rparr>, d)"
    unfolding e1 e2 e3 by simp
  have "trim_end (ip_buf st) (int (length (w @ [NL])) - 1) = None"
    unfolding buf using w(1) by (intro trim_end_below) (auto simp: spaces_def)
  then have "copy_trimmed_to_buf (ip_buf st) s (int (length (w @ [NL])) - 1) off loc = None" for s off loc
    by (auto simp: copy_trimmed_to_buf_def trim_start_end_def split: bind_splits)
  then show ?thesis using loop by (simp add: parse_line_def)
qed

lemma sim_pending: "sim st s \<Longrightarrow> (ip_mode st = PARSEMODE_VALUE) = (snd s \<noteq> None)"
  by (auto simp: sim_def split: option.splits)

text \<open>A line of any kind, read after a document.\<close>

lemma ini_parse_after:
  assumes ls: "doc_ok ls ([], None)" and b: "NL \<notin> set b" "length b < 511"
    and step: "\<And>st r d'. sim st (doc_end ls ([], None)) \<Longrightarrow> ip_buf st = (b @ [NL]) @ NUL # r \<Longrightarrow>
      Option.bind (parse_line h d' st)
        (\<lambda>(status, st', d''). if status \<noteq> INI_OK then ini_finish h status st' d'' else ini_loop h cs st' d'') = X d'"
  shows "ini_parse (Some (render_doc ls @ b @ NL # cs)) (Some h) d = Option.bind (run_calls h d (open_calls ls ([], None))) X"
proof (rule ini_loop_doc [OF sim_init ls, of h d "b @ NL # cs"])
  assume "run_calls h d (open_calls ls ([], None)) = None" "ini_loop h (render_doc ls @ b @ NL # cs) ini_init d = None"
  then show ?thesis by (simp add: ini_parse_def)
next
  fix d' st'
  assume *: "run_calls h d (open_calls ls ([], None)) = Some d'" "sim st' (doc_end ls ([], None))"
    "ini_loop h (render_doc ls @ b @ NL # cs) ini_init d = ini_loop h (b @ NL # cs) st' d'"
  obtain st1 r where "sim st1 (doc_end ls ([], None))" "ip_buf st1 = (b @ [NL]) @ NUL # r"
    "ini_loop h (b @ NL # cs) st' d' = Option.bind (parse_line h d' st1)
      (\<lambda>(status, st', d'). if status \<noteq> INI_OK then ini_finish h status st' d' else ini_loop h cs st' d')"
    by (rule ini_loop_line [OF *(2) b, where h = h and cs = cs and d = d'])
  then have "ini_loop h (b @ NL # cs) st' d' = X d'" using step by simp
  then show ?thesis using * by (simp add: ini_parse_def)
qed

lemma ini_parse_doc:
  assumes "doc_ok ls ([], None)"
  shows "ini_parse (Some (render_doc ls)) (Some h) d = map_option (Pair INI_OK) (run_calls h d (doc_calls ls ([], None)))"
proof (rule ini_loop_doc [OF sim_init assms, of h d "[]"])
  assume "run_calls h d (open_calls ls ([], None)) = None" "ini_loop h (render_doc ls @ []) ini_init d = None"
  then show ?thesis by (simp add: ini_parse_def doc_calls_open run_calls_append)
next
  fix d' st'
  assume "run_calls h d (open_calls ls ([], None)) = Some d'" "sim st' (doc_end ls ([], None))"
    "ini_loop h (render_doc ls @ []) ini_init d = ini_loop h [] st' d'"
  then show ?thesis by (simp add: ini_parse_def doc_calls_open run_calls_append ini_finish_eq)
qed

section \<open>Properties\<close>

text \<open>C36. Parsing a well-formed workspace file succeeds and makes exactly the handler calls the
  file stands for, in file order: one per key, with its section, and with a multi-line value
  joined by newlines. Lines are bounded by the line buffer, names and values by their fields.\<close>

theorem ini_parse_document:
  assumes "doc_ok ls ([], None)"
  shows "ini_parse (Some (render_doc ls)) (Some h) d = map_option (Pair INI_OK) (run_calls h d (doc_calls ls ([], None)))"
  by (rule ini_parse_doc [OF assms])

text \<open>C37. A comment, or a line of white space only, right after a value makes the parser read
  below its buffer, whatever the handler does: the scan for the end of the value starts at or
  runs down to index -1. The example workspace of the README has such comments.\<close>

theorem ini_comment_after_value:
  assumes "doc_ok ls ([], None)" and "snd (doc_end ls ([], None)) \<noteq> None"
    and "NL \<notin> set c" and "length c < 510" and "spaces w" and "w \<noteq> []" and "length w < 511"
  shows "ini_parse (Some (render_doc ls @ (CHR ''#'' # c) @ NL # cs)) (Some h) d = None
    \<and> ini_parse (Some (render_doc ls @ w @ NL # cs)) (Some h) d = None"
proof -
  have m: "ip_mode st = PARSEMODE_VALUE" if "sim st (doc_end ls ([], None))" for st
    using sim_pending [OF that] assms(2) by simp
  have "NL \<notin> set w" using spaces_facts [OF assms(5)] by auto
  then have "ini_parse (Some (render_doc ls @ w @ NL # cs)) (Some h) d =
      Option.bind (run_calls h d (open_calls ls ([], None))) (\<lambda>d'. None)"
    using assms by (intro ini_parse_after) (simp_all add: parse_line_white_undefined [OF m])
  moreover have "ini_parse (Some (render_doc ls @ (CHR ''#'' # c) @ NL # cs)) (Some h) d =
      Option.bind (run_calls h d (open_calls ls ([], None))) (\<lambda>d'. None)"
    using assms by (intro ini_parse_after) (simp_all add: parse_line_comment_undefined [OF m])
  ultimately show ?thesis by (auto split: bind_splits)
qed

text \<open>C38. An indented line where no value is pending ends the parse with \<open>INI_INVALID\<close>, after the
  handler calls of everything before it.\<close>

theorem ini_indent_invalid:
  assumes "doc_ok ls ([], None)" and "snd (doc_end ls ([], None)) = None"
    and "is_space x" and "NL \<notin> set b" and "length b < 510"
  shows "ini_parse (Some (render_doc ls @ (x # b) @ NL # cs)) (Some h) d =
    map_option (Pair INI_INVALID) (run_calls h d (doc_calls ls ([], None)))"
proof -
  have x: "x \<noteq> NUL" "x \<noteq> NL" using spaces_facts [of "[x]" x] assms(3) by (auto simp: spaces_def)
  have step: "parse_line h d' st = Some (INI_INVALID, st, d') \<and> ip_mode st \<noteq> PARSEMODE_VALUE"
    if "sim st (doc_end ls ([], None))" "ip_buf st = ((x # b) @ [NL]) @ NUL # r" for st r d'
    using line_loop_first [of st x "b @ [NL] @ NUL # r" h d'] that x assms sim_pending [OF that(1)]
    by (simp add: parse_line_def line_start_def)
  have "ini_parse (Some (render_doc ls @ (x # b) @ NL # cs)) (Some h) d =
      Option.bind (run_calls h d (open_calls ls ([], None))) (\<lambda>d'. Some (INI_INVALID, d'))"
    using assms x step by (intro ini_parse_after) (auto simp: ini_finish_def)
  moreover have "flush (doc_end ls ([], None)) = []" using assms(2) by (cases "doc_end ls ([], None)") (simp add: flush_def)
  ultimately show ?thesis by (simp add: doc_calls_open map_conv_bind_option comp_def)
qed

text \<open>C39. A key with only white space after its equals sign does not get an empty value: the
  handler sees the value of the key before it.\<close>

theorem ini_stale_value:
  assumes "doc_ok ls ([], None)" and "doc_end ls ([], None) = (sec, Some (k0, v0))" and "key_ok k" and "spaces w1"
    and "spaces w2" and "w2 \<noteq> []" and "length k + length w2 < 256" and "length (k @ w1 @ [CHR ''=''] @ w2) < 511"
  shows "ini_parse (Some (render_doc ls @ (k @ w1 @ [CHR ''=''] @ w2) @ [NL])) (Some h) d =
    map_option (Pair INI_OK) (run_calls h d (doc_calls ls ([], None) @ [(sec, k, v0)]))"
proof -
  have fin: "ini_finish h INI_OK (st'\<lparr>ip_value_loc := n\<rparr>) d'' = ini_finish h INI_OK st' d''" for st' n d''
    by (simp add: ini_finish_def)
  have step: "Option.bind (parse_line h d' st)
      (\<lambda>(status, st', d''). if status \<noteq> INI_OK then ini_finish h status st' d'' else ini_loop h [] st' d'') =
      map_option (Pair INI_OK) (run_calls h d' [(sec, k0, v0), (sec, k, v0)])"
    if sim: "sim st (doc_end ls ([], None))" and buf: "ip_buf st = ((k @ w1 @ [CHR ''=''] @ w2) @ [NL]) @ NUL # r" for st r d'
  proof -
    obtain st' where st': "sim (st'\<lparr>ip_value_loc := int (length v0)\<rparr>) (sec, Some (k, v0))"
      "parse_line h d' st = map_option (\<lambda>d'. (INI_OK, st', d')) (h d' sec k0 v0)"
      using step_stale [of st sec k0 v0 k w1 w2 r h d'] sim buf assms by auto
    then show ?thesis using ini_finish_eq [OF st'(1), of h]
      by (cases "h d' sec k0 v0") (simp_all add: fin flush_def)
  qed
  have "NL \<notin> set (k @ w1 @ [CHR ''=''] @ w2)"
    using assms(3) spaces_facts [OF assms(4)] spaces_facts [OF assms(5)] by (auto simp: key_ok_def NL_def)
  then have "ini_parse (Some (render_doc ls @ (k @ w1 @ [CHR ''=''] @ w2) @ [NL])) (Some h) d =
      Option.bind (run_calls h d (open_calls ls ([], None))) (\<lambda>d'. map_option (Pair INI_OK) (run_calls h d' [(sec, k0, v0), (sec, k, v0)]))"
    using assms step by (intro ini_parse_after) auto
  then show ?thesis using assms(2) run_calls_append [of h d "open_calls ls ([], None)" "[(sec, k0, v0), (sec, k, v0)]"]
    by (simp add: doc_calls_open flush_def map_option_bind comp_def)
qed

section \<open>Witnesses\<close>

definition demo_doc :: "ini_line list" where
  "demo_doc = [Comment '' tasks'', Section [] ''do'' [] [], Entry ''wait'' '' '' '' '' ''loop'' [],
     Entry ''cmd'' '' '' [] [] [], More ''    '' ''ls -l'' [], More '' '' ''pwd'' '' '']"

definition demo_handler :: "ini_event list ini_handler" where
  "demo_handler d s k v = Some (d @ [(s, k, v)])"

lemma demo_doc_ok: "doc_ok demo_doc ([], None)"
  by (simp add: demo_doc_def line_ok_def spaces_def trimmed_def is_space_def NL_def join_def)

theorem ini_parse_document_witness:
  "ini_parse (Some (render_doc demo_doc)) (Some demo_handler) [] =
    Some (INI_OK, [(''do'', ''wait'', ''loop''), (''do'', ''cmd'', ''ls -l'' @ [NL] @ ''pwd'')])"
  using ini_parse_document [OF demo_doc_ok, of demo_handler "[]"]
  by (simp add: demo_doc_def demo_handler_def flush_def join_def)

theorem ini_comment_after_value_witness:
  "ini_parse (Some (render_doc demo_doc @ ''# more'' @ [NL])) (Some demo_handler) [] = None"
  using ini_comment_after_value [OF demo_doc_ok, of "'' more''" "'' ''" "[]" demo_handler "[]"]
  by (simp add: demo_doc_def join_def spaces_def is_space_def NL_def)

theorem ini_indent_invalid_witness:
  "ini_parse (Some (render_doc [Section [] ''do'' [] []] @ '' cmd = ls'' @ [NL])) (Some demo_handler) [] = Some (INI_INVALID, [])"
  using ini_indent_invalid [of "[Section [] ''do'' [] []]" "CHR '' ''" "''cmd = ls''" "[]" demo_handler "[]"]
  by (simp add: line_ok_def spaces_def trimmed_def is_space_def NL_def flush_def)

theorem ini_stale_value_witness:
  "ini_parse (Some (render_doc [Section [] ''do'' [] [], Entry ''dir'' [] [] ''tmp'' []] @ ''cmd= '' @ [NL])) (Some demo_handler) [] =
    Some (INI_OK, [(''do'', ''dir'', ''tmp''), (''do'', ''cmd'', ''tmp'')])"
  using ini_stale_value [of "[Section [] ''do'' [] [], Entry ''dir'' [] [] ''tmp'' []]" "''do''" "''dir''" "''tmp''" "''cmd''" "[]" "'' ''" demo_handler "[]"]
  by (simp add: line_ok_def spaces_def trimmed_def is_space_def NL_def flush_def key_ok_def demo_handler_def)

end
