(* ===== verification/Tasks.thy ===== *)
theory Tasks
  imports Slots Stack Protocol Ini
begin

text \<open>
  Tasks and workspaces of the server, the middle part of \<open>src/src/server.h\<close>. A task owns a text
  buffer; its \<open>cmd\<close>, \<open>dir\<close>, \<open>wait\<close> and \<open>name\<close> and its environment strings are pointers into it,
  so they are offsets here. Tasks and processes live in typed stores (theory \<open>Slots\<close>); the items
  are mutated in place, which is \<open>slots_replace\<close> on a used slot.

  Parameters: \<open>fopen\<close> gives the contents of a readable file, and \<open>launch_env\<close> the results of the
  system calls one launch makes (\<open>le_fork\<close> is the value \<open>fork\<close> returns in the parent). What the
  server does to the outside is a list of events.
\<close>

section \<open>Data\<close>

record Task =
  t_buf_loc :: int
  t_var_count :: int
  t_cmd :: "int option"
  t_dir :: "int option"
  t_wait :: "int option"
  t_name :: "int option"
  t_buf :: "byte list"
  t_vars :: "int option list"

record TaskProcess =
  p_start_time :: int
  p_pid :: int
  p_task_name :: "byte list"
  p_out_fd_r :: int
  p_err_fd_r :: int

text \<open>\<open>process_stack\<close> and \<open>task_stack\<close> of the source are never used.\<close>

record Server =
  sv_running :: bool
  sv_conn :: Connection
  sv_workspace :: "byte list"
  sv_token_stream :: ProtocolTokenStream
  sv_client_stack :: Stack
  sv_process_store :: "TaskProcess slots"
  sv_task_store :: "Task slots"

text \<open>What a child process executes: the program arguments, the directory and the environment.\<close>

record child =
  ch_argv :: "string list"
  ch_dir :: "string option"
  ch_env :: "string list"

datatype event =
  Ev_send int "byte list"
| Ev_close int
| Ev_spawn int "child option"
| Ev_print string string

text \<open>What the calls of a launch return in the parent; \<open>le_fork\<close> is a pid or negative, the 0 of \<open>fork\<close> is
  seen by the child only.\<close>

record launch_env =
  le_out_pipe :: "(int \<times> int) option"
  le_out_nonblock :: bool
  le_err_pipe :: "(int \<times> int) option"
  le_err_nonblock :: bool
  le_fork :: int
  le_time :: int

text \<open>The zeroed item \<open>store_push_empty\<close> hands out.\<close>

definition zero_task :: "Config \<Rightarrow> Task" where
  "zero_task cfg =
     \<lparr>t_buf_loc = 0, t_var_count = 0, t_cmd = None, t_dir = None, t_wait = None, t_name = None,
      t_buf = replicate (nat (task_buf_size (general (c_settings cfg)))) NUL,
      t_vars = replicate (nat (task_var_max_count (general (c_settings cfg)))) None\<rparr>"

definition zero_process :: "Config \<Rightarrow> TaskProcess" where
  "zero_process cfg =
     \<lparr>p_start_time = 0, p_pid = 0, p_task_name = replicate (nat (task_name_size (general (c_settings cfg)))) NUL,
      p_out_fd_r = 0, p_err_fd_r = 0\<rparr>"

section \<open>Reading a task from the workspace\<close>

definition task_write :: "Task \<Rightarrow> string \<Rightarrow> byte \<Rightarrow> (int \<times> Task) option" where
  "task_write task value end_char =
     do {
       b \<leftarrow> wr_block (t_buf task) (t_buf_loc task) (value @ [end_char]);
       Some (t_buf_loc task, task\<lparr>t_buf := b, t_buf_loc := t_buf_loc task + int (length value) + 1\<rparr>)
     }"

text \<open>The string behind one of the task's pointers; reading through NULL is undefined.\<close>

definition task_str :: "Task \<Rightarrow> int option \<Rightarrow> string option" where
  "task_str task p = Option.bind p (cstr_at (t_buf task))"

definition workspace_task_get :: "Task ini_handler" where
  "workspace_task_get task sec name value =
     do {
       tn \<leftarrow> task_str task (t_name task);
       (if strcmp_eq sec tn
        then do {
          task1 \<leftarrow>
            (if strcmp_eq name ''cmd'' then Some (task\<lparr>t_cmd := Some (t_buf_loc task)\<rparr>)
             else if strcmp_eq name ''dir'' then Some (task\<lparr>t_dir := Some (t_buf_loc task)\<rparr>)
             else if strcmp_eq name ''wait'' then Some (task\<lparr>t_wait := Some (t_buf_loc task)\<rparr>)
             else do {
               (p, task') \<leftarrow> task_write task name CHR ''='';
               vs \<leftarrow> wr (t_vars task') (t_var_count task') (Some p);
               Some (task'\<lparr>t_vars := vs, t_var_count := t_var_count task' + 1\<rparr>)
             });
          (_, task2) \<leftarrow> task_write task1 value NUL;
          Some task2
        }
        else Some task)
     }"

text \<open>The status and the handler's data; the file name is the C string in the workspace buffer.\<close>

definition get_from_ws ::
  "(string \<Rightarrow> byte list option) \<Rightarrow> Server \<Rightarrow> 'd ini_handler \<Rightarrow> 'd \<Rightarrow> (int \<times> 'd) option" where
  "get_from_ws fopen server handler d =
     do {
       path \<leftarrow> cstr_at (sv_workspace server) 0;
       (case fopen path of
          None \<Rightarrow> Some (-1, d)
        | Some content \<Rightarrow> do {
            (ret, d') \<leftarrow> ini_parse (Some content) (Some handler) d;
            Some (if ret \<noteq> INI_OK then -1 else 0, d')
          })
     }"

text \<open>The environment strings of the request, after the variables of the workspace.\<close>

function apply_envs :: "string option list \<Rightarrow> int \<Rightarrow> Task \<Rightarrow> Task option" where
  "apply_envs envs e task =
     (case rd envs e of
        None \<Rightarrow> None
      | Some None \<Rightarrow> Some task
      | Some (Some env) \<Rightarrow>
          (case task_write task env NUL of
             None \<Rightarrow> None
           | Some (p, task') \<Rightarrow>
               (case wr (t_vars task') (e + t_var_count task') (Some p) of
                  None \<Rightarrow> None
                | Some vs \<Rightarrow> apply_envs envs (e + 1) (task'\<lparr>t_vars := vs\<rparr>))))"
  by pat_completeness auto
termination
  by (relation "measure (\<lambda>(envs, e, t). nat (int (length envs) - e))") (auto simp: rd_eq_Some_iff)

declare apply_envs.simps [simp del]

text \<open>A store with an item overwritten in place, and with one removed.\<close>

definition put_task :: "Server \<Rightarrow> int \<Rightarrow> Task \<Rightarrow> Server option" where
  "put_task server key task =
     do { (_, st) \<leftarrow> slots_replace (sv_task_store server) key task; Some (server\<lparr>sv_task_store := st\<rparr>) }"

definition drop_task :: "Server \<Rightarrow> int \<Rightarrow> Server option" where
  "drop_task server key =
     do { (_, st) \<leftarrow> slots_remove_at (sv_task_store server) key; Some (server\<lparr>sv_task_store := st\<rparr>) }"

text \<open>The key of the new task, \<^term>\<open>None\<close> for \<open>KEYVALUE_NONE\<close>. \<open>envs\<close> is an array of pointers.\<close>

definition get_task ::
  "(string \<Rightarrow> byte list option) \<Rightarrow> Config \<Rightarrow> string option \<Rightarrow> string option list option \<Rightarrow> Server
    \<Rightarrow> (int option \<times> Server) option" where
  "get_task fopen cfg task_name envs server =
     (case task_name of
        None \<Rightarrow> Some (None, server)
      | Some name \<Rightarrow> do {
          (k, st) \<leftarrow> slots_push (sv_task_store server) (zero_task cfg);
          let server1 = server\<lparr>sv_task_store := st\<rparr>;
          (case k of
             None \<Rightarrow> Some (None, server1)
           | Some key \<Rightarrow> do {
               (p, task1) \<leftarrow> task_write (zero_task cfg) name NUL;
               (status, task2) \<leftarrow> get_from_ws fopen server1 workspace_task_get (task1\<lparr>t_name := Some p\<rparr>);
               server2 \<leftarrow> put_task server1 key task2;
               (if status \<noteq> 0 \<or> t_cmd task2 = None
                then do { server3 \<leftarrow> drop_task server2 key; Some (None, server3) }
                else do {
                  task3 \<leftarrow> (case envs of None \<Rightarrow> Some task2 | Some es \<Rightarrow> apply_envs es 0 task2);
                  server3 \<leftarrow> put_task server2 key task3;
                  Some (Some key, server3)
                })
             })
        })"

section \<open>Launching a task\<close>

text \<open>The environment array up to its NULL; without one \<open>execve\<close> reads past the array.\<close>

fun env_strings :: "byte list \<Rightarrow> int option list \<Rightarrow> string list option" where
  "env_strings buf [] = None"
| "env_strings buf (None # ps) = Some []"
| "env_strings buf (Some p # ps) = do { s \<leftarrow> cstr_at buf p; r \<leftarrow> env_strings buf ps; Some (s # r) }"

text \<open>The child branch of \<open>server_task_launch\<close>.\<close>

definition child_exec :: "Config \<Rightarrow> Task \<Rightarrow> child option" where
  "child_exec cfg task =
     do {
       cmd \<leftarrow> task_str task (t_cmd task);
       dir \<leftarrow> (case t_dir task of None \<Rightarrow> Some None | Some p \<Rightarrow> map_option Some (cstr_at (t_buf task) p));
       env \<leftarrow> env_strings (t_buf task) (t_vars task);
       Some \<lparr>ch_argv = [cmd_bin_path (general (c_settings cfg)), ''-c'', cmd], ch_dir = dir, ch_env = env\<rparr>
     }"

definition new_process :: "Config \<Rightarrow> launch_env \<Rightarrow> int \<Rightarrow> int \<Rightarrow> string \<Rightarrow> TaskProcess option" where
  "new_process cfg le out_r err_r name =
     do {
       nb \<leftarrow> wr_block (p_task_name (zero_process cfg)) 0 name;
       Some \<lparr>p_start_time = le_time le, p_pid = le_fork le, p_task_name = nb, p_out_fd_r = out_r, p_err_fd_r = err_r\<rparr>
     }"

text \<open>The parent's view of \<open>server_task_launch\<close>.\<close>

definition server_task_launch ::
  "Config \<Rightarrow> launch_env \<Rightarrow> Server \<Rightarrow> Task option \<Rightarrow> (int \<times> Server \<times> event list) option" where
  "server_task_launch cfg le server new_task =
     (case new_task of
        None \<Rightarrow> Some (-1, server, [])
      | Some task \<Rightarrow>
          if sl_open_cnt (sv_process_store server) < 1 then Some (-1, server, [])
          else case le_out_pipe le of
            None \<Rightarrow> Some (-1, server, [])
          | Some out_fd \<Rightarrow>
              if \<not> le_out_nonblock le then Some (-1, server, [])
              else case le_err_pipe le of
                None \<Rightarrow> Some (-1, server, [])
              | Some err_fd \<Rightarrow>
              if \<not> le_err_nonblock le then Some (-1, server, [])
              else if le_fork le < 0 then Some (-1, server, [])
              else do {
                name \<leftarrow> task_str task (t_name task);
                process \<leftarrow> new_process cfg le (fst out_fd) (fst err_fd) name;
                (k, st) \<leftarrow> slots_push (sv_process_store server) process;
                Some (case k of None \<Rightarrow> -1 | Some _ \<Rightarrow> 0, server\<lparr>sv_process_store := st\<rparr>,
                      [Ev_spawn (le_fork le) (child_exec cfg task)])
              })"

section \<open>Waiting tasks\<close>

text \<open>The loop over the process store, from the last slot to the first.\<close>

primrec wait_loop :: "TaskProcess slots \<Rightarrow> string \<Rightarrow> nat \<Rightarrow> bool option" where
  "wait_loop st w 0 = Some False"
| "wait_loop st w (Suc i) =
     do {
       r \<leftarrow> slots_get st (int i);
       (case r of
          None \<Rightarrow> wait_loop st w i
        | Some process \<Rightarrow> do {
            name \<leftarrow> cstr_at (p_task_name process) 0;
            (if strcmp_eq name w then Some True else wait_loop st w i)
          })
     }"

definition server_task_wait_match :: "Server \<Rightarrow> Task \<Rightarrow> bool option" where
  "server_task_wait_match server task =
     (case t_wait task of
        None \<Rightarrow> Some False
      | Some p \<Rightarrow>
          let st = sv_process_store server in
          if nat (sl_capacity st) = 0 then Some False
          else do { w \<leftarrow> cstr_at (t_buf task) p; wait_loop st w (nat (sl_capacity st)) })"

text \<open>Whether the completion of a task lets a waiting task start: \<open>strncmp\<close> over the completed name.\<close>

definition queue_match :: "Task \<Rightarrow> string \<Rightarrow> int \<Rightarrow> bool option" where
  "queue_match task completed name_len =
     (case t_wait task of
        None \<Rightarrow> Some True
      | Some p \<Rightarrow> do { w \<leftarrow> cstr_at (t_buf task) p; Some (strncmp_eq w completed (nat name_len)) })"

primrec queue_loop ::
  "Config \<Rightarrow> launch_env \<Rightarrow> Server \<Rightarrow> string \<Rightarrow> int \<Rightarrow> nat \<Rightarrow> (int \<times> Server \<times> event list) option" where
  "queue_loop cfg le server completed name_len 0 = Some (-1, server, [])"
| "queue_loop cfg le server completed name_len (Suc i) =
     do {
       r \<leftarrow> slots_get (sv_task_store server) (int i);
       (case r of
          None \<Rightarrow> queue_loop cfg le server completed name_len i
        | Some task \<Rightarrow> do {
            m \<leftarrow> queue_match task completed name_len;
            (if m
             then do {
               (status, server1, evs) \<leftarrow> server_task_launch cfg le server (Some task);
               (if status \<noteq> 0 then Some (-1, server1, evs)
                else do { server2 \<leftarrow> drop_task server1 (int i); Some (0, server2, evs) })
             }
             else queue_loop cfg le server completed name_len i)
          })
     }"

definition server_check_task_queue ::
  "Config \<Rightarrow> launch_env \<Rightarrow> Server \<Rightarrow> string \<Rightarrow> int \<Rightarrow> (int \<times> Server \<times> event list) option" where
  "server_check_task_queue cfg le server completed name_len =
     (if sl_open_cnt (sv_process_store server) < 1 then Some (-1, server, [])
      else queue_loop cfg le server completed name_len (nat (sl_capacity (sv_task_store server))))"

section \<open>Abstract tasks\<close>

text \<open>What a task's buffer holds, as strings; \<open>at_used\<close> is the number of buffer bytes taken.\<close>

record atask =
  at_name :: string
  at_cmd :: "string option"
  at_dir :: "string option"
  at_wait :: "string option"
  at_env :: "string list"
  at_used :: nat

text \<open>A pointer to a string that ends before the first \<open>n\<close> bytes do.\<close>

definition str_in :: "byte list \<Rightarrow> nat \<Rightarrow> int \<Rightarrow> string \<Rightarrow> bool" where
  "str_in buf n p s \<longleftrightarrow> (\<exists>k. p = int k \<and> field buf k s \<and> cstring s \<and> k + length s + 1 \<le> n)"

lemma str_in_cstr: "str_in buf n p s \<Longrightarrow> cstr_at buf p = Some s"
  by (auto simp: str_in_def field_cstr)

lemma str_in_frame:
  assumes "str_in buf n p s" and "wr_block buf (int n) ys = Some b" and "n \<le> n'"
  shows "str_in b n' p s"
  using assms field_frame [OF assms(2)] by (fastforce simp: str_in_def)

lemma str_in_new:
  assumes "wr_block buf (int n) (s @ [NUL]) = Some b" and "cstring s"
  shows "str_in b (n + length s + 1) (int n) s"
  using field_set [OF assms(1)] assms(2) by (auto simp: str_in_def)

text \<open>\<open>e\<close> counts the environment strings that came with the request.\<close>

definition rep :: "nat \<Rightarrow> nat \<Rightarrow> Task \<Rightarrow> atask \<Rightarrow> nat \<Rightarrow> bool" where
  "rep B V t a e \<longleftrightarrow> length (t_buf t) = B \<and> length (t_vars t) = V
     \<and> t_buf_loc t = int (at_used a) \<and> at_used a \<le> B \<and> length (at_env a) \<le> V
     \<and> t_var_count t + int e = int (length (at_env a))
     \<and> rel_option (str_in (t_buf t) (at_used a)) (t_name t) (Some (at_name a))
     \<and> rel_option (str_in (t_buf t) (at_used a)) (t_cmd t) (at_cmd a)
     \<and> rel_option (str_in (t_buf t) (at_used a)) (t_dir t) (at_dir a)
     \<and> rel_option (str_in (t_buf t) (at_used a)) (t_wait t) (at_wait a)
     \<and> list_all2 (\<lambda>p s. rel_option (str_in (t_buf t) (at_used a)) p (Some s)) (take (length (at_env a)) (t_vars t)) (at_env a)
     \<and> drop (length (at_env a)) (t_vars t) = replicate (V - length (at_env a)) None"

lemma rep_name: "rep B V t a e \<Longrightarrow> task_str t (t_name t) = Some (at_name a)"
  by (cases "t_name t") (auto simp: rep_def task_str_def str_in_cstr)

lemma rep_write:
  assumes r: "rep B V t a e" and w: "wr_block (t_buf t) (int (at_used a)) ys = Some b" and n: "n = at_used a + length ys"
  shows "rep B V (t\<lparr>t_buf := b, t_buf_loc := int n\<rparr>) (a\<lparr>at_used := n\<rparr>) e"
proof -
  have fr: "str_in (t_buf t) (at_used a) p s \<Longrightarrow> str_in b n p s" for p s
    using str_in_frame [OF _ w] n by simp
  have lift: "rel_option (str_in (t_buf t) (at_used a)) p q \<Longrightarrow> rel_option (str_in b n) p q" for p q
    by (erule option.rel_mono_strong) (rule fr)
  have "n \<le> B" using w r n by (auto simp: rep_def wr_block_nat split: if_splits)
  moreover have "length b = B" using wr_block_length [OF w] r by (simp add: rep_def)
  moreover have "list_all2 (\<lambda>p s. rel_option (str_in b n) p (Some s)) (take (length (at_env a)) (t_vars t)) (at_env a)"
    using r lift unfolding rep_def by (blast intro: list_all2_mono)
  ultimately show ?thesis using r lift by (simp add: rep_def del: option.rel_sel)
qed

lemma task_write_eq:
  assumes r: "rep B V t a e"
  shows "task_write t v c =
    (if at_used a + length v + 1 \<le> B
     then Some (int (at_used a), t\<lparr>t_buf := take (at_used a) (t_buf t) @ (v @ [c]) @ drop (at_used a + length v + 1) (t_buf t),
            t_buf_loc := int (at_used a + length v + 1)\<rparr>)
     else None)"
  using r by (simp add: task_write_def rep_def wr_block_nat)

lemma rep_env:
  assumes r: "rep B V t a e" and p: "str_in (t_buf t) (at_used a) p s" and l: "length (at_env a) < V"
    and c: "c + int e' = int (length (at_env a)) + 1"
  shows "rep B V (t\<lparr>t_vars := (t_vars t)[length (at_env a) := Some p], t_var_count := c\<rparr>) (a\<lparr>at_env := at_env a @ [s]\<rparr>) e'"
proof -
  let ?n = "length (at_env a)" and ?vs = "(t_vars t)[length (at_env a) := Some p]"
  have V: "length (t_vars t) = V" using r by (simp add: rep_def)
  have tk: "take (Suc ?n) ?vs = take ?n (t_vars t) @ [Some p]" using V l by (simp add: take_Suc_conv_app_nth)
  have "drop (Suc ?n) ?vs = drop 1 (drop ?n (t_vars t))" by simp
  also have "\<dots> = replicate (V - Suc ?n) None" using r by (simp add: rep_def)
  finally have "drop (Suc ?n) ?vs = replicate (V - Suc ?n) None" .
  then show ?thesis using r p l c V tk by (simp add: rep_def list_all2_append)
qed

text \<open>The effect of one workspace entry on the abstract task, and when it fits.\<close>

definition abs_get :: "atask \<Rightarrow> ini_event \<Rightarrow> atask" where
  "abs_get a ev = (case ev of (sec, k, v) \<Rightarrow>
     if sec \<noteq> at_name a then a
     else if k = ''cmd'' then a\<lparr>at_cmd := Some v, at_used := at_used a + length v + 1\<rparr>
     else if k = ''dir'' then a\<lparr>at_dir := Some v, at_used := at_used a + length v + 1\<rparr>
     else if k = ''wait'' then a\<lparr>at_wait := Some v, at_used := at_used a + length v + 1\<rparr>
     else a\<lparr>at_used := at_used a + length k + length v + 2, at_env := at_env a @ [k @ ''='' @ v]\<rparr>)"

definition fits_in :: "nat \<Rightarrow> nat \<Rightarrow> atask \<Rightarrow> bool" where
  "fits_in B V a \<longleftrightarrow> at_used a \<le> B \<and> length (at_env a) \<le> V"

lemma rep_fits: "rep B V t a e \<Longrightarrow> fits_in B V a"
  by (simp add: rep_def fits_in_def)

lemma write_string:
  assumes r: "rep B V t a e" and v: "cstring v" and n: "n = at_used a + length v + 1" "n \<le> B"
  obtains b where "task_write t v NUL = Some (int (at_used a), t\<lparr>t_buf := b, t_buf_loc := int n\<rparr>)"
    and "rep B V (t\<lparr>t_buf := b, t_buf_loc := int n\<rparr>) (a\<lparr>at_used := n\<rparr>) e" and "str_in b n (int (at_used a)) v"
    and "wr_block (t_buf t) (int (at_used a)) (v @ [NUL]) = Some b"
proof -
  have l: "length (t_buf t) = B" "t_buf_loc t = int (at_used a)" using r by (auto simp: rep_def)
  obtain b where b: "wr_block (t_buf t) (int (at_used a)) (v @ [NUL]) = Some b" using l n by (simp add: wr_block_nat)
  have "task_write t v NUL = Some (int (at_used a), t\<lparr>t_buf := b, t_buf_loc := int n\<rparr>)"
    using b l n by (simp add: task_write_def)
  then show ?thesis using that b rep_write [OF r b, of n] str_in_new [OF b v] n by simp
qed

lemma write_string_None: "rep B V t a e \<Longrightarrow> B < at_used a + length v + 1 \<Longrightarrow> task_write t v c = None"
  by (simp add: task_write_eq)

lemma get_pointer:
  assumes r: "rep B V t a e" and "cstring v" and "at_used a + length v + 1 \<le> B"
  obtains t' where "task_write (t\<lparr>t_cmd := Some (t_buf_loc t)\<rparr>) v NUL = Some (t_buf_loc t, t'\<lparr>t_cmd := Some (t_buf_loc t)\<rparr>)"
    and "task_write (t\<lparr>t_dir := Some (t_buf_loc t)\<rparr>) v NUL = Some (t_buf_loc t, t'\<lparr>t_dir := Some (t_buf_loc t)\<rparr>)"
    and "task_write (t\<lparr>t_wait := Some (t_buf_loc t)\<rparr>) v NUL = Some (t_buf_loc t, t'\<lparr>t_wait := Some (t_buf_loc t)\<rparr>)"
    and "rep B V t' (a\<lparr>at_used := at_used a + length v + 1\<rparr>) e"
    and "str_in (t_buf t') (at_used a + length v + 1) (t_buf_loc t) v"
proof -
  obtain b where "task_write t v NUL = Some (int (at_used a), t\<lparr>t_buf := b, t_buf_loc := int (at_used a + length v + 1)\<rparr>)"
    "rep B V (t\<lparr>t_buf := b, t_buf_loc := int (at_used a + length v + 1)\<rparr>) (a\<lparr>at_used := at_used a + length v + 1\<rparr>) e"
    "str_in b (at_used a + length v + 1) (int (at_used a)) v" "wr_block (t_buf t) (int (at_used a)) (v @ [NUL]) = Some b"
    using write_string [OF assms(1,2) refl assms(3)] by metis
  moreover have "t_buf_loc t = int (at_used a)" using r by (simp add: rep_def)
  ultimately show ?thesis using that [of "t\<lparr>t_buf := b, t_buf_loc := int (at_used a + length v + 1)\<rparr>"]
    by (simp add: task_write_def)
qed

text \<open>A variable: its name, the equals sign and its value make one string.\<close>

lemma get_variable:
  assumes r: "rep B V t a 0" and k: "cstring k" "cstring v" and fit: "at_used a + length k + length v + 2 \<le> B" "length (at_env a) < V"
  defines "n \<equiv> at_used a + length k + length v + 2"
  shows "\<exists>t'. rep B V t' (a\<lparr>at_used := n, at_env := at_env a @ [k @ ''='' @ v]\<rparr>) 0
    \<and> (do { (p, t1) \<leftarrow> task_write t k CHR ''=''; vs \<leftarrow> wr (t_vars t1) (t_var_count t1) (Some p);
            (_, t2) \<leftarrow> task_write (t1\<lparr>t_vars := vs, t_var_count := t_var_count t1 + 1\<rparr>) v NUL; Some t2 }) = Some t'"
proof -
  let ?s = "k @ ''='' @ v" and ?u = "at_used a"
  have s: "cstring ?s" "n = ?u + length ?s + 1" using k by (auto simp: cstring_def n_def)
  obtain b where b: "rep B V (t\<lparr>t_buf := b, t_buf_loc := int n\<rparr>) (a\<lparr>at_used := n\<rparr>) 0" "str_in b n (int ?u) ?s"
    "wr_block (t_buf t) (int ?u) (?s @ [NUL]) = Some b"
    using write_string [OF r s] fit by (metis n_def)
  have rr: "t_buf_loc t = int ?u" "t_var_count t = int (length (at_env a))" "length (t_vars t) = V" "?u \<le> length (t_buf t)"
    using r by (auto simp: rep_def)
  have "wr_block (t_buf t) (int ?u) ((k @ ''='') @ (v @ [NUL])) = Some b" using b(3) by simp
  then obtain b1 where b1: "wr_block (t_buf t) (int ?u) (k @ ''='') = Some b1"
    "wr_block b1 (int (?u + length (k @ ''=''))) (v @ [NUL]) = Some b"
    unfolding wr_block_append [OF rr(4)] by (auto split: bind_splits)
  let ?t' = "(t\<lparr>t_buf := b, t_buf_loc := int n\<rparr>)\<lparr>t_vars := (t_vars t)[length (at_env a) := Some (int ?u)],
      t_var_count := int (length (at_env a)) + 1\<rparr>"
  have "rep B V ((t\<lparr>t_buf := b, t_buf_loc := int n\<rparr>)\<lparr>t_vars := (t_vars t)[length (at_env a) := Some (int ?u)],
      t_var_count := int (length (at_env a)) + 1\<rparr>) (a\<lparr>at_used := n, at_env := at_env a @ [?s]\<rparr>) 0"
    using rep_env [OF b(1), of "int ?u" ?s "int (length (at_env a)) + 1" 0] b(2) fit(2) by simp
  moreover have "wr_block b1 (int ?u + int (length k) + 1) (v @ [NUL]) = Some b" using b1(2) by (simp add: algebra_simps)
  moreover have "int n = int ?u + int (length k) + 1 + int (length v) + 1" by (simp add: n_def)
  ultimately show ?thesis using b1(1) rr fit(2) by (intro exI [of _ ?t'] conjI) (simp_all add: task_write_def)
qed

lemma workspace_task_get_rep:
  assumes r: "rep B V t a 0" and c: "cstring k" "cstring v" and fit: "fits_in B V (abs_get a (sec, k, v))"
  shows "\<exists>t'. workspace_task_get t sec k v = Some t' \<and> rep B V t' (abs_get a (sec, k, v)) 0"
proof -
  note name = rep_name [OF r]
  consider "sec \<noteq> at_name a" | "sec = at_name a" "k \<in> {''cmd'', ''dir'', ''wait''}"
    | "sec = at_name a" "k \<notin> {''cmd'', ''dir'', ''wait''}" by blast
  then show ?thesis
  proof cases
    case 1
    then show ?thesis using r name by (simp add: workspace_task_get_def abs_get_def strcmp_eq_def)
  next
    case 2
    then have "at_used a + length v + 1 \<le> B" using fit by (auto simp: fits_in_def abs_get_def)
    then obtain t' where t': "task_write (t\<lparr>t_cmd := Some (t_buf_loc t)\<rparr>) v NUL = Some (t_buf_loc t, t'\<lparr>t_cmd := Some (t_buf_loc t)\<rparr>)"
      "task_write (t\<lparr>t_dir := Some (t_buf_loc t)\<rparr>) v NUL = Some (t_buf_loc t, t'\<lparr>t_dir := Some (t_buf_loc t)\<rparr>)"
      "task_write (t\<lparr>t_wait := Some (t_buf_loc t)\<rparr>) v NUL = Some (t_buf_loc t, t'\<lparr>t_wait := Some (t_buf_loc t)\<rparr>)"
      "rep B V t' (a\<lparr>at_used := at_used a + length v + 1\<rparr>) 0" "str_in (t_buf t') (at_used a + length v + 1) (t_buf_loc t) v"
      using get_pointer [OF r c(2)] by metis
    then show ?thesis using 2 name
      by (auto simp: workspace_task_get_def abs_get_def strcmp_eq_def rep_def)
  next
    case 3
    then have fit': "at_used a + length k + length v + 2 \<le> B" "length (at_env a) < V"
      using fit by (auto simp: fits_in_def abs_get_def)
    obtain t' where "rep B V t' (abs_get a (sec, k, v)) 0" "(do { (p, t1) \<leftarrow> task_write t k CHR ''='';
        vs \<leftarrow> wr (t_vars t1) (t_var_count t1) (Some p);
        (_, t2) \<leftarrow> task_write (t1\<lparr>t_vars := vs, t_var_count := t_var_count t1 + 1\<rparr>) v NUL; Some t2 }) = Some t'"
      using get_variable [OF r c fit'] 3 by (auto simp: abs_get_def)
    then show ?thesis using 3 name
      by (auto simp: workspace_task_get_def strcmp_eq_def split: bind_splits)
  qed
qed

lemma abs_get_mono: "at_used a \<le> at_used (abs_get a ev)" "length (at_env a) \<le> length (at_env (abs_get a ev))"
  by (auto simp: abs_get_def split: prod.splits)

lemma foldl_abs_get_mono:
  "at_used a \<le> at_used (foldl abs_get a evs) \<and> length (at_env a) \<le> length (at_env (foldl abs_get a evs))"
  by (induction evs arbitrary: a) (auto intro: order_trans [OF abs_get_mono(1)] order_trans [OF abs_get_mono(2)])

lemma foldl_abs_get_name: "at_name (foldl abs_get a evs) = at_name a"
proof (induction evs arbitrary: a)
  case (Cons ev evs)
  have "at_name (abs_get a ev) = at_name a" by (auto simp: abs_get_def split: prod.splits)
  then show ?case using Cons by simp
qed simp

lemma run_calls_rep:
  assumes "rep B V t a 0" and "\<And>s k v. (s, k, v) \<in> set evs \<Longrightarrow> cstring k \<and> cstring v" and "fits_in B V (foldl abs_get a evs)"
  shows "\<exists>t'. run_calls workspace_task_get t evs = Some t' \<and> rep B V t' (foldl abs_get a evs) 0"
  using assms
proof (induction evs arbitrary: t a)
  case (Cons ev evs)
  obtain s k v where ev: "ev = (s, k, v)" by (cases ev)
  have "fits_in B V (abs_get a ev)"
    using Cons.prems(3) foldl_abs_get_mono [of "abs_get a ev" evs] by (auto simp: fits_in_def)
  then obtain t1 where "workspace_task_get t s k v = Some t1" "rep B V t1 (abs_get a ev) 0"
    using workspace_task_get_rep [OF Cons.prems(1), of k v s] Cons.prems(2) ev by auto
  then show ?case using Cons.IH [of t1 "abs_get a ev"] Cons.prems ev by auto
qed simp

text \<open>The environment strings of a request.\<close>

definition add_env :: "atask \<Rightarrow> string \<Rightarrow> atask" where
  "add_env a s = a\<lparr>at_used := at_used a + length s + 1, at_env := at_env a @ [s]\<rparr>"

lemma add_env_sel [simp]:
  "at_used (add_env a s) = at_used a + length s + 1" "at_env (add_env a s) = at_env a @ [s]"
  "at_cmd (add_env a s) = at_cmd a" "at_dir (add_env a s) = at_dir a" "at_wait (add_env a s) = at_wait a"
  "at_name (add_env a s) = at_name a"
  by (simp_all add: add_env_def)

lemma foldl_add_env_used: "at_used a \<le> at_used (foldl add_env a es)"
proof (induction es arbitrary: a)
  case (Cons s es)
  show ?case using Cons.IH [of "add_env a s"] by simp
qed simp

lemma foldl_add_env [simp]:
  "at_env (foldl add_env a es) = at_env a @ es" "at_cmd (foldl add_env a es) = at_cmd a"
  "at_dir (foldl add_env a es) = at_dir a" "at_wait (foldl add_env a es) = at_wait a"
  "at_name (foldl add_env a es) = at_name a"
  by (induction es arbitrary: a) simp_all

lemma apply_envs_rep:
  assumes "rep B V t a (length es0)" and "\<And>s. s \<in> set es \<Longrightarrow> cstring s" and "fits_in B V (foldl add_env a es)"
  shows "\<exists>t'. apply_envs (map Some es0 @ map Some es @ None # r) (int (length es0)) t = Some t'
    \<and> rep B V t' (foldl add_env a es) (length es0 + length es)"
  using assms
proof (induction es arbitrary: t a es0)
  case Nil
  then show ?case by (subst apply_envs.simps) (simp add: rd_nat nth_append)
next
  case (Cons s es)
  let ?envs = "map Some es0 @ map Some (s # es) @ None # r" and ?n = "at_used a + length s + 1"
  have fit: "?n \<le> B" "length (at_env a) < V"
    using Cons.prems(3) foldl_add_env_used [of "add_env a s" es] by (auto simp: fits_in_def)
  obtain b where b: "task_write t s NUL = Some (int (at_used a), t\<lparr>t_buf := b, t_buf_loc := int ?n\<rparr>)"
    "rep B V (t\<lparr>t_buf := b, t_buf_loc := int ?n\<rparr>) (a\<lparr>at_used := ?n\<rparr>) (length es0)" "str_in b ?n (int (at_used a)) s"
    using write_string [OF Cons.prems(1) _ refl fit(1)] Cons.prems(2) by (metis list.set_intros(1))
  have vc: "int (length es0) + t_var_count t = int (length (at_env a))" "length (t_vars t) = V"
    using Cons.prems(1) by (auto simp: rep_def)
  let ?t1 = "(t\<lparr>t_buf := b, t_buf_loc := int ?n\<rparr>)\<lparr>t_vars := (t_vars t)[length (at_env a) := Some (int (at_used a))]\<rparr>"
  have "rep B V ((t\<lparr>t_buf := b, t_buf_loc := int ?n\<rparr>)\<lparr>t_vars := (t_vars t)[length (at_env a) := Some (int (at_used a))],
      t_var_count := t_var_count t\<rparr>) (a\<lparr>at_used := ?n, at_env := at_env a @ [s]\<rparr>) (Suc (length es0))"
    using rep_env [OF b(2), of "int (at_used a)" s "t_var_count t" "Suc (length es0)"] b(3) fit(2) vc by simp
  then have r1: "rep B V ?t1 (add_env a s) (length (es0 @ [s]))" by (simp add: add_env_def)
  have "apply_envs ?envs (int (length es0)) t = apply_envs ?envs (int (length (es0 @ [s]))) ?t1"
    using b(1) vc fit(2) by (subst apply_envs.simps) (simp add: nth_append wr_def add.commute)
  then show ?case using Cons.IH [OF r1] Cons.prems by (simp add: add.commute)
qed

lemma env_strings_append:
  "list_all2 (\<lambda>p s. rel_option (str_in buf n) p (Some s)) ps ss \<Longrightarrow>
    env_strings buf (ps @ qs) = map_option (\<lambda>r. ss @ r) (env_strings buf qs)"
proof (induction ps ss rule: list_all2_induct)
  case Nil
  then show ?case by (simp add: option.map_ident)
next
  case (Cons p ps s ss)
  then obtain q where "p = Some q" "cstr_at buf q = Some s" by (cases p) (auto simp: str_in_cstr)
  then show ?case using Cons by (cases "env_strings buf qs") simp_all
qed

lemma child_exec_rep:
  assumes r: "rep B V t a e" and c: "at_cmd a = Some cmd"
  shows "child_exec cfg t =
    (if length (at_env a) < V
     then Some \<lparr>ch_argv = [cmd_bin_path (general (c_settings cfg)), ''-c'', cmd], ch_dir = at_dir a, ch_env = at_env a\<rparr>
     else None)"
proof -
  let ?n = "length (at_env a)"
  have "env_strings (t_buf t) (take ?n (t_vars t) @ drop ?n (t_vars t)) =
      map_option (\<lambda>r. at_env a @ r) (env_strings (t_buf t) (replicate (V - ?n) None))"
    using r by (subst env_strings_append) (auto simp: rep_def)
  moreover have "env_strings (t_buf t) (replicate (V - ?n) None) = (if ?n < V then Some [] else None)"
    by (cases "V - ?n") auto
  ultimately have env: "env_strings (t_buf t) (t_vars t) = (if ?n < V then Some (at_env a) else None)"
    unfolding append_take_drop_id by simp
  have "task_str t (t_cmd t) = Some cmd"
    using r c by (cases "t_cmd t") (auto simp: rep_def task_str_def str_in_cstr)
  moreover have "(case t_dir t of None \<Rightarrow> Some None | Some p \<Rightarrow> map_option Some (cstr_at (t_buf t) p)) = Some (at_dir a)"
    using r by (cases "t_dir t"; cases "at_dir a") (auto simp: rep_def str_in_cstr)
  ultimately show ?thesis using env by (simp add: child_exec_def)
qed

section \<open>From a workspace file to a task\<close>

definition spec_ok :: "ini_spec \<Rightarrow> bool" where
  "spec_ok s \<longleftrightarrow> cstring (fst s) \<and> (\<forall>k v. snd s = Some (k, v) \<longrightarrow> cstring k \<and> cstring v)"

lemma line_next_ok: "spec_ok s \<Longrightarrow> line_ok l \<Longrightarrow> spec_ok (line_next l s)"
  by (cases l; cases "snd s") (auto simp: spec_ok_def line_ok_def cstring_def join_def NL_def split: if_splits)

lemma line_calls_ok: "spec_ok s \<Longrightarrow> (sec, k, v) \<in> set (line_calls l s) \<union> set (flush s) \<Longrightarrow> cstring k \<and> cstring v"
  by (cases l; cases "snd s") (auto simp: spec_ok_def flush_def split: prod.splits option.splits)

lemma doc_calls_ok: "doc_ok ls s \<Longrightarrow> spec_ok s \<Longrightarrow> (sec, k, v) \<in> set (doc_calls ls s) \<Longrightarrow> cstring k \<and> cstring v"
proof (induction ls arbitrary: s)
  case Nil
  then show ?case using line_calls_ok [of s sec k v] by simp
next
  case (Cons l ls)
  then show ?case using line_calls_ok [of s sec k v l] line_next_ok [of s l] Cons.IH [of "line_next l s"] by auto
qed

definition new_atask :: "string \<Rightarrow> atask" where
  "new_atask name = \<lparr>at_name = name, at_cmd = None, at_dir = None, at_wait = None, at_env = [], at_used = length name + 1\<rparr>"

abbreviation buf_cap :: "Config \<Rightarrow> nat" where
  "buf_cap cfg \<equiv> nat (task_buf_size (general (c_settings cfg)))"

abbreviation var_cap :: "Config \<Rightarrow> nat" where
  "var_cap cfg \<equiv> nat (task_var_max_count (general (c_settings cfg)))"

lemma new_task_rep:
  assumes "cstring name" and "length name + 1 \<le> buf_cap cfg"
  obtains t1 where "task_write (zero_task cfg) name NUL = Some (0, t1)"
    and "rep (buf_cap cfg) (var_cap cfg) (t1\<lparr>t_name := Some 0\<rparr>) (new_atask name) 0"
proof -
  let ?z = "replicate (buf_cap cfg) NUL"
  obtain b where b: "wr_block ?z (int 0) (name @ [NUL]) = Some b"
    using assms(2) wr_block_nat [of ?z 0 "name @ [NUL]"] by auto
  then have "task_write (zero_task cfg) name NUL = Some (0, (zero_task cfg)\<lparr>t_buf := b, t_buf_loc := int (length name) + 1\<rparr>)"
    by (simp add: task_write_def zero_task_def)
  moreover have "str_in b (length name + 1) 0 name" using str_in_new [OF b assms(1)] by simp
  ultimately show ?thesis using that assms wr_block_length [OF b]
    by (simp add: rep_def new_atask_def zero_task_def)
qed

text \<open>The task a name stands for in a workspace file, with the request's environment.\<close>

definition task_of :: "ini_line list \<Rightarrow> string \<Rightarrow> string list \<Rightarrow> atask" where
  "task_of ls name es = foldl add_env (foldl abs_get (new_atask name) (doc_calls ls ([], None))) es"

lemma parse_task_rep:
  assumes doc: "doc_ok ls ([], None)" and name: "cstring name"
    and fit: "fits_in (buf_cap cfg) (var_cap cfg) (foldl abs_get (new_atask name) (doc_calls ls ([], None)))"
    and ws: "cstr_at (sv_workspace server) 0 = Some path" "fopen path = Some (render_doc ls)"
  obtains t1 t2 where "task_write (zero_task cfg) name NUL = Some (0, t1)"
    and "get_from_ws fopen server workspace_task_get (t1\<lparr>t_name := Some 0\<rparr>) = Some (0, t2)"
    and "rep (buf_cap cfg) (var_cap cfg) t2 (foldl abs_get (new_atask name) (doc_calls ls ([], None))) 0"
proof -
  have "length name + 1 \<le> buf_cap cfg"
    using fit foldl_abs_get_mono [of "new_atask name" "doc_calls ls ([], None)"] by (simp add: fits_in_def new_atask_def)
  then obtain t1 where t1: "task_write (zero_task cfg) name NUL = Some (0, t1)"
    "rep (buf_cap cfg) (var_cap cfg) (t1\<lparr>t_name := Some 0\<rparr>) (new_atask name) 0"
    using new_task_rep [OF name] by blast
  have "cstring k \<and> cstring v" if "(s, k, v) \<in> set (doc_calls ls ([], None))" for s k v
    using doc_calls_ok [OF doc _ that] by (simp add: spec_ok_def cstring_def)
  then obtain t2 where t2: "run_calls workspace_task_get (t1\<lparr>t_name := Some 0\<rparr>) (doc_calls ls ([], None)) = Some t2"
    "rep (buf_cap cfg) (var_cap cfg) t2 (foldl abs_get (new_atask name) (doc_calls ls ([], None))) 0"
    using run_calls_rep [OF t1(2) _ fit] by blast
  have "ini_parse (Some (render_doc ls)) (Some workspace_task_get) (t1\<lparr>t_name := Some 0\<rparr>) = Some (INI_OK, t2)"
    using ini_parse_doc [OF doc, of workspace_task_get] t2(1) by simp
  then show ?thesis using that t1(1) t2(2) ws by (simp add: get_from_ws_def)
qed

lemma put_task_view:
  assumes "slots_ok (sv_task_store server)" and "slots_view (sv_task_store server) key = Some t0"
  obtains st where "put_task server key t = Some (server\<lparr>sv_task_store := st\<rparr>)" and "slots_ok st"
    and "slots_view st = (slots_view (sv_task_store server))(key \<mapsto> t)" and "sl_capacity st = sl_capacity (sv_task_store server)"
  using slots_replace_view [OF assms, of t] that by (auto simp: put_task_def)

lemma drop_task_view:
  assumes "slots_ok (sv_task_store server)" and "slots_view (sv_task_store server) key = Some t0"
  obtains st where "drop_task server key = Some (server\<lparr>sv_task_store := st\<rparr>)" and "slots_ok st"
    and "slots_view st = (slots_view (sv_task_store server))(key := None)" and "sl_capacity st = sl_capacity (sv_task_store server)"
  using slots_remove_view [OF assms] that by (auto simp: drop_task_def)

text \<open>The store around \<open>get_task\<close>: what is kept of the new task decides between two outcomes.\<close>

lemma get_task_steps:
  assumes ok: "slots_ok (sv_task_store server)" "0 < sl_open_cnt (sv_task_store server)"
    and tw: "task_write (zero_task cfg) name NUL = Some (p, t1)"
    and ws: "\<And>st. get_from_ws fopen (server\<lparr>sv_task_store := st\<rparr>) workspace_task_get (t1\<lparr>t_name := Some p\<rparr>) = Some (status, t2)"
  shows "status \<noteq> 0 \<or> t_cmd t2 = None \<Longrightarrow>
      \<exists>st. get_task fopen cfg (Some name) envs server = Some (None, server\<lparr>sv_task_store := st\<rparr>)
        \<and> slots_ok st \<and> slots_view st = slots_view (sv_task_store server)"
    and "status = 0 \<Longrightarrow> t_cmd t2 \<noteq> None \<Longrightarrow>
      (case envs of None \<Rightarrow> Some t2 | Some es \<Rightarrow> apply_envs es 0 t2) = Some t3 \<Longrightarrow>
      \<exists>key st. get_task fopen cfg (Some name) envs server = Some (Some key, server\<lparr>sv_task_store := st\<rparr>)
        \<and> slots_ok st \<and> slots_view (sv_task_store server) key = None
        \<and> slots_view st = (slots_view (sv_task_store server))(key \<mapsto> t3)"
proof -
  obtain key st1 where p1: "slots_push (sv_task_store server) (zero_task cfg) = Some (Some key, st1)" "slots_ok st1"
    "slots_view (sv_task_store server) key = None"
    "slots_view st1 = (slots_view (sv_task_store server))(key \<mapsto> zero_task cfg)"
    using slots_push_view [OF ok, of "zero_task cfg"] by metis
  let ?s1 = "server\<lparr>sv_task_store := st1\<rparr>"
  obtain st2 where p2: "put_task ?s1 key t2 = Some (server\<lparr>sv_task_store := st2\<rparr>)" "slots_ok st2"
    "slots_view st2 = (slots_view (sv_task_store server))(key \<mapsto> t2)"
    using put_task_view [of ?s1 key "zero_task cfg" t2] p1 by auto
  {
    assume "status \<noteq> 0 \<or> t_cmd t2 = None"
    moreover obtain st3 where "drop_task (server\<lparr>sv_task_store := st2\<rparr>) key = Some (server\<lparr>sv_task_store := st3\<rparr>)" "slots_ok st3"
      "slots_view st3 = slots_view (sv_task_store server)"
      using drop_task_view [of "server\<lparr>sv_task_store := st2\<rparr>" key t2] p2 p1(3) by (auto simp: fun_upd_idem)
    ultimately show "\<exists>st. get_task fopen cfg (Some name) envs server = Some (None, server\<lparr>sv_task_store := st\<rparr>)
        \<and> slots_ok st \<and> slots_view st = slots_view (sv_task_store server)"
      using p1 p2 tw ws by (auto simp: get_task_def Let_def)
  }
  assume "status = 0" "t_cmd t2 \<noteq> None" and t3: "(case envs of None \<Rightarrow> Some t2 | Some es \<Rightarrow> apply_envs es 0 t2) = Some t3"
  moreover obtain st3 where "put_task (server\<lparr>sv_task_store := st2\<rparr>) key t3 = Some (server\<lparr>sv_task_store := st3\<rparr>)" "slots_ok st3"
    "slots_view st3 = (slots_view (sv_task_store server))(key \<mapsto> t3)"
    using put_task_view [of "server\<lparr>sv_task_store := st2\<rparr>" key t2 t3] p2 by auto
  ultimately show "\<exists>key st. get_task fopen cfg (Some name) envs server = Some (Some key, server\<lparr>sv_task_store := st\<rparr>)
        \<and> slots_ok st \<and> slots_view (sv_task_store server) key = None
        \<and> slots_view st = (slots_view (sv_task_store server))(key \<mapsto> t3)"
    using p1 p2 tw ws by (auto simp: get_task_def Let_def)
qed

section \<open>Launching and waiting on the views\<close>

abbreviation name_cap :: "Config \<Rightarrow> nat" where
  "name_cap cfg \<equiv> nat (task_name_size (general (c_settings cfg)))"

definition launch_ready :: "launch_env \<Rightarrow> bool" where
  "launch_ready le \<longleftrightarrow> le_out_pipe le \<noteq> None \<and> le_out_nonblock le \<and> le_err_pipe le \<noteq> None \<and> le_err_nonblock le \<and> 0 \<le> le_fork le"

text \<open>A task as it stands in the store: named, and with readable strings.\<close>

definition task_named :: "Config \<Rightarrow> Task \<Rightarrow> string \<Rightarrow> string option \<Rightarrow> bool" where
  "task_named cfg t name w \<longleftrightarrow> task_str t (t_name t) = Some name \<and> length name < name_cap cfg
     \<and> (case t_wait t of None \<Rightarrow> w = None | Some p \<Rightarrow> cstr_at (t_buf t) p = w \<and> w \<noteq> None)"

definition proc_name :: "TaskProcess \<Rightarrow> string option" where
  "proc_name p = cstr_at (p_task_name p) 0"

lemma new_process_name:
  assumes "cstring name" and "length name < name_cap cfg"
  obtains p where "new_process cfg le ofd efd name = Some p" and "proc_name p = Some name" and "p_pid p = le_fork le"
    and "p_out_fd_r p = ofd" and "p_err_fd_r p = efd"
proof -
  let ?n = "name_cap cfg"
  have z: "replicate ?n NUL = replicate (length name) NUL @ NUL # replicate (?n - length name - 1) NUL"
    using assms(2) by (metis Suc_diff_Suc diff_diff_left le_add_diff_inverse less_imp_le_nat plus_1_eq_Suc
        add.commute replicate_Suc replicate_add)
  have "wr_block (replicate ?n NUL) (int 0) name = Some (name @ NUL # replicate (?n - length name - 1) NUL)"
    unfolding z by (simp add: wr_block_0)
  then have "new_process cfg le ofd efd name = Some \<lparr>p_start_time = le_time le, p_pid = le_fork le,
      p_task_name = name @ NUL # replicate (?n - length name - 1) NUL, p_out_fd_r = ofd, p_err_fd_r = efd\<rparr>"
    by (simp add: new_process_def zero_process_def)
  moreover have "cstr_at (name @ NUL # replicate (?n - length name - 1) NUL) 0 = Some name"
    using cstr_at_append [OF assms(1), of "[]"] by simp
  ultimately show ?thesis using that by (simp add: proc_name_def)
qed

lemma task_str_cstring: "task_str t p = Some s \<Longrightarrow> cstring s"
  by (cases p) (auto simp: task_str_def cstr_at_cstring)

lemma launch_refused:
  "\<not> launch_ready le \<or> sl_open_cnt (sv_process_store server) < 1 \<Longrightarrow> server_task_launch cfg le server (Some t) = Some (-1, server, [])"
  by (auto simp: server_task_launch_def launch_ready_def split: option.split)

lemma launch_done:
  assumes "launch_ready le" and ok: "slots_ok (sv_process_store server)" "1 \<le> sl_open_cnt (sv_process_store server)"
    and t: "task_named cfg t name w"
  obtains k p ps where "server_task_launch cfg le server (Some t) =
      Some (0, server\<lparr>sv_process_store := ps\<rparr>, [Ev_spawn (le_fork le) (child_exec cfg t)])"
    and "slots_ok ps" and "slots_view (sv_process_store server) k = None"
    and "slots_view ps = (slots_view (sv_process_store server))(k \<mapsto> p)" and "proc_name p = Some name" and "p_pid p = le_fork le"
    and "sl_capacity ps = sl_capacity (sv_process_store server)"
proof -
  obtain o1 o2 e1 e2 where le: "le_out_pipe le = Some (o1, o2)" "le_err_pipe le = Some (e1, e2)" "le_out_nonblock le"
    "le_err_nonblock le" "0 \<le> le_fork le"
    using assms(1) by (auto simp: launch_ready_def)
  have name: "task_str t (t_name t) = Some name" "length name < name_cap cfg" "cstring name"
    using t task_str_cstring by (auto simp: task_named_def)
  obtain p where p: "new_process cfg le o1 e1 name = Some p" "proc_name p = Some name" "p_pid p = le_fork le"
    using new_process_name [OF name(3,2)] by metis
  obtain k ps where "slots_push (sv_process_store server) p = Some (Some k, ps)" "slots_ok ps"
    "slots_view (sv_process_store server) k = None" "slots_view ps = (slots_view (sv_process_store server))(k \<mapsto> p)"
    "sl_capacity ps = sl_capacity (sv_process_store server)"
    using slots_push_view [OF ok(1), of p] ok(2) by auto
  then show ?thesis using that [of ps k p] le name p ok(2) by (simp add: server_task_launch_def)
qed

lemma wait_loop_eq:
  assumes "slots_ok st" and "int n \<le> sl_capacity st"
    and "\<And>i p. slots_view st i = Some p \<Longrightarrow> proc_name p \<noteq> None"
  shows "wait_loop st w n = Some (\<exists>i < n. \<exists>p. slots_view st (int i) = Some p \<and> proc_name p = Some w)"
  using assms(2)
proof (induction n)
  case (Suc n)
  have g: "slots_get st (int n) = Some (slots_view st (int n))"
    using assms(1) Suc.prems by (intro slots_get_view) (auto simp: in_range_def)
  show ?case
  proof (cases "slots_view st (int n)")
    case None
    then show ?thesis using g Suc by (auto simp: less_Suc_eq)
  next
    case (Some p)
    then obtain nm where "proc_name p = Some nm" using assms(3) by blast
    then show ?thesis using g Suc Some by (auto simp: less_Suc_eq strcmp_eq_def proc_name_def)
  qed
qed simp

text \<open>Which waiting tasks the completion of a task releases: those without a wait, and those whose
  wait has the completed name as a prefix.\<close>

definition released :: "string \<Rightarrow> string option \<Rightarrow> bool" where
  "released c w \<longleftrightarrow> (case w of None \<Rightarrow> True | Some s \<Rightarrow> \<exists>x. s = c @ x)"

lemma queue_match_eq:
  assumes "task_named cfg t name w"
  shows "queue_match t c (int (length c)) = Some (released c w)"
proof -
  have "(\<exists>x. s = c @ x) \<longleftrightarrow> take (length c) s = c" for s by (metis append_eq_conv_conj append_take_drop_id)
  then show ?thesis using assms
    by (auto simp: queue_match_def task_named_def released_def strncmp_eq_def split: option.splits)
qed

definition tasks_named :: "Config \<Rightarrow> Server \<Rightarrow> bool" where
  "tasks_named cfg server \<longleftrightarrow> (\<forall>i t. slots_view (sv_task_store server) i = Some t \<longrightarrow> (\<exists>name w. task_named cfg t name w))"

text \<open>\<open>releases c server i t\<close>: the task in slot \<open>i\<close> is one the completion of \<open>c\<close> releases.\<close>

definition releases :: "string \<Rightarrow> Server \<Rightarrow> int \<Rightarrow> Task \<Rightarrow> bool" where
  "releases c server i t \<longleftrightarrow> slots_view (sv_task_store server) i = Some t \<and> queue_match t c (int (length c)) = Some True"

lemma queue_loop_skip:
  assumes ok: "slots_ok (sv_task_store server)" "tasks_named cfg server" "int n \<le> sl_capacity (sv_task_store server)"
    and none: "\<And>j t. m \<le> j \<Longrightarrow> j < n \<Longrightarrow> \<not> releases c server (int j) t" and "m \<le> n"
  shows "queue_loop cfg le server c (int (length c)) n = queue_loop cfg le server c (int (length c)) m"
  using assms(3-)
proof (induction n)
  case (Suc n)
  show ?case
  proof (cases "m = Suc n")
    case False
    have g: "slots_get (sv_task_store server) (int n) = Some (slots_view (sv_task_store server) (int n))"
      using ok(1) Suc.prems(1) by (intro slots_get_view) (auto simp: in_range_def)
    have IH: "queue_loop cfg le server c (int (length c)) n = queue_loop cfg le server c (int (length c)) m"
      using Suc False by auto
    show ?thesis
    proof (cases "slots_view (sv_task_store server) (int n)")
      case None
      then show ?thesis using g IH by simp
    next
      case (Some t)
      then obtain name w where "task_named cfg t name w" using ok(2) unfolding tasks_named_def by blast
      then have "queue_match t c (int (length c)) = Some False"
        using queue_match_eq [of cfg t name w c] Suc.prems(2) [of n t] Suc.prems(3) False Some
        by (cases "released c w") (auto simp: releases_def)
      then show ?thesis using g IH Some by simp
    qed
  qed simp
qed simp

lemma queue_loop_hit:
  assumes ok: "slots_ok (sv_task_store server)" "int n < sl_capacity (sv_task_store server)" and hit: "releases c server (int n) t"
  shows "queue_loop cfg le server c (int (length c)) (Suc n) =
    do { (status, server1, evs) \<leftarrow> server_task_launch cfg le server (Some t);
         (if status \<noteq> 0 then Some (-1, server1, evs)
          else do { server2 \<leftarrow> drop_task server1 (int n); Some (0, server2, evs) }) }"
proof -
  have "slots_get (sv_task_store server) (int n) = Some (Some t)"
    using ok hit slots_get_view [of "sv_task_store server" "int n"] by (auto simp: in_range_def releases_def)
  then show ?thesis using hit by (simp add: releases_def)
qed

lemma get_task_of_file:
  assumes "slots_ok (sv_task_store server)" and "0 < sl_open_cnt (sv_task_store server)"
    and "cstr_at (sv_workspace server) 0 = Some path" and "fopen path = Some (render_doc ls)" and "doc_ok ls ([], None)"
    and "cstring name" and "\<And>s. s \<in> set es \<Longrightarrow> cstring s"
    and "fits_in (buf_cap cfg) (var_cap cfg) (task_of ls name es)"
  shows "(at_cmd (task_of ls name es) = None \<longrightarrow>
      (\<exists>st. get_task fopen cfg (Some name) (Some (map Some es @ None # r)) server = Some (None, server\<lparr>sv_task_store := st\<rparr>)
        \<and> slots_ok st \<and> slots_view st = slots_view (sv_task_store server)))
    \<and> (\<forall>cmd. at_cmd (task_of ls name es) = Some cmd \<longrightarrow>
      (\<exists>key t st. get_task fopen cfg (Some name) (Some (map Some es @ None # r)) server = Some (Some key, server\<lparr>sv_task_store := st\<rparr>)
        \<and> slots_ok st \<and> slots_view (sv_task_store server) key = None
        \<and> slots_view st = (slots_view (sv_task_store server))(key \<mapsto> t)
        \<and> task_str t (t_name t) = Some name \<and> task_str t (t_wait t) = at_wait (task_of ls name es) \<and> (t_wait t = None) = (at_wait (task_of ls name es) = None)
        \<and> child_exec cfg t =
            (if length (at_env (task_of ls name es)) < var_cap cfg
             then Some \<lparr>ch_argv = [cmd_bin_path (general (c_settings cfg)), ''-c'', cmd],
                    ch_dir = at_dir (task_of ls name es), ch_env = at_env (task_of ls name es)\<rparr>
             else None)))"
proof -
  define a where "a = foldl abs_get (new_atask name) (doc_calls ls ([], None))"
  have an: "at_name a = name" by (simp add: a_def foldl_abs_get_name) (simp add: new_atask_def)
  have fit: "fits_in (buf_cap cfg) (var_cap cfg) a" "fits_in (buf_cap cfg) (var_cap cfg) (foldl add_env a es)"
    using assms(8) foldl_add_env_used [of a es] by (auto simp: fits_in_def task_of_def a_def)
  obtain t1 t2 where t1: "task_write (zero_task cfg) name NUL = Some (0, t1)"
    and ws: "\<And>st. get_from_ws fopen (server\<lparr>sv_task_store := st\<rparr>) workspace_task_get (t1\<lparr>t_name := Some 0\<rparr>) = Some (0, t2)"
    and t2: "rep (buf_cap cfg) (var_cap cfg) t2 a 0"
    using parse_task_rep [where fopen = fopen and path = path, OF assms(5,6) fit(1) [unfolded a_def] assms(3,4)] by (auto simp: get_from_ws_def a_def)
  obtain t3 where t3: "apply_envs (map Some es @ None # r) 0 t2 = Some t3"
    "rep (buf_cap cfg) (var_cap cfg) t3 (foldl add_env a es) (length es)"
    using apply_envs_rep [of "buf_cap cfg" "var_cap cfg" t2 a "[]" es r] t2 assms(7) fit(2) by auto
  have cmd: "(t_cmd t2 = None) = (at_cmd a = None)" using t2 by (cases "t_cmd t2"; cases "at_cmd a") (auto simp: rep_def)
  have wait: "task_str t3 (t_wait t3) = at_wait a"
    using t3(2) by (cases "t_wait t3"; cases "at_wait a") (auto simp: rep_def task_str_def str_in_cstr)
  have wait0: "(t_wait t3 = None) = (at_wait a = None)"
    using t3(2) by (cases "t_wait t3"; cases "at_wait a") (auto simp: rep_def)
  note steps = get_task_steps [OF assms(1,2) t1 ws, of "Some (map Some es @ None # r)"]
  show ?thesis
  proof (cases "at_cmd a")
    case None
    then show ?thesis using steps(1) cmd by (simp add: task_of_def a_def [symmetric])
  next
    case (Some c)
    define b where "b = task_of ls name es"
    have b: "foldl add_env a es = b" by (simp add: b_def task_of_def a_def)
    then have "at_cmd b = Some c" "at_wait b = at_wait a" "at_name b = name" using Some an by auto
    moreover have "\<exists>key st. get_task fopen cfg (Some name) (Some (map Some es @ None # r)) server = Some (Some key, server\<lparr>sv_task_store := st\<rparr>)
        \<and> slots_ok st \<and> slots_view (sv_task_store server) key = None
        \<and> slots_view st = (slots_view (sv_task_store server))(key \<mapsto> t3)"
      using steps(2) [of t3] cmd Some t3(1) by simp
    ultimately show ?thesis
      using rep_name [OF t3(2)] wait wait0 child_exec_rep [OF t3(2), of c cfg] unfolding b b_def [symmetric] by force
  qed
qed

text \<open>\<open>waits_on server w\<close>: a process of the name \<open>w\<close> is running.\<close>

definition waits_on :: "Server \<Rightarrow> string option \<Rightarrow> bool" where
  "waits_on server w \<longleftrightarrow> w \<noteq> None \<and> (\<exists>i p. slots_view (sv_process_store server) i = Some p \<and> proc_name p = w)"

definition procs_named :: "Server \<Rightarrow> bool" where
  "procs_named server \<longleftrightarrow> (\<forall>i p. slots_view (sv_process_store server) i = Some p \<longrightarrow> proc_name p \<noteq> None)"

lemma wait_match_eq:
  assumes ok: "slots_ok (sv_process_store server)" and t: "task_named cfg t name w" and pn: "procs_named server"
  shows "server_task_wait_match server t = Some (waits_on server w)"
proof (cases "t_wait t")
  case None
  then show ?thesis using t by (simp add: server_task_wait_match_def task_named_def waits_on_def)
next
  case (Some q)
  let ?st = "sv_process_store server"
  let ?n = "nat (sl_capacity ?st)"
  obtain v where v: "w = Some v" "cstr_at (t_buf t) q = Some v" using t Some by (auto simp: task_named_def)
  have n: "int ?n \<le> sl_capacity ?st" using ok by (auto simp: slots_ok_def)
  have "(\<exists>i < ?n. \<exists>p. slots_view ?st (int i) = Some p \<and> proc_name p = Some v) = waits_on server w" (is "?l = ?r")
  proof
    assume ?r
    then obtain i p where ip: "slots_view ?st i = Some p" "proc_name p = Some v" using v by (auto simp: waits_on_def)
    then have "0 \<le> i" "nat i < ?n" using view_in_range [OF ok ip(1)] by (auto simp: in_range_def)
    then show ?l using ip by (intro exI [of _ "nat i"]) auto
  qed (use v in \<open>auto simp: waits_on_def\<close>)
  then show ?thesis
    using wait_loop_eq [OF ok n, of v] pn Some v by (auto simp: server_task_wait_match_def Let_def procs_named_def)
qed

section \<open>Properties\<close>

text \<open>C14. From a workspace file to a runnable task: when a workspace is set, its file is well
  formed and the task's strings fit, \<open>get_task\<close> stores a new task that, launched, runs the file's
  command for that section in its directory, with the file's variables as \<open>NAME=value\<close> strings
  followed by those of the request; its wait entry is the file's. A section without a command
  gives no task and leaves the store's contents as they were. When every entry of the variable
  array is used there is no NULL left and the launch reads past the array.\<close>

theorem get_task_workspace:
  assumes "slots_ok (sv_task_store server)" and "0 < sl_open_cnt (sv_task_store server)"
    and "cstr_at (sv_workspace server) 0 = Some path" and "fopen path = Some (render_doc ls)" and "doc_ok ls ([], None)"
    and "cstring name" and "\<And>s. s \<in> set es \<Longrightarrow> cstring s"
    and "fits_in (buf_cap cfg) (var_cap cfg) (task_of ls name es)"
  shows "(at_cmd (task_of ls name es) = None \<longrightarrow>
      (\<exists>st. get_task fopen cfg (Some name) (Some (map Some es @ None # r)) server = Some (None, server\<lparr>sv_task_store := st\<rparr>)
        \<and> slots_ok st \<and> slots_view st = slots_view (sv_task_store server)))
    \<and> (\<forall>cmd. at_cmd (task_of ls name es) = Some cmd \<longrightarrow>
      (\<exists>key t st. get_task fopen cfg (Some name) (Some (map Some es @ None # r)) server = Some (Some key, server\<lparr>sv_task_store := st\<rparr>)
        \<and> slots_ok st \<and> slots_view (sv_task_store server) key = None
        \<and> slots_view st = (slots_view (sv_task_store server))(key \<mapsto> t)
        \<and> task_str t (t_name t) = Some name \<and> task_str t (t_wait t) = at_wait (task_of ls name es) \<and> (t_wait t = None) = (at_wait (task_of ls name es) = None)
        \<and> child_exec cfg t =
            (if length (at_env (task_of ls name es)) < var_cap cfg
             then Some \<lparr>ch_argv = [cmd_bin_path (general (c_settings cfg)), ''-c'', cmd],
                    ch_dir = at_dir (task_of ls name es), ch_env = at_env (task_of ls name es)\<rparr>
             else None)))"
  by (rule get_task_of_file [where fopen = fopen and path = path, OF assms])

text \<open>C15. What happens to the queue when a task completes: nothing is launched when no waiting
  task is released; otherwise exactly one task is launched, the released one in the highest slot,
  which leaves the task store and enters the process store under its name.\<close>

theorem check_task_queue_launches_one:
  assumes "slots_ok (sv_task_store server)" and "slots_ok (sv_process_store server)" and "1 \<le> sl_open_cnt (sv_process_store server)"
    and "tasks_named cfg server" and "launch_ready le"
  shows "((\<forall>i t. \<not> releases c server i t) \<longrightarrow>
      server_check_task_queue cfg le server c (int (length c)) = Some (-1, server, []))
    \<and> (\<forall>i t. releases c server i t \<and> (\<forall>j u. releases c server j u \<longrightarrow> j \<le> i) \<longrightarrow>
      (\<exists>ps ts k p. server_check_task_queue cfg le server c (int (length c)) =
          Some (0, server\<lparr>sv_process_store := ps, sv_task_store := ts\<rparr>, [Ev_spawn (le_fork le) (child_exec cfg t)])
        \<and> slots_ok ps \<and> slots_ok ts \<and> slots_view ts = (slots_view (sv_task_store server))(i := None)
        \<and> slots_view (sv_process_store server) k = None \<and> slots_view ps = (slots_view (sv_process_store server))(k \<mapsto> p)
        \<and> proc_name p = task_str t (t_name t)))"
proof (intro conjI impI allI)
  let ?n = "nat (sl_capacity (sv_task_store server))"
  have cap: "int ?n = sl_capacity (sv_task_store server)" using assms(1) by (auto simp: slots_ok_def)
  {
    assume "\<forall>i t. \<not> releases c server i t"
    then show "server_check_task_queue cfg le server c (int (length c)) = Some (-1, server, [])"
      using queue_loop_skip [OF assms(1,4), of ?n 0 c le] assms(3) cap by (simp add: server_check_task_queue_def)
  }
  fix i t assume h: "releases c server i t \<and> (\<forall>j u. releases c server j u \<longrightarrow> j \<le> i)"
  then have v: "slots_view (sv_task_store server) i = Some t" by (simp add: releases_def)
  then have i: "0 \<le> i" "i < sl_capacity (sv_task_store server)" using view_in_range [OF assms(1)] by (auto simp: in_range_def)
  define m where "m = nat i"
  have m: "i = int m" "Suc m \<le> ?n" "int m < sl_capacity (sv_task_store server)" using i cap by (auto simp: m_def)
  have "\<not> releases c server (int j) u" if "Suc m \<le> j" for j u using h that m by fastforce
  then have "queue_loop cfg le server c (int (length c)) ?n = queue_loop cfg le server c (int (length c)) (Suc m)"
    using queue_loop_skip [OF assms(1,4), of ?n "Suc m" c le] cap m(2) by simp
  moreover obtain name w where tn: "task_named cfg t name w" using assms(4) v unfolding tasks_named_def by blast
  then have nm: "task_str t (t_name t) = Some name" by (simp add: task_named_def)
  obtain k p ps where l: "server_task_launch cfg le server (Some t) =
      Some (0, server\<lparr>sv_process_store := ps\<rparr>, [Ev_spawn (le_fork le) (child_exec cfg t)])"
    "slots_ok ps" "slots_view (sv_process_store server) k = None"
    "slots_view ps = (slots_view (sv_process_store server))(k \<mapsto> p)" "proc_name p = Some name"
    using launch_done [OF assms(5,2,3) tn] by metis
  moreover obtain ts where "drop_task (server\<lparr>sv_process_store := ps\<rparr>) i = Some (server\<lparr>sv_process_store := ps, sv_task_store := ts\<rparr>)"
    "slots_ok ts" "slots_view ts = (slots_view (sv_task_store server))(i := None)"
    using drop_task_view [of "server\<lparr>sv_process_store := ps\<rparr>" i t] assms(1) v by auto
  ultimately show "\<exists>ps ts k p. server_check_task_queue cfg le server c (int (length c)) =
          Some (0, server\<lparr>sv_process_store := ps, sv_task_store := ts\<rparr>, [Ev_spawn (le_fork le) (child_exec cfg t)])
        \<and> slots_ok ps \<and> slots_ok ts \<and> slots_view ts = (slots_view (sv_task_store server))(i := None)
        \<and> slots_view (sv_process_store server) k = None \<and> slots_view ps = (slots_view (sv_process_store server))(k \<mapsto> p)
        \<and> proc_name p = task_str t (t_name t)"
    using queue_loop_hit [OF assms(1) m(3), of c t cfg le] h m(1) nm assms(3)
    by (auto simp: server_check_task_queue_def)
qed

text \<open>C16. Queuing and releasing do not use the same rule. A task is queued exactly when a running
  process has the very name it waits for; but the completion of a task releases every waiting
  task whose wait entry begins with the completed name, so the end of \<open>build\<close> starts a task that
  waits for \<open>build_all\<close>.\<close>

theorem wait_and_release_rules:
  assumes "slots_ok (sv_process_store server)" and "task_named cfg t name (Some w)"
    and "\<And>i p. slots_view (sv_process_store server) i = Some p \<Longrightarrow> proc_name p \<noteq> None"
  shows "server_task_wait_match server t = Some (\<exists>i p. slots_view (sv_process_store server) i = Some p \<and> proc_name p = Some w)
    \<and> queue_match t c (int (length c)) = Some (\<exists>x. w = c @ x)"
  using wait_match_eq [OF assms(1,2), unfolded waits_on_def] assms(3) queue_match_eq [OF assms(2)]
  by (auto simp: released_def procs_named_def)

section \<open>Witnesses\<close>

definition demo_conn :: Connection where
  "demo_conn = \<lparr>cn_socket = 3, cn_port = 3879, cn_read_flags = {}, cn_write_flags = {},
     cn_in_buf = Some (replicate 1024 NUL), cn_out_buf = Some (replicate 1024 NUL)\<rparr>"

definition demo_server :: Server where
  "demo_server = \<lparr>sv_running = True, sv_conn = demo_conn, sv_workspace = ''ws.ini'' @ replicate 250 NUL,
     sv_token_stream = \<lparr>ts_type = 0, ts_length = 0, ts_tokens = replicate 30 zero_token\<rparr>,
     sv_client_stack = demo_stack,
     sv_process_store = slots_new 5 (zero_process demo_config), sv_task_store = slots_new 5 (zero_task demo_config)\<rparr>"

lemma demo_server_slots:
  "slots_ok (sv_task_store demo_server)" "slots_ok (sv_process_store demo_server)"
  "slots_view (sv_task_store demo_server) = Map.empty" "slots_view (sv_process_store demo_server) = Map.empty"
  by (simp_all add: demo_server_def slots_new_ok INT_MAX_def)

lemma demo_caps: "buf_cap demo_config = 1024" "var_cap demo_config = 30" "name_cap demo_config = 256"
  by (simp_all add: demo_config_def config_default_settings_def)

lemma demo_task_of: "task_of demo_doc ''do'' [''A=1''] = \<lparr>at_name = ''do'', at_cmd = Some (''ls -l'' @ [NL] @ ''pwd''),
    at_dir = None, at_wait = Some ''loop'', at_env = [''A=1''], at_used = 22\<rparr>"
  by (simp add: task_of_def demo_doc_def flush_def join_def new_atask_def abs_get_def add_env_def)

theorem get_task_workspace_witness:
  "\<exists>key t st. get_task (\<lambda>p. if p = ''ws.ini'' then Some (render_doc demo_doc) else None) demo_config (Some ''do'')
      (Some [Some ''A=1'', None]) demo_server = Some (Some key, demo_server\<lparr>sv_task_store := st\<rparr>)
    \<and> slots_view st key = Some t
    \<and> child_exec demo_config t = Some \<lparr>ch_argv = [''/bin/sh'', ''-c'', ''ls -l'' @ [NL] @ ''pwd''], ch_dir = None, ch_env = [''A=1'']\<rparr>"
proof -
  let ?f = "\<lambda>p. if p = ''ws.ini'' then Some (render_doc demo_doc) else None"
  have ws: "cstr_at (sv_workspace demo_server) 0 = Some ''ws.ini''"
    by (simp add: demo_server_def cstr_at_def)
  have bin: "cmd_bin_path (general (c_settings demo_config)) = ''/bin/sh''"
    by (simp add: demo_config_def config_default_settings_def)
  have "fits_in (buf_cap demo_config) (var_cap demo_config) (task_of demo_doc ''do'' [''A=1''])"
    by (simp add: demo_caps demo_task_of fits_in_def)
  moreover have "0 < sl_open_cnt (sv_task_store demo_server)" by (simp add: demo_server_def slots_new_def)
  ultimately show ?thesis
    using get_task_workspace [of demo_server "''ws.ini''" ?f demo_doc "''do''" "[''A=1'']" demo_config "[]"]
      demo_server_slots(1) ws demo_doc_ok by (force simp: demo_task_of demo_caps bin cstring_def)
qed

definition demo_task :: Task where
  "demo_task = \<lparr>t_buf_loc = 16, t_var_count = 0, t_cmd = Some 13, t_dir = None, t_wait = Some 3, t_name = Some 0,
     t_buf = ''do'' @ [NUL] @ ''build_all'' @ [NUL] @ ''ls'' @ [NUL] @ replicate 1008 NUL, t_vars = replicate 30 None\<rparr>"

definition demo_launch :: launch_env where
  "demo_launch = \<lparr>le_out_pipe = Some (5, 6), le_out_nonblock = True, le_err_pipe = Some (7, 8), le_err_nonblock = True,
     le_fork = 1234, le_time = 100\<rparr>"

lemma demo_task_named: "task_named demo_config demo_task ''do'' (Some ''build_all'')"
  by (simp add: task_named_def demo_task_def task_str_def cstr_at_def demo_caps)

theorem wait_and_release_rules_witness:
  "server_task_wait_match demo_server demo_task = Some False \<and> queue_match demo_task ''build'' 5 = Some True"
  using wait_and_release_rules [OF demo_server_slots(2) demo_task_named, of "''build''"] demo_server_slots(4)
  by simp

definition demo_queued :: Server where
  "demo_queued = demo_server\<lparr>sv_task_store :=
     \<lparr>sl_capacity = 1, sl_open_cnt = 0, sl_open = [0], sl_cells = [(True, demo_task)]\<rparr>\<rparr>"

lemma demo_queued_ok:
  "slots_ok (sv_task_store demo_queued)" "slots_view (sv_task_store demo_queued) = [0 \<mapsto> demo_task]"
  by (auto simp: demo_queued_def slots_ok_def INT_MAX_def free_list_def free_set_def slots_view_def fun_eq_iff)

theorem check_task_queue_launches_one_witness:
  "\<exists>ps ts. server_check_task_queue demo_config demo_launch demo_queued ''build'' 5 =
      Some (0, demo_queued\<lparr>sv_process_store := ps, sv_task_store := ts\<rparr>, [Ev_spawn 1234 (child_exec demo_config demo_task)])
    \<and> slots_view ts = Map.empty"
proof -
  have p: "slots_ok (sv_process_store demo_queued)" "1 \<le> sl_open_cnt (sv_process_store demo_queued)"
    using demo_server_slots(2) by (simp_all add: demo_queued_def) (simp add: demo_server_def slots_new_def)
  have n: "tasks_named demo_config demo_queued"
    using demo_task_named by (auto simp: tasks_named_def demo_queued_ok split: if_splits)
  have l: "launch_ready demo_launch" by (simp add: launch_ready_def demo_launch_def)
  have r: "releases ''build'' demo_queued i t \<longleftrightarrow> i = 0 \<and> t = demo_task" for i t
    using queue_match_eq [OF demo_task_named, of "''build''"] by (auto simp: releases_def demo_queued_ok released_def)
  show ?thesis
    using check_task_queue_launches_one [OF demo_queued_ok(1) p n l, of "''build''"] demo_queued_ok(2)
    by (auto simp: r demo_launch_def)
qed

end
