(* ===== verification/Machine.thy ===== *)
theory Machine
  imports Main "HOL-Library.Monad_Syntax"
begin

text \<open>
  Machines that run turn by turn. A turn consumes one input, changes the state and emits outputs;
  \<^term>\<open>None\<close> is undefined behaviour. The locale \<open>machine\<close> states the contract of a turn, an
  invariant it keeps and a relation between the state before and after, and carries it to runs
  and to reachable states. It is interpreted on the server's loop.
\<close>

primrec run_machine ::
  "('i \<Rightarrow> 's \<Rightarrow> ('s \<times> 'o list) option) \<Rightarrow> 'i list \<Rightarrow> 's \<Rightarrow> ('s \<times> 'o list) option" where
  "run_machine step [] s = Some (s, [])"
| "run_machine step (i # is) s =
     do { (s1, os1) \<leftarrow> step i s; (s2, os2) \<leftarrow> run_machine step is s1; Some (s2, os1 @ os2) }"

lemma run_machine_append:
  "run_machine step (is @ js) s =
     do { (s1, os1) \<leftarrow> run_machine step is s; (s2, os2) \<leftarrow> run_machine step js s1; Some (s2, os1 @ os2) }"
proof (induction "is" arbitrary: s)
  case Nil
  show ?case by (cases "run_machine step js s") auto
next
  case (Cons i "is")
  show ?case
  proof (cases "step i s")
    case (Some r)
    obtain s1 os1 where r: "r = (s1, os1)" by (cases r)
    show ?thesis
    proof (cases "run_machine step is s1")
      case None
      then show ?thesis using Cons [of s1] Some r by simp
    next
      case rest: (Some q)
      obtain s2 os2 where "q = (s2, os2)" by (cases q)
      then show ?thesis using Cons [of s1] Some r rest
        by (cases "run_machine step js s2") auto
    qed
  qed simp
qed

inductive reachable :: "('i \<Rightarrow> 's \<Rightarrow> ('s \<times> 'o list) option) \<Rightarrow> 's \<Rightarrow> 's \<Rightarrow> bool" for step and s0 where
  start: "reachable step s0 s0"
| turn: "reachable step s0 s \<Longrightarrow> step i s = Some (s', os) \<Longrightarrow> reachable step s0 s'"

lemma reachable_run: "reachable step s0 s \<longleftrightarrow> (\<exists>is os. run_machine step is s0 = Some (s, os))"
proof
  assume "reachable step s0 s"
  then show "\<exists>is os. run_machine step is s0 = Some (s, os)"
  proof induction
    case start
    then show ?case by (intro exI [of _ "[]"]) simp
  next
    case (turn s i s' os)
    then obtain "is" os0 where "run_machine step is s0 = Some (s, os0)" by blast
    then have "run_machine step (is @ [i]) s0 = Some (s', os0 @ os)" using turn(2) by (simp add: run_machine_append)
    then show ?case by blast
  qed
next
  assume "\<exists>is os. run_machine step is s0 = Some (s, os)"
  then obtain "is" os where "run_machine step is s0 = Some (s, os)" by blast
  then show "reachable step s0 s"
  proof (induction "is" arbitrary: s os rule: rev_induct)
    case Nil
    then show ?case by (simp add: reachable.start)
  next
    case (snoc i "is")
    then obtain s1 os1 os2 where "run_machine step is s0 = Some (s1, os1)" "step i s1 = Some (s, os2)"
      by (auto simp: run_machine_append split: bind_splits)
    then show ?case using snoc.IH reachable.turn by metis
  qed
qed

locale machine =
  fixes step :: "'i \<Rightarrow> 's \<Rightarrow> ('s \<times> 'o list) option"
    and inv :: "'s \<Rightarrow> bool"
    and rel :: "'s \<Rightarrow> 's \<Rightarrow> bool"
  assumes step_inv: "inv s \<Longrightarrow> step i s = Some (s', os) \<Longrightarrow> inv s'"
    and step_rel: "inv s \<Longrightarrow> step i s = Some (s', os) \<Longrightarrow> rel s s'"
    and rel_refl: "rel s s"
    and rel_trans: "rel a b \<Longrightarrow> rel b c \<Longrightarrow> rel a c"
begin

lemma run_keeps:
  "inv s \<Longrightarrow> run_machine step is s = Some (s', os) \<Longrightarrow> inv s' \<and> rel s s'"
proof (induction "is" arbitrary: s os)
  case Nil
  then show ?case by (simp add: rel_refl)
next
  case (Cons i "is")
  then obtain s1 os1 os2 where s1: "step i s = Some (s1, os1)" "run_machine step is s1 = Some (s', os2)" "os = os1 @ os2"
    by (auto split: bind_splits)
  then have "inv s' \<and> rel s1 s'" using Cons step_inv by metis
  then show ?case using step_rel [OF Cons.prems(1) s1(1)] rel_trans by blast
qed

lemma reachable_keeps: "inv s0 \<Longrightarrow> reachable step s0 s \<Longrightarrow> inv s \<and> rel s0 s"
  using run_keeps unfolding reachable_run by blast

end

end
