(* ===== verification/Server.thy ===== *)
theory Server
  imports Tasks Machine
begin

text \<open>
  The server proper, the first and last parts of \<open>src/src/server.h\<close>: answering a client, one
  packet, and one turn of the run loop. The results of the system calls of a turn are in the
  record \<open>turn_env\<close>: what \<open>select\<close> makes of a descriptor set, what \<open>accept\<close> returns, the bytes a
  \<open>read\<close> delivers (\<^term>\<open>None\<close> for an error, the empty list at the end of the stream), the result
  of \<open>waitpid\<close>, and the results of a launch at each loop index. Log lines are not modelled,
  except those that carry the output of a task.
\<close>

section \<open>Answering a client\<close>

record ClientPacket =
  cp_socket :: int
  cp_client :: int
  cp_len :: int
  cp_data :: "byte list option"

type_synonym os_send = "int \<Rightarrow> byte list \<Rightarrow> int"

text \<open>The return value, the bytes sent, and the server with its stream and output buffer updated.\<close>

definition server_send ::
  "os_send \<Rightarrow> Config \<Rightarrow> int \<Rightarrow> ProtocolMsgType \<Rightarrow> string \<Rightarrow> Server \<Rightarrow> ((int \<times> byte list) \<times> Server) option" where
  "server_send os_send cfg client_sock type buf server =
     do {
       ts1 \<leftarrow> protocol_tokenstream_reset ((sv_token_stream server)\<lparr>ts_type := msg_code type\<rparr>);
       ts2 \<leftarrow> protocol_tokenstream_add_token ts1 PROTOCOL_TOKEN_ARG (Some buf);
       (r, ob) \<leftarrow> protocol_send os_send client_sock (cn_out_buf (sv_conn server))
                   (buffer_size (connection (c_settings cfg))) (Some ts2);
       Some (r, server\<lparr>sv_token_stream := ts2, sv_conn := (sv_conn server)\<lparr>cn_out_buf := ob\<rparr>\<rparr>)
     }"

definition server_respond ::
  "os_send \<Rightarrow> Config \<Rightarrow> ClientPacket \<Rightarrow> ProtocolMsgType \<Rightarrow> string \<Rightarrow> Server \<Rightarrow> (int \<times> Server \<times> event list) option" where
  "server_respond os_send cfg packet msg_type msg server =
     do {
       ((sent, wire), server1) \<leftarrow> server_send os_send cfg (cp_socket packet) msg_type msg server;
       (_, cs) \<leftarrow> stack_remove_at_fast (sv_client_stack server1) (cp_client packet);
       Some (if sent < 1 then -1 else sent, server1\<lparr>sv_client_stack := cs\<rparr>,
             [Ev_send (cp_socket packet) wire, Ev_close (cp_socket packet)])
     }"

text \<open>\<open>SERVER_RESPOND_FMT\<close> with a format of the shape \<open>pre'%s'post\<close>: the text is cut to the size of
  the local buffer. The argument is not NULL.\<close>

definition QUOTE :: byte where "QUOTE = CHR 0x27"

definition respond_fmt ::
  "os_send \<Rightarrow> Config \<Rightarrow> ClientPacket \<Rightarrow> ProtocolMsgType \<Rightarrow> string \<Rightarrow> string \<Rightarrow> string \<Rightarrow> Server
    \<Rightarrow> (int \<times> Server \<times> event list) option" where
  "respond_fmt os_send cfg packet type pre arg post server =
     server_respond os_send cfg packet type
       (take (nat (buffer_size (connection (c_settings cfg)) - 1)) (pre @ [QUOTE] @ arg @ [QUOTE] @ post)) server"

section \<open>One packet\<close>

text \<open>The case \<open>PROTOCOL_MSG_TASK_RUN\<close>.\<close>

definition eval_task_run ::
  "os_send \<Rightarrow> (string \<Rightarrow> byte list option) \<Rightarrow> Config \<Rightarrow> launch_env \<Rightarrow> ClientPacket \<Rightarrow> string \<Rightarrow> string option list
    \<Rightarrow> Server \<Rightarrow> (int \<times> Server \<times> event list) option" where
  "eval_task_run os_send fopen cfg le packet name vars server =
     do {
       (res, server1) \<leftarrow> get_task fopen cfg (Some name) (Some vars) server;
       (case res of
          None \<Rightarrow> do {
            (_, server2, evs) \<leftarrow> respond_fmt os_send cfg packet PROTOCOL_MSG_ERR ''Task '' name '' not found'' server1;
            Some (-1, server2, evs)
          }
        | Some key \<Rightarrow> do {
            new_task \<leftarrow> slots_get (sv_task_store server1) key;
            task \<leftarrow> new_task;
            m \<leftarrow> server_task_wait_match server1 task;
            (if m
             then do {
               (_, server2, evs) \<leftarrow> respond_fmt os_send cfg packet PROTOCOL_MSG_SUCCESS ''Task '' name '' put in queue'' server1;
               Some (0, server2, evs)
             }
             else do {
               (launch_status, server2, evs1) \<leftarrow> server_task_launch cfg le server1 (Some task);
               (if launch_status \<noteq> 0
                then do {
                  (_, server3, evs2) \<leftarrow> respond_fmt os_send cfg packet PROTOCOL_MSG_ERR ''Failed to run task '' name [] server2;
                  Some (-1, server3, evs1 @ evs2)
                }
                else do {
                  (_, server3, evs2) \<leftarrow> respond_fmt os_send cfg packet PROTOCOL_MSG_SUCCESS ''Task '' name '' started succesfully'' server2;
                  server4 \<leftarrow> drop_task server3 key;
                  Some (0, server4, evs1 @ evs2)
                })
             })
          })
     }"

text \<open>The case \<open>PROTOCOL_MSG_WORKSPACE_SET\<close>; \<open>strcpy\<close> is not bounded.\<close>

definition eval_workspace_set ::
  "os_send \<Rightarrow> (string \<Rightarrow> bool) \<Rightarrow> Config \<Rightarrow> ClientPacket \<Rightarrow> string \<Rightarrow> Server \<Rightarrow> (int \<times> Server \<times> event list) option" where
  "eval_workspace_set os_send access cfg packet path server =
     (if \<not> access path
      then do {
        (_, server1, evs) \<leftarrow> server_respond os_send cfg packet PROTOCOL_MSG_ERR ''Workspace not found'' server;
        Some (-1, server1, evs)
      }
      else do {
        ws \<leftarrow> wr_block (sv_workspace server) 0 (path @ [NUL]);
        (_, server1, evs) \<leftarrow> respond_fmt os_send cfg packet PROTOCOL_MSG_SUCCESS ''Workspace '' path '' set as active''
                              (server\<lparr>sv_workspace := ws\<rparr>);
        Some (0, server1, evs)
      })"

text \<open>
  The arrays \<open>args\<close> and \<open>vars\<close> have as many cells as the stream has tokens and start out
  uninitialised; what is read of them has been written before. A first argument that is NULL is
  handed to \<open>%s\<close>, which is undefined.
\<close>

definition server_eval_packet ::
  "os_send \<Rightarrow> (string \<Rightarrow> byte list option) \<Rightarrow> (string \<Rightarrow> bool) \<Rightarrow> Config \<Rightarrow> launch_env \<Rightarrow> ClientPacket \<Rightarrow> Server
    \<Rightarrow> (int \<times> Server \<times> event list) option" where
  "server_eval_packet os_send fopen access cfg le packet server =
     do {
       (r, ts) \<leftarrow> protocol_read (cp_data packet) (buffer_size (connection (c_settings cfg))) (Some (sv_token_stream server));
       ts1 \<leftarrow> ts;
       let server1 = server\<lparr>sv_token_stream := ts1\<rparr>;
       (if r \<noteq> 0
        then do {
          (_, server2, evs) \<leftarrow> server_respond os_send cfg packet PROTOCOL_MSG_ERR ''Invalid command'' server1;
          Some (-1, server2, evs)
        }
        else do {
          let n = nat (ts_length ts1);
          (r2, type, args, vars) \<leftarrow> protocol_parse_token_stream ts1 (replicate n None) (replicate n None);
          (if r2 \<noteq> 0
           then do {
             (_, server2, evs) \<leftarrow> server_respond os_send cfg packet PROTOCOL_MSG_ERR ''Invalid command'' server1;
             Some (-1, server2, evs)
           }
           else if ts_type ts1 = msg_code PROTOCOL_MSG_TASK_RUN
           then do { a \<leftarrow> rd args 0; name \<leftarrow> a; eval_task_run os_send fopen cfg le packet name vars server1 }
           else if ts_type ts1 = msg_code PROTOCOL_MSG_WORKSPACE_SET
           then do { a \<leftarrow> rd args 0; path \<leftarrow> a; eval_workspace_set os_send access cfg packet path server1 }
           else do {
             (_, server2, evs) \<leftarrow> server_respond os_send cfg packet PROTOCOL_MSG_ERR ''Invalid command'' server1;
             Some (0, server2, evs)
           })
        })
     }"

section \<open>The run loop\<close>

record turn_env =
  te_select :: "int \<Rightarrow> int set \<Rightarrow> int \<times> int set"
  te_accept :: int
  te_nonblock :: "int \<Rightarrow> int"
  te_timeout :: "int \<Rightarrow> int"
  te_read :: "int \<Rightarrow> byte list option"
  te_waitpid :: "int \<Rightarrow> int"
  te_send :: os_send
  te_fopen :: "string \<Rightarrow> byte list option"
  te_access :: "string \<Rightarrow> bool"
  te_launch_client :: "nat \<Rightarrow> launch_env"
  te_launch_queue :: "nat \<Rightarrow> launch_env"

definition set_sock_desc :: "int \<Rightarrow> int \<times> int set \<Rightarrow> (int \<times> int set) option" where
  "set_sock_desc sock_desc acc =
     (case acc of (max_sock_desc, read_flags) \<Rightarrow> do {
        fl \<leftarrow> (if 0 < sock_desc then FD_SET sock_desc read_flags else Some read_flags);
        Some (if max_sock_desc < sock_desc then sock_desc else max_sock_desc, fl)
      })"

text \<open>The socket in cell \<open>i\<close> of the client stack; undefined when there is no such cell.\<close>

definition client_sock :: "Stack \<Rightarrow> int \<Rightarrow> int option" where
  "client_sock s i = do { p \<leftarrow> stack_get s i; bs \<leftarrow> stack_load s p; rd_int bs 0 }"

primrec cleanup_loop :: "nat \<Rightarrow> Server \<Rightarrow> (Server \<times> event list) option" where
  "cleanup_loop 0 server = Some (server, [])"
| "cleanup_loop (Suc i) server =
     (case stack_pop (sv_client_stack server) of
        (None, _) \<Rightarrow> None
      | (Some p, s) \<Rightarrow> do {
          bs \<leftarrow> stack_load s p;
          sock \<leftarrow> rd_int bs 0;
          (server', evs) \<leftarrow> cleanup_loop i (server\<lparr>sv_client_stack := s\<rparr>);
          Some (server', Ev_close sock # evs)
        })"

definition server_cleanup :: "Server \<Rightarrow> (Server \<times> event list) option" where
  "server_cleanup server = cleanup_loop (st_count (sv_client_stack server)) server"

primrec add_clients :: "Stack \<Rightarrow> nat \<Rightarrow> int \<times> int set \<Rightarrow> (int \<times> int set) option" where
  "add_clients s 0 acc = Some acc"
| "add_clients s (Suc i) acc = do { sock \<leftarrow> client_sock s (int i); acc' \<leftarrow> set_sock_desc sock acc; add_clients s i acc' }"

primrec add_processes :: "TaskProcess slots \<Rightarrow> nat \<Rightarrow> int \<times> int set \<Rightarrow> (int \<times> int set) option" where
  "add_processes st 0 acc = Some acc"
| "add_processes st (Suc i) acc =
     do {
       r \<leftarrow> slots_get st (int i);
       (case r of
          None \<Rightarrow> add_processes st i acc
        | Some process \<Rightarrow> do {
            acc1 \<leftarrow> set_sock_desc (p_out_fd_r process) acc;
            acc2 \<leftarrow> set_sock_desc (p_err_fd_r process) acc1;
            add_processes st i acc2
          })
     }"

text \<open>The result of \<open>select\<close>, which also replaces the set by the descriptors that are ready.\<close>

definition server_check_activity :: "turn_env \<Rightarrow> Server \<Rightarrow> (int \<times> Server) option" where
  "server_check_activity env server =
     do {
       let conn = sv_conn server;
       let clients = sv_client_stack server;
       let processes = sv_process_store server;
       acc \<leftarrow> add_clients clients (st_count clients) (cn_socket conn, cn_read_flags conn);
       (max_sock_desc, fl) \<leftarrow> add_processes processes (nat (sl_capacity processes)) acc;
       let (activity, ready) = te_select env (max_sock_desc + 1) fl;
       Some (activity, server\<lparr>sv_conn := conn\<lparr>cn_read_flags := ready\<rparr>\<rparr>)
     }"

definition server_handle_incoming ::
  "turn_env \<Rightarrow> Connection \<Rightarrow> Config \<Rightarrow> Stack \<Rightarrow> (int \<times> Stack \<times> event list) option" where
  "server_handle_incoming env conn cfg client_stack =
     do {
       b \<leftarrow> FD_ISSET (cn_socket conn) (cn_read_flags conn);
       (if \<not> b then Some (0, client_stack, [])
        else let new_socket = te_accept env in
          if new_socket < 1 then Some (-1, client_stack, [])
          else if to_size (max_clients (connection (c_settings cfg))) \<le> st_count client_stack
          then Some (0, client_stack, [Ev_close new_socket])
          else if te_nonblock env new_socket \<noteq> 0 then Some (-1, client_stack, [])
          else if te_timeout env new_socket \<noteq> 0 then Some (-1, client_stack, [])
          else do {
            (_, s) \<leftarrow> stack_push client_stack (int_bytes new_socket);
            Some (1, s, [])
          })
     }"

text \<open>One stream of a task: the bytes read into the buffer, and the C string there, printed.\<close>

definition read_print :: "turn_env \<Rightarrow> int \<Rightarrow> byte list \<Rightarrow> int set \<Rightarrow> bool \<Rightarrow> byte list \<Rightarrow> (byte list \<times> event list) option" where
  "read_print env fd name_buf flags clear in_buf =
     do {
       b \<leftarrow> FD_ISSET fd flags;
       (if \<not> b then Some (in_buf, [])
        else case te_read env fd of
          None \<Rightarrow> Some (in_buf, [])
        | Some bs \<Rightarrow>
            if bs = [] then Some (in_buf, [])
            else do {
              buf1 \<leftarrow> wr_block in_buf 0 bs;
              target \<leftarrow> cstr_at name_buf 0;
              line \<leftarrow> cstr_at buf1 0;
              buf2 \<leftarrow> (if clear then wr_block buf1 0 (replicate (length bs) NUL) else Some buf1);
              Some (buf2, [Ev_print target line])
            })
     }"

definition server_process_print :: "turn_env \<Rightarrow> Config \<Rightarrow> TaskProcess \<Rightarrow> Server \<Rightarrow> (Server \<times> event list) option" where
  "server_process_print env cfg process server =
     do {
       let conn = sv_conn server;
       ib \<leftarrow> clear_buf (cn_in_buf conn) (buffer_size (connection (c_settings cfg)));
       buf0 \<leftarrow> ib;
       (buf1, evs1) \<leftarrow> read_print env (p_out_fd_r process) (p_task_name process) (cn_read_flags conn) True buf0;
       (buf2, evs2) \<leftarrow> read_print env (p_err_fd_r process) (p_task_name process) (cn_read_flags conn) False buf1;
       Some (server\<lparr>sv_conn := conn\<lparr>cn_in_buf := Some buf2\<rparr>\<rparr>, evs1 @ evs2)
     }"

text \<open>One client of the loop \<open>for (i = count - 1; i >= 0; i--)\<close>.\<close>

definition client_step :: "turn_env \<Rightarrow> Config \<Rightarrow> nat \<Rightarrow> Server \<Rightarrow> (Server \<times> event list) option" where
  "client_step env cfg i server =
     do {
       sock_desc \<leftarrow> client_sock (sv_client_stack server) (int i);
       (if sock_desc = 0
        then do { (_, s) \<leftarrow> stack_remove_at_fast (sv_client_stack server) (int i); Some (server\<lparr>sv_client_stack := s\<rparr>, []) }
        else do {
          b \<leftarrow> FD_ISSET sock_desc (cn_read_flags (sv_conn server));
          (if \<not> b then Some (server, [])
           else case te_read env sock_desc of
             None \<Rightarrow> Some (server, [])
           | Some bs \<Rightarrow>
               if bs = []
               then do {
                 (_, s) \<leftarrow> stack_remove_at_fast (sv_client_stack server) (int i);
                 Some (server\<lparr>sv_client_stack := s\<rparr>, [Ev_close sock_desc])
               }
               else do {
                 buf \<leftarrow> cn_in_buf (sv_conn server);
                 buf' \<leftarrow> wr_block buf 0 bs;
                 let server1 = server\<lparr>sv_conn := (sv_conn server)\<lparr>cn_in_buf := Some buf'\<rparr>\<rparr>;
                 let packet = \<lparr>cp_socket = sock_desc, cp_client = int i, cp_len = int (length bs), cp_data = Some buf'\<rparr>;
                 (_, server2, evs) \<leftarrow> server_eval_packet (te_send env) (te_fopen env) (te_access env) cfg
                                        (te_launch_client env i) packet server1;
                 Some (server2, evs)
               })
        })
     }"

primrec client_loop :: "turn_env \<Rightarrow> Config \<Rightarrow> nat \<Rightarrow> Server \<Rightarrow> (Server \<times> event list) option" where
  "client_loop env cfg 0 server = Some (server, [])"
| "client_loop env cfg (Suc i) server =
     do { (server1, evs1) \<leftarrow> client_step env cfg i server; (server2, evs2) \<leftarrow> client_loop env cfg i server1;
          Some (server2, evs1 @ evs2) }"

text \<open>One process of the loop over the process store.\<close>

definition process_step :: "turn_env \<Rightarrow> Config \<Rightarrow> nat \<Rightarrow> Server \<Rightarrow> (Server \<times> event list) option" where
  "process_step env cfg i server =
     do {
       r \<leftarrow> slots_get (sv_process_store server) (int i);
       (case r of
          None \<Rightarrow> Some (server, [])
        | Some process \<Rightarrow>
            if te_waitpid env (p_pid process) \<noteq> 0
            then do {
              name \<leftarrow> cstr_at (p_task_name process) 0;
              (_, st) \<leftarrow> slots_remove_at (sv_process_store server) (int i);
              (_, server2, evs) \<leftarrow> server_check_task_queue cfg (te_launch_queue env i) (server\<lparr>sv_process_store := st\<rparr>)
                                     name (int (length name));
              Some (server2, [Ev_close (p_out_fd_r process), Ev_close (p_err_fd_r process)] @ evs)
            }
            else server_process_print env cfg process server)
     }"

primrec process_loop :: "turn_env \<Rightarrow> Config \<Rightarrow> nat \<Rightarrow> Server \<Rightarrow> (Server \<times> event list) option" where
  "process_loop env cfg 0 server = Some (server, [])"
| "process_loop env cfg (Suc i) server =
     do { (server1, evs1) \<leftarrow> process_step env cfg i server; (server2, evs2) \<leftarrow> process_loop env cfg i server1;
          Some (server2, evs1 @ evs2) }"

text \<open>The body of the run loop.\<close>

definition server_turn :: "turn_env \<Rightarrow> Config \<Rightarrow> Server \<Rightarrow> (Server \<times> event list) option" where
  "server_turn env cfg server =
     do {
       conn \<leftarrow> connection_init_set (sv_conn server) cfg;
       (activity, server1) \<leftarrow> server_check_activity env (server\<lparr>sv_conn := conn\<rparr>);
       (incoming, cs, evs1) \<leftarrow> server_handle_incoming env (sv_conn server1) cfg (sv_client_stack server1);
       let server2 = server1\<lparr>sv_client_stack := cs\<rparr>;
       (server3, evs2) \<leftarrow> client_loop env cfg (st_count (sv_client_stack server2)) server2;
       (server4, evs3) \<leftarrow> process_loop env cfg (nat (sl_capacity (sv_process_store server3))) server3;
       Some (server4, evs1 @ evs2 @ evs3)
     }"

text \<open>The loop itself: \<open>server.running\<close> is never cleared, so it goes on as long as there are turns.\<close>

primrec server_run :: "Config \<Rightarrow> turn_env list \<Rightarrow> Server \<Rightarrow> (Server \<times> event list) option" where
  "server_run cfg [] server = Some (server, [])"
| "server_run cfg (env # envs) server =
     (if sv_running server
      then do { (server1, evs1) \<leftarrow> server_turn env cfg server; (server2, evs2) \<leftarrow> server_run cfg envs server1;
                Some (server2, evs1 @ evs2) }
      else server_cleanup server)"

section \<open>Start-up\<close>

text \<open>\<open>sizeof(TaskProcess)\<close> and \<open>sizeof(Task)\<close> on the target.\<close>

definition sizeof_TaskProcess :: nat where "sizeof_TaskProcess = 32"
definition sizeof_Task :: nat where "sizeof_Task = 56"

text \<open>The five allocations of \<open>run_as_server\<close>, in order; each returns NULL when the arena is full.\<close>

definition try_alloc :: "(nat \<Rightarrow> bool) \<Rightarrow> nat \<Rightarrow> (nat \<Rightarrow> 'a) \<Rightarrow> arena \<Rightarrow> ('a option \<times> arena) outcome option" where
  "try_alloc mal n f ar =
     (case arena_alloc mal n ar of
        None \<Rightarrow> None
      | Some (Exit c) \<Rightarrow> Some (Exit c)
      | Some (Ret (p, ar')) \<Rightarrow> Some (Ret (map_option (\<lambda>q. f (snd q)) p, ar')))"

definition then_alloc :: "('a \<times> arena) outcome option \<Rightarrow> ('a \<Rightarrow> arena \<Rightarrow> ('b \<times> arena) outcome option) \<Rightarrow> ('b \<times> arena) outcome option" where
  "then_alloc m f = (case m of None \<Rightarrow> None | Some (Exit c) \<Rightarrow> Some (Exit c) | Some (Ret (a, ar)) \<Rightarrow> f a ar)"

definition store_size :: "int \<Rightarrow> nat \<Rightarrow> nat" where
  "store_size capacity item_size =
     wrap64 (sizeof_Store + 4 * to_size capacity + (item_size + 1) * to_size capacity)"

definition process_item_size :: "Config \<Rightarrow> nat" where
  "process_item_size cfg = wrap64 (sizeof_TaskProcess + to_size (task_name_size (general (c_settings cfg))))"

definition task_item_size :: "Config \<Rightarrow> nat" where
  "task_item_size cfg = wrap64 (sizeof_Task + to_size (task_buf_size (general (c_settings cfg)))
     + 8 * to_size (task_var_max_count (general (c_settings cfg))))"

definition new_client_stack :: "Config \<Rightarrow> nat \<Rightarrow> Stack" where
  "new_client_stack cfg addr =
     (let n = to_size (max_clients (connection (c_settings cfg))) in
      \<lparr>st_count = 0, st_capacity = n, st_item_size = 4, st_data = addr + sizeof_Stack, st_base = addr,
       st_mem = replicate (4 * n) NUL\<rparr>)"

definition run_as_server_init ::
  "(nat \<Rightarrow> bool) \<Rightarrow> conn_env \<Rightarrow> Config \<Rightarrow> arena \<Rightarrow> ((int \<times> Server option) \<times> arena) outcome option" where
  "run_as_server_init mal env cfg ar0 =
     (let g = general (c_settings cfg) in
      then_alloc (connection_init cfg env mal ar0) (\<lambda>(r, conn) ar1.
        if r < 1 then Some (Ret ((-1, None), ar1))
        else then_alloc (try_alloc mal (to_size (workspace_buf_size g)) (\<lambda>_. replicate (to_size (workspace_buf_size g)) NUL) ar1) (\<lambda>ws ar2.
          then_alloc (protocol_tokenstream_alloc mal (protocol_token_count g) ar2) (\<lambda>ts ar3.
            then_alloc (try_alloc mal (wrap64 (sizeof_Stack + wrap64 (4 * to_size (max_clients (connection (c_settings cfg)))))) (new_client_stack cfg) ar3) (\<lambda>cs ar4.
              then_alloc (try_alloc mal (store_size (process_store_count g) (process_item_size cfg)) (\<lambda>_. slots_new (process_store_count g) (zero_process cfg)) ar4) (\<lambda>ps ar5.
                then_alloc (try_alloc mal (store_size (task_store_count g) (task_item_size cfg)) (\<lambda>_. slots_new (task_store_count g) (zero_task cfg)) ar5) (\<lambda>tk ar6.
                  case (ws, ts, cs, ps, tk) of
                    (Some w, Some t, Some c, Some p, Some k) \<Rightarrow>
                      Some (Ret ((0, Some \<lparr>sv_running = True, sv_conn = conn, sv_workspace = w, sv_token_stream = t,
                        sv_client_stack = c, sv_process_store = p, sv_task_store = k\<rparr>), ar6))
                  | _ \<Rightarrow> Some (Ret ((-1, None), ar6)))))))))"

text \<open>The stack built here is what \<open>stack_new\<close> makes of a zeroed block.\<close>

lemma new_client_stack_eq:
  assumes "max_clients (connection (c_settings cfg)) = int n" and "n < 1000000"
  shows "stack_new (\<lambda>k. Some (addr, replicate k NUL)) n 4 = Some (Some (new_client_stack cfg addr))"
  using assms by (simp add: stack_new_def new_client_stack_def sizeof_Stack_def to_size_def SIZE_MOD_def Let_def mult.commute)

section \<open>What each operation leaves alone\<close>

text \<open>Frames: the components of the server an operation may change.\<close>

lemma server_send_frame:
  assumes "server_send f cfg sock ty msg server = Some (r, server')"
  shows "server' = server\<lparr>sv_token_stream := sv_token_stream server', sv_conn := sv_conn server'\<rparr>"
    and "sv_conn server' = (sv_conn server)\<lparr>cn_out_buf := cn_out_buf (sv_conn server')\<rparr>"
  using assms by (auto simp: server_send_def split: bind_splits)

lemma server_respond_frame:
  assumes "server_respond f cfg packet ty msg server = Some (r, server', evs)"
  shows "server' = server\<lparr>sv_token_stream := sv_token_stream server', sv_conn := sv_conn server',
      sv_client_stack := sv_client_stack server'\<rparr>"
    and "sv_conn server' = (sv_conn server)\<lparr>cn_out_buf := cn_out_buf (sv_conn server')\<rparr>"
    and "\<exists>n. stack_remove_at_fast (sv_client_stack server) (cp_client packet) = Some (n, sv_client_stack server')"
    and "\<exists>wire. evs = [Ev_send (cp_socket packet) wire, Ev_close (cp_socket packet)]"
proof -
  obtain r1 w s1 n cs where s: "server_send f cfg (cp_socket packet) ty msg server = Some ((r1, w), s1)"
    and c: "stack_remove_at_fast (sv_client_stack s1) (cp_client packet) = Some (n, cs)"
    and e: "server' = s1\<lparr>sv_client_stack := cs\<rparr>" "evs = [Ev_send (cp_socket packet) w, Ev_close (cp_socket packet)]"
    using assms by (auto simp: server_respond_def split: bind_splits)
  note f = server_send_frame [OF s]
  have cs: "sv_client_stack s1 = sv_client_stack server" by (subst f(1)) simp
  show "server' = server\<lparr>sv_token_stream := sv_token_stream server', sv_conn := sv_conn server',
      sv_client_stack := sv_client_stack server'\<rparr>" unfolding e(1) by (subst f(1)) simp
  show "sv_conn server' = (sv_conn server)\<lparr>cn_out_buf := cn_out_buf (sv_conn server')\<rparr>" using f(2) e(1) by simp
  show "\<exists>n. stack_remove_at_fast (sv_client_stack server) (cp_client packet) = Some (n, sv_client_stack server')"
    using c cs e(1) by simp
  show "\<exists>wire. evs = [Ev_send (cp_socket packet) wire, Ev_close (cp_socket packet)]" using e(2) by simp
qed

text \<open>The three operations on a store keep its invariant and its capacity.\<close>

lemma slots_push_keeps: "slots_push t x = Some (k, t') \<Longrightarrow> slots_ok t \<Longrightarrow> slots_ok t' \<and> sl_capacity t' = sl_capacity t"
  using slots_push_view [of t x] slots_push_full [of t x] slots_okD(3) [of t] by (cases "0 < sl_open_cnt t") auto

lemma slots_neg_index: "slots_ok t \<Longrightarrow> i < 0 \<Longrightarrow> slots_remove_at t i = None \<and> slots_replace t i x = None"
  by (auto simp: slots_remove_at_def slots_replace_def slots_ok_def rd_def)

lemma slots_remove_keeps: "slots_remove_at t i = Some (n, t') \<Longrightarrow> slots_ok t \<Longrightarrow> slots_ok t' \<and> sl_capacity t' = sl_capacity t"
  using slots_neg_index [of t i] slots_remove_unused(1) [of t i] slots_remove_view [of t i]
  by (cases "i < 0"; cases "slots_view t i") auto

lemma slots_replace_keeps: "slots_replace t i x = Some (n, t') \<Longrightarrow> slots_ok t \<Longrightarrow> slots_ok t' \<and> sl_capacity t' = sl_capacity t"
  using slots_neg_index [of t i x] slots_remove_unused(2) [of t i x] slots_replace_view [of t i _ x]
  by (cases "i < 0"; cases "slots_view t i") auto

text \<open>\<open>task_only s s'\<close>: at most the task store changed, and it is still well formed.\<close>

definition task_only :: "Server \<Rightarrow> Server \<Rightarrow> bool" where
  "task_only s s' \<longleftrightarrow> s' = s\<lparr>sv_task_store := sv_task_store s'\<rparr> \<and> slots_ok (sv_task_store s')
     \<and> sl_capacity (sv_task_store s') = sl_capacity (sv_task_store s)"

lemma task_only_trans: "task_only a b \<Longrightarrow> task_only b c \<Longrightarrow> task_only a c"
  by (cases a; cases b; cases c) (simp add: task_only_def)

lemma drop_task_only: "drop_task server key = Some server' \<Longrightarrow> slots_ok (sv_task_store server) \<Longrightarrow> task_only server server'"
  by (auto simp: drop_task_def task_only_def split: bind_splits dest!: slots_remove_keeps)

lemma put_task_only: "put_task server key t = Some server' \<Longrightarrow> slots_ok (sv_task_store server) \<Longrightarrow> task_only server server'"
  by (auto simp: put_task_def task_only_def split: bind_splits dest!: slots_replace_keeps)

lemma task_only_refl: "slots_ok (sv_task_store server) \<Longrightarrow> task_only server server"
  by (simp add: task_only_def)

lemma task_only_ok: "task_only s s' \<Longrightarrow> slots_ok (sv_task_store s')"
  by (simp add: task_only_def)

lemma get_task_only:
  assumes g: "get_task fopen cfg name envs server = Some (k, server')" and ok: "slots_ok (sv_task_store server)"
  shows "task_only server server'"
proof (cases name)
  case None
  then show ?thesis using assms by (simp add: get_task_def task_only_refl)
next
  case (Some nm)
  obtain kk st1 where p: "slots_push (sv_task_store server) (zero_task cfg) = Some (kk, st1)"
    using g Some by (auto simp: get_task_def split: bind_splits)
  let ?s1 = "server\<lparr>sv_task_store := st1\<rparr>"
  have s1: "task_only server ?s1" using slots_push_keeps [OF p ok] by (simp add: task_only_def)
  show ?thesis
  proof (cases kk)
    case None
    then show ?thesis using g Some p s1 by (simp add: get_task_def)
  next
    case key: (Some key)
    have "\<exists>t2 s2. put_task ?s1 key t2 = Some s2 \<and> (drop_task s2 key = Some server' \<or> (\<exists>t3. put_task s2 key t3 = Some server'))"
      using g Some p key unfolding get_task_def by (auto simp: Let_def split: bind_splits if_splits) blast+
    then obtain t2 s2 where s2: "put_task ?s1 key t2 = Some s2"
      and r: "drop_task s2 key = Some server' \<or> (\<exists>t3. put_task s2 key t3 = Some server')" by blast
    have "task_only ?s1 s2" using put_task_only [OF s2] task_only_ok [OF s1] by simp
    moreover have "task_only s2 server'"
      using r drop_task_only put_task_only task_only_ok [OF calculation] by blast
    ultimately show ?thesis using s1 task_only_trans by blast
  qed
qed

definition proc_only :: "Server \<Rightarrow> Server \<Rightarrow> bool" where
  "proc_only s s' \<longleftrightarrow> s' = s\<lparr>sv_process_store := sv_process_store s'\<rparr> \<and> slots_ok (sv_process_store s')
     \<and> sl_capacity (sv_process_store s') = sl_capacity (sv_process_store s)"

lemma launch_only:
  assumes "server_task_launch cfg le server t = Some (r, server', evs)" and ok: "slots_ok (sv_process_store server)"
  shows "proc_only server server'" and "evs = [] \<or> (\<exists>c. evs = [Ev_spawn (le_fork le) c])"
  using assms
  by (auto simp: server_task_launch_def proc_only_def split: option.splits if_splits bind_splits dest: slots_push_keeps)

section \<open>Invariant of the server\<close>

text \<open>What every operation of the run loop keeps: the two stores and their sizes, and the parts of
  the connection and the workspace that carry no data of a client.\<close>

definition kept :: "Server \<Rightarrow> Server \<Rightarrow> bool" where
  "kept s s' \<longleftrightarrow> sv_running s' = sv_running s
     \<and> slots_ok (sv_process_store s') \<and> sl_capacity (sv_process_store s') = sl_capacity (sv_process_store s)
     \<and> slots_ok (sv_task_store s') \<and> sl_capacity (sv_task_store s') = sl_capacity (sv_task_store s)
     \<and> cn_socket (sv_conn s') = cn_socket (sv_conn s) \<and> cn_read_flags (sv_conn s') = cn_read_flags (sv_conn s)
     \<and> length (sv_workspace s') = length (sv_workspace s)"

definition stores_ok :: "Server \<Rightarrow> bool" where
  "stores_ok s \<longleftrightarrow> slots_ok (sv_process_store s) \<and> slots_ok (sv_task_store s)"

lemma kept_refl: "stores_ok s \<Longrightarrow> kept s s"
  by (simp add: kept_def stores_ok_def)

lemma kept_trans: "kept a b \<Longrightarrow> kept b c \<Longrightarrow> kept a c"
  by (simp add: kept_def)

lemma kept_stores: "kept s s' \<Longrightarrow> stores_ok s'"
  by (simp add: kept_def stores_ok_def)

lemma kept_flags: "kept s s' \<Longrightarrow> cn_read_flags (sv_conn s') = cn_read_flags (sv_conn s)"
  by (simp add: kept_def)

lemma task_only_kept:
  assumes "task_only s s'" and "stores_ok s"
  shows "kept s s'" and "sv_client_stack s' = sv_client_stack s"
proof -
  have f: "s' = s\<lparr>sv_task_store := sv_task_store s'\<rparr>" using assms(1) by (simp add: task_only_def)
  have "sv_running s' = sv_running s" "sv_process_store s' = sv_process_store s" "sv_conn s' = sv_conn s"
    "sv_workspace s' = sv_workspace s" "sv_client_stack s' = sv_client_stack s"
    by (subst f; simp)+
  then show "kept s s'" "sv_client_stack s' = sv_client_stack s"
    using assms by (auto simp: kept_def task_only_def stores_ok_def)
qed

lemma proc_only_kept:
  assumes "proc_only s s'" and "stores_ok s"
  shows "kept s s'" and "sv_client_stack s' = sv_client_stack s"
proof -
  have f: "s' = s\<lparr>sv_process_store := sv_process_store s'\<rparr>" using assms(1) by (simp add: proc_only_def)
  have "sv_running s' = sv_running s" "sv_task_store s' = sv_task_store s" "sv_conn s' = sv_conn s"
    "sv_workspace s' = sv_workspace s" "sv_client_stack s' = sv_client_stack s"
    by (subst f; simp)+
  then show "kept s s'" "sv_client_stack s' = sv_client_stack s"
    using assms by (auto simp: kept_def proc_only_def stores_ok_def)
qed

text \<open>The client of a packet was answered once, after at most one launch, its socket closed, its entry
  removed.\<close>

definition answered_once :: "launch_env \<Rightarrow> ClientPacket \<Rightarrow> Server \<Rightarrow> Server \<Rightarrow> event list \<Rightarrow> bool" where
  "answered_once le packet s s' evs \<longleftrightarrow>
     (\<exists>n. stack_remove_at_fast (sv_client_stack s) (cp_client packet) = Some (n, sv_client_stack s'))
     \<and> (\<exists>pre wire. evs = pre @ [Ev_send (cp_socket packet) wire, Ev_close (cp_socket packet)]
          \<and> (pre = [] \<or> (\<exists>c. pre = [Ev_spawn (le_fork le) c])))"

lemma respond_answers:
  assumes r: "server_respond f cfg packet ty msg s = Some (r, s', evs)" and ok: "stores_ok s"
  shows "\<exists>n. stack_remove_at_fast (sv_client_stack s) (cp_client packet) = Some (n, sv_client_stack s')"
    and "kept s s'" and "sv_workspace s' = sv_workspace s"
    and "sv_process_store s' = sv_process_store s" and "sv_task_store s' = sv_task_store s"
    and "cn_in_buf (sv_conn s') = cn_in_buf (sv_conn s)"
    and "\<exists>wire. evs = [Ev_send (cp_socket packet) wire, Ev_close (cp_socket packet)]"
proof -
  note f = server_respond_frame [OF r]
  show "\<exists>n. stack_remove_at_fast (sv_client_stack s) (cp_client packet) = Some (n, sv_client_stack s')"
    "\<exists>wire. evs = [Ev_send (cp_socket packet) wire, Ev_close (cp_socket packet)]" using f(3,4) by force+
  have eq: "sv_running s' = sv_running s" "sv_process_store s' = sv_process_store s" "sv_task_store s' = sv_task_store s"
    "sv_workspace s' = sv_workspace s" by (subst f(1); simp)+
  have c: "cn_socket (sv_conn s') = cn_socket (sv_conn s)" "cn_read_flags (sv_conn s') = cn_read_flags (sv_conn s)"
    "cn_in_buf (sv_conn s') = cn_in_buf (sv_conn s)" by (subst f(2); simp)+
  show "kept s s'" using eq c ok by (simp add: kept_def stores_ok_def)
  show "sv_workspace s' = sv_workspace s" "sv_process_store s' = sv_process_store s" "sv_task_store s' = sv_task_store s"
    "cn_in_buf (sv_conn s') = cn_in_buf (sv_conn s)" using eq c by simp_all
qed

lemma answered_after:
  assumes r: "server_respond f cfg packet ty msg s1 = Some (r, s', evs)" and ok: "stores_ok s1"
    and "sv_client_stack s1 = sv_client_stack s" and "pre = [] \<or> (\<exists>c. pre = [Ev_spawn (le_fork le) c])"
  shows "answered_once le packet s s' (pre @ evs)"
  using respond_answers(1,7) [OF r ok] assms(3,4) by (auto simp: answered_once_def)

lemmas answered_now = answered_after [where pre = "[]", OF _ _ _ disjI1 [OF refl], unfolded append_Nil]

lemma drop_task_clients: "drop_task s key = Some s' \<Longrightarrow> sv_client_stack s' = sv_client_stack s"
  by (auto simp: drop_task_def split: bind_splits)

lemma eval_task_run_answers:
  assumes ev: "eval_task_run f fopen cfg le packet name vars s = Some (r, s', evs)" and ok: "stores_ok s"
  shows "answered_once le packet s s' evs \<and> kept s s'"
proof -
  obtain res s1 where g: "get_task fopen cfg (Some name) (Some vars) s = Some (res, s1)"
    using ev by (auto simp: eval_task_run_def split: bind_splits)
  have t1: "task_only s s1" using g ok by (intro get_task_only) (auto simp: stores_ok_def)
  have k1: "kept s s1" "sv_client_stack s1 = sv_client_stack s" "stores_ok s1"
    using task_only_kept [OF t1 ok] kept_stores by auto
  have done1: "answered_once le packet s s2 evs2 \<and> kept s s2"
    if "respond_fmt f cfg packet ty pre arg post s1 = Some (r2, s2, evs2)" for ty pre arg post r2 s2 evs2
    using respond_answers(2) [OF that [unfolded respond_fmt_def] k1(3)] answered_now [OF that [unfolded respond_fmt_def] k1(3,2)]
      k1(1) kept_trans by blast
  show ?thesis
  proof (cases res)
    case None
    then obtain r2 where "respond_fmt f cfg packet PROTOCOL_MSG_ERR ''Task '' name '' not found'' s1 = Some (r2, s', evs)"
      using ev g by (auto simp: eval_task_run_def split: bind_splits)
    then show ?thesis by (rule done1)
  next
    case (Some key)
    then obtain task m where tk: "slots_get (sv_task_store s1) key = Some (Some task)" "server_task_wait_match s1 task = Some m"
      using ev g by (auto simp: eval_task_run_def split: bind_splits)
    show ?thesis
    proof (cases m)
      case True
      then obtain r2 where "respond_fmt f cfg packet PROTOCOL_MSG_SUCCESS ''Task '' name '' put in queue'' s1 = Some (r2, s', evs)"
        using ev g Some tk by (auto simp: eval_task_run_def split: bind_splits)
      then show ?thesis by (rule done1)
    next
      case False
      then obtain ls s2 evs1 where l: "server_task_launch cfg le s1 (Some task) = Some (ls, s2, evs1)"
        using ev g Some tk by (auto simp: eval_task_run_def split: bind_splits)
      have po: "proc_only s1 s2" "evs1 = [] \<or> (\<exists>c. evs1 = [Ev_spawn (le_fork le) c])"
        using launch_only [OF l] k1(3) by (auto simp: stores_ok_def)
      have k2: "kept s s2" "sv_client_stack s2 = sv_client_stack s" "stores_ok s2"
        using proc_only_kept [OF po(1) k1(3)] k1 kept_trans kept_stores by auto
      have "\<exists>ty post r2 s3 evs2. respond_fmt f cfg packet ty (if ls = 0 then ''Task '' else ''Failed to run task '') name post s2 = Some (r2, s3, evs2)
          \<and> evs = evs1 @ evs2 \<and> (ls = 0 \<and> drop_task s3 key = Some s' \<or> ls \<noteq> 0 \<and> s' = s3)"
        using ev g Some tk False l by (cases "ls = 0"; (auto simp: eval_task_run_def split: bind_splits; blast))
      then obtain ty pre post r2 s3 evs2 where r: "respond_fmt f cfg packet ty pre name post s2 = Some (r2, s3, evs2)"
        and e: "evs = evs1 @ evs2" and d: "drop_task s3 key = Some s' \<or> s' = s3" by blast
      note a = respond_answers [OF r [unfolded respond_fmt_def] k2(3)]
      have "answered_once le packet s s3 evs" using answered_after [OF r [unfolded respond_fmt_def] k2(3,2) po(2)] e by simp
      moreover have k3: "kept s s3" "stores_ok s3" using a(2) k2(1) kept_trans kept_stores by blast+
      moreover have "kept s3 s'" "sv_client_stack s' = sv_client_stack s3"
      proof -
        have "task_only s3 s'" using d k3(2) drop_task_only [of s3 key s'] task_only_refl by (auto simp: stores_ok_def)
        then show "kept s3 s'" "sv_client_stack s' = sv_client_stack s3" using task_only_kept k3(2) by auto
      qed
      ultimately show ?thesis using kept_trans by (auto simp: answered_once_def)
    qed
  qed
qed

lemma eval_workspace_set_answers:
  assumes ev: "eval_workspace_set f access cfg packet path s = Some (r, s', evs)" and ok: "stores_ok s"
  shows "answered_once le packet s s' evs \<and> kept s s'"
proof (cases "access path")
  case False
  then obtain r2 where "server_respond f cfg packet PROTOCOL_MSG_ERR ''Workspace not found'' s = Some (r2, s', evs)"
    using ev by (auto simp: eval_workspace_set_def split: bind_splits)
  then show ?thesis using respond_answers(2) answered_now ok by blast
next
  case True
  then obtain ws r2 where w: "wr_block (sv_workspace s) 0 (path @ [NUL]) = Some ws"
    and r: "respond_fmt f cfg packet PROTOCOL_MSG_SUCCESS ''Workspace '' path '' set as active'' (s\<lparr>sv_workspace := ws\<rparr>) = Some (r2, s', evs)"
    using ev by (auto simp: eval_workspace_set_def split: bind_splits)
  have s1: "stores_ok (s\<lparr>sv_workspace := ws\<rparr>)" using ok by (simp add: stores_ok_def)
  then have "kept s (s\<lparr>sv_workspace := ws\<rparr>)" using wr_block_length [OF w] by (simp add: kept_def stores_ok_def)
  then show ?thesis
    using respond_answers(2) [OF r [unfolded respond_fmt_def] s1] answered_now [OF r [unfolded respond_fmt_def] s1, of s] kept_trans
    by auto
qed

text \<open>Every way through \<open>server_eval_packet\<close>.\<close>

lemma eval_packet_answers:
  assumes ev: "server_eval_packet f fopen access cfg le packet s = Some (r, s', evs)" and ok: "stores_ok s"
  shows "answered_once le packet s s' evs \<and> kept s s'"
proof -
  obtain r1 ts1 where rd: "protocol_read (cp_data packet) (buffer_size (connection (c_settings cfg))) (Some (sv_token_stream s)) = Some (r1, Some ts1)"
    using ev by (auto simp: server_eval_packet_def split: bind_splits)
  let ?s1 = "s\<lparr>sv_token_stream := ts1\<rparr>"
  have s1: "stores_ok ?s1" "kept s ?s1" using ok by (auto simp: stores_ok_def kept_def)
  have "(\<exists>r2. server_respond f cfg packet PROTOCOL_MSG_ERR ''Invalid command'' ?s1 = Some (r2, s', evs))
      \<or> (\<exists>name vars. eval_task_run f fopen cfg le packet name vars ?s1 = Some (r, s', evs))
      \<or> (\<exists>path. eval_workspace_set f access cfg packet path ?s1 = Some (r, s', evs))"
    using ev rd by (cases "r1 = 0"; (auto simp: server_eval_packet_def Let_def split: bind_splits if_splits; blast))
  then have "answered_once le packet ?s1 s' evs \<and> kept ?s1 s'"
  proof (elim disjE exE)
    fix r2 assume "server_respond f cfg packet PROTOCOL_MSG_ERR ''Invalid command'' ?s1 = Some (r2, s', evs)"
    then show ?thesis using respond_answers(2) answered_now s1(1) by blast
  next
    fix name vars assume "eval_task_run f fopen cfg le packet name vars ?s1 = Some (r, s', evs)"
    then show ?thesis using s1(1) by (rule eval_task_run_answers)
  next
    fix path assume "eval_workspace_set f access cfg packet path ?s1 = Some (r, s', evs)"
    then show ?thesis using s1(1) by (rule eval_workspace_set_answers)
  qed
  then show ?thesis using s1(2) kept_trans by (auto simp: answered_once_def)
qed

section \<open>A turn of the loop\<close>

definition clients_ok :: "Stack \<Rightarrow> bool" where
  "clients_ok s \<longleftrightarrow> stack_ok s \<and> st_item_size s = 4"

definition server_inv :: "Server \<Rightarrow> bool" where
  "server_inv s \<longleftrightarrow> stores_ok s \<and> clients_ok (sv_client_stack s)"

lemma remove_client:
  assumes "clients_ok s" and "k < st_count s" and "stack_remove_at_fast s (int k) = Some (n, s')"
  shows "clients_ok s'" and "st_count s' = st_count s - 1" and "st_capacity s' = st_capacity s"
    and "items s' = butlast ((items s)[k := last (items s)])"
proof -
  have v: "stack_ok s' \<and> items s' = butlast ((items s)[k := last (items s)]) \<and> st_capacity s' = st_capacity s \<and> st_item_size s' = st_item_size s"
    using stack_remove_at_fast_view [of s k] assms by (auto simp: clients_ok_def)
  then show "clients_ok s'" "st_capacity s' = st_capacity s" "items s' = butlast ((items s)[k := last (items s)])"
    using assms(1) by (auto simp: clients_ok_def)
  have "length (items s') = length (items s) - 1" using v by simp
  then show "st_count s' = st_count s - 1" by simp
qed

text \<open>The relation between the states before and after a turn.\<close>

definition same_shape :: "Server \<Rightarrow> Server \<Rightarrow> bool" where
  "same_shape s s' \<longleftrightarrow> sv_running s' = sv_running s \<and> st_capacity (sv_client_stack s') = st_capacity (sv_client_stack s)
     \<and> sl_capacity (sv_process_store s') = sl_capacity (sv_process_store s)
     \<and> sl_capacity (sv_task_store s') = sl_capacity (sv_task_store s)
     \<and> cn_socket (sv_conn s') = cn_socket (sv_conn s) \<and> length (sv_workspace s') = length (sv_workspace s)"

lemma same_shape_refl: "same_shape s s"
  by (simp add: same_shape_def)

lemma same_shape_trans: "same_shape a b \<Longrightarrow> same_shape b c \<Longrightarrow> same_shape a c"
  by (simp add: same_shape_def)

lemma kept_shape: "kept s s' \<Longrightarrow> st_capacity (sv_client_stack s') = st_capacity (sv_client_stack s) \<Longrightarrow> same_shape s s'"
  by (simp add: kept_def same_shape_def)

text \<open>A step for client \<open>i\<close> takes out at most that client's entry.\<close>

lemma client_step_keeps:
  assumes st: "client_step env cfg i s = Some (s', evs)" and inv: "server_inv s" and i: "i < st_count (sv_client_stack s)"
  shows "server_inv s' \<and> same_shape s s' \<and> i \<le> st_count (sv_client_stack s')
    \<and> (sv_client_stack s' = sv_client_stack s \<or> (\<exists>n. stack_remove_at_fast (sv_client_stack s) (int i) = Some (n, sv_client_stack s')))
    \<and> cn_read_flags (sv_conn s') = cn_read_flags (sv_conn s)"
proof -
  let ?cs = "sv_client_stack s"
  have ok: "stores_ok s" "clients_ok ?cs" using inv by (auto simp: server_inv_def)
  have removed: ?thesis if "stack_remove_at_fast ?cs (int i) = Some (n, sv_client_stack s')" and "kept s s'" for n
    using remove_client [OF ok(2) i that(1)] that kept_stores [OF that(2)] kept_shape [OF that(2)] kept_flags [OF that(2)] i by (auto simp: server_inv_def)
  obtain sock where sock: "client_sock ?cs (int i) = Some sock" using st by (auto simp: client_step_def split: bind_splits)
  show ?thesis
  proof (cases "sock = 0")
    case True
    then obtain n cs where c: "stack_remove_at_fast ?cs (int i) = Some (n, cs)" "s' = s\<lparr>sv_client_stack := cs\<rparr>"
      using st sock by (auto simp: client_step_def split: bind_splits)
    have "kept s s'" using ok(1) c(2) by (simp add: kept_def stores_ok_def)
    then show ?thesis using removed c by simp
  next
    case False
    then obtain b where b: "FD_ISSET sock (cn_read_flags (sv_conn s)) = Some b"
      using st sock by (auto simp: client_step_def split: bind_splits)
    consider "s' = s" | bs where "b" "te_read env sock = Some bs" by (cases b; cases "te_read env sock")
        (use st sock False b in \<open>auto simp: client_step_def\<close>)
    then show ?thesis
    proof cases
      case 1
      then show ?thesis using inv i by (auto simp: same_shape_refl)
    next
      case (2 bs)
      show ?thesis
      proof (cases "bs = []")
        case True
        then obtain n cs where c: "stack_remove_at_fast ?cs (int i) = Some (n, cs)" "s' = s\<lparr>sv_client_stack := cs\<rparr>"
          using st sock False b 2 by (auto simp: client_step_def split: bind_splits)
        have "kept s s'" using ok(1) c(2) by (simp add: kept_def stores_ok_def)
        then show ?thesis using removed c by simp
      next
        case ne: False
        then obtain buf' r where p: "server_eval_packet (te_send env) (te_fopen env) (te_access env) cfg (te_launch_client env i)
            \<lparr>cp_socket = sock, cp_client = int i, cp_len = int (length bs), cp_data = Some buf'\<rparr>
            (s\<lparr>sv_conn := (sv_conn s)\<lparr>cn_in_buf := Some buf'\<rparr>\<rparr>) = Some (r, s', evs)"
          using st sock False b 2 by (auto simp: client_step_def Let_def split: bind_splits)
        let ?s1 = "s\<lparr>sv_conn := (sv_conn s)\<lparr>cn_in_buf := Some buf'\<rparr>\<rparr>"
        have s1: "stores_ok ?s1" "kept s ?s1" using ok(1) by (auto simp: stores_ok_def kept_def)
        obtain n where "stack_remove_at_fast ?cs (int i) = Some (n, sv_client_stack s')" "kept ?s1 s'"
          using eval_packet_answers [OF p s1(1)] by (auto simp: answered_once_def)
        then show ?thesis using removed s1(2) kept_trans by blast
      qed
    qed
  qed
qed

lemma client_loop_keeps:
  assumes "client_loop env cfg n s = Some (s', evs)" and "server_inv s" and "n \<le> st_count (sv_client_stack s)"
  shows "server_inv s' \<and> same_shape s s'"
  using assms
proof (induction n arbitrary: s evs)
  case 0
  then show ?case by (simp add: same_shape_refl)
next
  case (Suc i)
  then obtain s1 evs1 evs2 where st: "client_step env cfg i s = Some (s1, evs1)" "client_loop env cfg i s1 = Some (s', evs2)"
    by (auto split: bind_splits)
  have "server_inv s1" "same_shape s s1" "i \<le> st_count (sv_client_stack s1)"
    using client_step_keeps [OF st(1) Suc.prems(2)] Suc.prems(3) by auto
  then show ?case using Suc.IH [OF st(2)] same_shape_trans by blast
qed


text \<open>The queue changes the two stores only.\<close>

lemma queue_loop_keeps:
  assumes "queue_loop cfg le s c n i = Some (r, s', evs)" and "stores_ok s"
  shows "kept s s' \<and> sv_client_stack s' = sv_client_stack s"
  using assms
proof (induction i)
  case 0
  then show ?case by (simp add: kept_refl)
next
  case (Suc i)
  obtain q where q: "slots_get (sv_task_store s) (int i) = Some q" using Suc.prems(1) by (auto split: bind_splits)
  show ?case
  proof (cases q)
    case None
    then show ?thesis using Suc q by simp
  next
    case (Some task)
    then obtain m where m: "queue_match task c n = Some m" using Suc.prems(1) q by (auto split: bind_splits)
    show ?thesis
    proof (cases m)
      case False
      then show ?thesis using Suc q Some m by simp
    next
      case True
      then obtain status s1 where l: "server_task_launch cfg le s (Some task) = Some (status, s1, evs)"
        and d: "s' = s1 \<or> drop_task s1 (int i) = Some s'"
        using Suc.prems(1) q Some m by (auto split: bind_splits if_splits)
      have k1: "kept s s1" "sv_client_stack s1 = sv_client_stack s"
        using proc_only_kept [OF launch_only(1) [OF l]] Suc.prems(2) by (auto simp: stores_ok_def)
      have "task_only s1 s'" using d kept_stores [OF k1(1)] drop_task_only task_only_refl by (auto simp: stores_ok_def)
      then show ?thesis using task_only_kept [OF _ kept_stores [OF k1(1)]] k1 kept_trans by metis
    qed
  qed
qed

lemma check_task_queue_keeps:
  assumes "server_check_task_queue cfg le s c n = Some (r, s', evs)" and "stores_ok s"
  shows "kept s s' \<and> sv_client_stack s' = sv_client_stack s"
  using assms queue_loop_keeps by (auto simp: server_check_task_queue_def kept_refl split: if_splits)

lemma process_print_keeps:
  assumes "server_process_print env cfg p s = Some (s', evs)" and "stores_ok s"
  shows "kept s s' \<and> sv_client_stack s' = sv_client_stack s"
  using assms by (auto simp: server_process_print_def Let_def kept_def stores_ok_def split: bind_splits)

lemma process_step_keeps:
  assumes st: "process_step env cfg i s = Some (s', evs)" and inv: "server_inv s"
  shows "server_inv s' \<and> same_shape s s'"
proof -
  have ok: "stores_ok s" "clients_ok (sv_client_stack s)" using inv by (auto simp: server_inv_def)
  have done1: ?thesis if "kept s s'" "sv_client_stack s' = sv_client_stack s"
    using that kept_stores [OF that(1)] kept_shape [OF that(1)] ok by (simp add: server_inv_def)
  obtain q where q: "slots_get (sv_process_store s) (int i) = Some q" using st by (auto simp: process_step_def split: bind_splits)
  show ?thesis
  proof (cases q)
    case None
    then show ?thesis using st q inv by (simp add: process_step_def same_shape_refl)
  next
    case (Some p)
    show ?thesis
    proof (cases "te_waitpid env (p_pid p) = 0")
      case True
      then show ?thesis using st q Some process_print_keeps ok(1) done1 by (simp add: process_step_def)
    next
      case False
      then obtain name st1 n r evs1 where rm: "slots_remove_at (sv_process_store s) (int i) = Some (n, st1)"
        and c: "server_check_task_queue cfg (te_launch_queue env i) (s\<lparr>sv_process_store := st1\<rparr>) name (int (length name)) = Some (r, s', evs1)"
        using st q Some by (auto simp: process_step_def split: bind_splits)
      let ?s1 = "s\<lparr>sv_process_store := st1\<rparr>"
      have "kept s ?s1" "stores_ok ?s1" using slots_remove_keeps [OF rm] ok(1) by (auto simp: kept_def stores_ok_def)
      then show ?thesis using check_task_queue_keeps [OF c] kept_trans done1 by fastforce
    qed
  qed
qed

lemma process_loop_keeps:
  assumes "process_loop env cfg n s = Some (s', evs)" and "server_inv s"
  shows "server_inv s' \<and> same_shape s s'"
  using assms
proof (induction n arbitrary: s evs)
  case 0
  then show ?case by (simp add: same_shape_refl)
next
  case (Suc i)
  then obtain s1 evs1 evs2 where st: "process_step env cfg i s = Some (s1, evs1)" "process_loop env cfg i s1 = Some (s', evs2)"
    by (auto split: bind_splits)
  then show ?case using process_step_keeps [OF st(1) Suc.prems(2)] Suc.IH [OF st(2)] same_shape_trans by blast
qed


lemma handle_incoming_keeps:
  assumes "server_handle_incoming env conn cfg cs = Some (r, cs', evs)" and "clients_ok cs"
  shows "clients_ok cs' \<and> st_capacity cs' = st_capacity cs"
proof -
  have "cs' = cs \<or> (\<exists>n. stack_push cs (int_bytes (te_accept env)) = Some (n, cs'))"
    using assms(1) by (auto simp: server_handle_incoming_def Let_def split: bind_splits if_splits)
  moreover have "length (int_bytes x) = 4" for x by simp
  ultimately show ?thesis
    using assms(2) stack_push_full [of cs] stack_push_view [of cs "int_bytes (te_accept env)"]
    by (cases "st_count cs < st_capacity cs") (auto simp: clients_ok_def)
qed

lemma check_activity_frame:
  "server_check_activity env s = Some (a, s') \<Longrightarrow>
    s' = s\<lparr>sv_conn := (sv_conn s)\<lparr>cn_read_flags := cn_read_flags (sv_conn s')\<rparr>\<rparr>"
  by (auto simp: server_check_activity_def Let_def split: bind_splits prod.splits)

lemma init_set_socket: "connection_init_set conn cfg = Some conn' \<Longrightarrow> cn_socket conn' = cn_socket conn"
  by (auto simp: connection_init_set_def Let_def split: bind_splits)

lemma server_turn_keeps:
  assumes t: "server_turn env cfg s = Some (s', evs)" and inv: "server_inv s"
  shows "server_inv s' \<and> same_shape s s'"
proof -
  obtain conn a s1 inc cs evs1 s3 evs2 evs3 where c: "connection_init_set (sv_conn s) cfg = Some conn"
    and s1: "server_check_activity env (s\<lparr>sv_conn := conn\<rparr>) = Some (a, s1)"
    and cs: "server_handle_incoming env (sv_conn s1) cfg (sv_client_stack s1) = Some (inc, cs, evs1)"
    and cl: "client_loop env cfg (st_count cs) (s1\<lparr>sv_client_stack := cs\<rparr>) = Some (s3, evs2)"
    and pl: "process_loop env cfg (nat (sl_capacity (sv_process_store s3))) s3 = Some (s', evs3)"
    using t by (auto simp: server_turn_def Let_def split: bind_splits)
  let ?s2 = "s1\<lparr>sv_client_stack := cs\<rparr>"
  note f = check_activity_frame [OF s1]
  have eq: "sv_running s1 = sv_running s" "sv_process_store s1 = sv_process_store s" "sv_task_store s1 = sv_task_store s"
    "sv_workspace s1 = sv_workspace s" "sv_client_stack s1 = sv_client_stack s" "cn_socket (sv_conn s1) = cn_socket conn"
    by (subst f; simp)+
  have "clients_ok cs \<and> st_capacity cs = st_capacity (sv_client_stack s)"
    using handle_incoming_keeps [OF cs] inv eq by (simp add: server_inv_def)
  then have "server_inv ?s2" "same_shape s ?s2"
    using inv eq init_set_socket [OF c] by (auto simp: server_inv_def stores_ok_def same_shape_def)
  then show ?thesis
    using client_loop_keeps [OF cl] process_loop_keeps [OF pl] same_shape_trans by fastforce
qed

interpretation server_machine: machine "\<lambda>env. server_turn env cfg" server_inv same_shape for cfg
  by unfold_locales (use server_turn_keeps same_shape_refl same_shape_trans in blast)+

text \<open>While \<open>server.running\<close> is set, the run loop is the machine.\<close>

lemma server_run_machine:
  "sv_running s \<Longrightarrow> server_inv s \<Longrightarrow> server_run cfg envs s = run_machine (\<lambda>env. server_turn env cfg) envs s"
proof (induction envs arbitrary: s)
  case (Cons env envs)
  show ?case
  proof (cases "server_turn env cfg s")
    case (Some r)
    obtain s1 evs1 where r: "r = (s1, evs1)" by (cases r)
    then have "server_inv s1" "sv_running s1"
      using server_turn_keeps [of env cfg s s1 evs1] Some Cons.prems by (auto simp: same_shape_def)
    then show ?thesis using Cons Some r by simp
  qed (use Cons.prems in simp)
qed simp

end
