(* ===== verification/Requests.thy ===== *)
theory Requests
  imports Server
begin

text \<open>
  Requests of a client from bytes to effects: the answer a client can read back, and the
  outcomes of a request to run a task and of a request to set the workspace, each as a total
  result (the operation returns) under the sizes it needs.
\<close>

section \<open>Answers\<close>

text \<open>The message an answer is, and when the server is able to give one of that length.\<close>

definition reply :: "ProtocolMsgType \<Rightarrow> string \<Rightarrow> ProtocolTokenStream" where
  "reply ty msg = \<lparr>ts_type = msg_code ty, ts_length = 1,
     ts_tokens = [\<lparr>tk_type = token_code PROTOCOL_TOKEN_ARG, tk_value = Some msg\<rparr>]\<rparr>"

definition can_reply :: "os_send \<Rightarrow> Config \<Rightarrow> ClientPacket \<Rightarrow> Server \<Rightarrow> bool" where
  "can_reply f cfg packet s \<longleftrightarrow> send_sane f \<and> send_progress f (cp_socket packet)
     \<and> stream_ok (sv_token_stream s) \<and> ts_tokens (sv_token_stream s) \<noteq> []
     \<and> (\<exists>out. cn_out_buf (sv_conn s) = Some out \<and> int (length out) = buffer_size (connection (c_settings cfg)))
     \<and> clients_ok (sv_client_stack s) \<and> 0 \<le> cp_client packet \<and> cp_client packet < int (st_count (sv_client_stack s))"

definition reply_fits :: "Config \<Rightarrow> string \<Rightarrow> bool" where
  "reply_fits cfg msg \<longleftrightarrow> cstring msg \<and> int (length msg) + 18 \<le> buffer_size (connection (c_settings cfg))"

text \<open>After an answer the server can give the next one.\<close>

definition ready_again :: "Config \<Rightarrow> Server \<Rightarrow> Server \<Rightarrow> bool" where
  "ready_again cfg s s' \<longleftrightarrow> stream_ok (sv_token_stream s')
     \<and> length (ts_tokens (sv_token_stream s')) = length (ts_tokens (sv_token_stream s))
     \<and> (\<exists>out. cn_out_buf (sv_conn s') = Some out \<and> int (length out) = buffer_size (connection (c_settings cfg)))"

lemma ready_again_workspace [simp]: "ready_again cfg (s\<lparr>sv_workspace := w\<rparr>) s' = ready_again cfg s s'"
  by (simp add: ready_again_def)

text \<open>The text \<open>pre'arg'post\<close>, and the events of an answer: four bytes of the output buffer follow
  the message.\<close>

abbreviation quoted :: "string \<Rightarrow> string \<Rightarrow> string \<Rightarrow> string" where
  "quoted pre arg post \<equiv> pre @ [QUOTE] @ arg @ [QUOTE] @ post"

abbreviation answer :: "ClientPacket \<Rightarrow> ProtocolMsgType \<Rightarrow> string \<Rightarrow> byte list \<Rightarrow> event list" where
  "answer packet ty msg x \<equiv> [Ev_send (cp_socket packet) (message (reply ty msg) @ x), Ev_close (cp_socket packet)]"

lemma msg_code_range: "0 \<le> msg_code ty \<and> msg_code ty < 9"
  by (cases ty) simp_all

lemma reply_ok: "cstring msg \<Longrightarrow> stream_ok (reply ty msg)"
  using msg_code_range [of ty] by (simp add: stream_ok_def reply_def in_int32_def token_ok_def)

lemma reply_real: "real_tokens (reply ty msg) = ts_tokens (reply ty msg)"
  by (simp add: real_tokens_def reply_def tk_real_def)

lemma reply_length: "length (message (reply ty msg)) = 14 + length msg"
  unfolding message_length payload_def reply_real by (simp add: reply_def enc_token_def)

text \<open>The stream \<open>server_send\<close> builds, whatever the stream held before.\<close>

lemma reply_stream:
  assumes "stream_ok ts" and "ts_tokens ts \<noteq> []" and "cstring msg"
  obtains ts1 ts2 where "protocol_tokenstream_reset (ts\<lparr>ts_type := msg_code ty\<rparr>) = Some ts1"
    and "protocol_tokenstream_add_token ts1 PROTOCOL_TOKEN_ARG (Some msg) = Some ts2"
    and "stream_ok ts2" and "message ts2 = message (reply ty msg)" and "length (ts_tokens ts2) = length (ts_tokens ts)"
proof -
  define n where "n = nat (ts_length ts)"
  define tok where "tok = \<lparr>tk_type = token_code PROTOCOL_TOKEN_ARG, tk_value = Some msg\<rparr>"
  have n: "ts_length ts = int n" "n \<le> length (ts_tokens ts)" using assms(1) by (auto simp: stream_ok_def n_def)
  let ?z = "replicate n zero_token @ drop n (ts_tokens ts)"
  let ?ts1 = "ts\<lparr>ts_type := msg_code ty, ts_tokens := ?z, ts_length := 0\<rparr>"
  let ?ts2 = "?ts1\<lparr>ts_tokens := ?z[0 := tok], ts_length := 1\<rparr>"
  have ne: "0 < length ?z" using n assms(2) by simp
  have r: "protocol_tokenstream_reset (ts\<lparr>ts_type := msg_code ty\<rparr>) = Some ?ts1"
    using clear_tokens_eq [of "int n" "ts_tokens ts"] n by (simp add: protocol_tokenstream_reset_def)
  have a: "protocol_tokenstream_add_token ?ts1 PROTOCOL_TOKEN_ARG (Some msg) = Some ?ts2"
    using ne n by (simp add: protocol_tokenstream_add_token_def wr_def tok_def)
  have tok: "tk_real tok" "token_ok tok" using assms(3) by (auto simp: tok_def tk_real_def token_ok_def)
  have "set (?z[0 := tok]) \<subseteq> insert tok (insert zero_token (set (ts_tokens ts)))"
    by (rule order_trans [OF set_update_subset_insert]) (auto dest: in_set_dropD)
  then have "\<forall>t \<in> set (?z[0 := tok]). tk_real t \<longrightarrow> token_ok t"
    using assms(1) tok(2) by (fastforce simp: stream_ok_def tk_real_def zero_token_def)
  moreover have "1 \<le> int (length ?z)" using ne by linarith
  ultimately have ok: "stream_ok ?ts2" using msg_code_range [of ty] by (simp add: stream_ok_def in_int32_def del: length_append)
  have "take 1 (?z[0 := tok]) = [tok]" using ne by (cases "?z") auto
  then have "real_tokens ?ts2 = [tok]" using tok(1) by (simp add: real_tokens_def)
  then have "message ?ts2 = message (reply ty msg)"
    unfolding message_def payload_def reply_real by (simp add: reply_def tok_def)
  then show ?thesis using that r a ok n by (simp del: list_update_append)
qed

text \<open>Answering succeeds: the bytes are the message and the four bytes behind it, the client's entry
  is taken out, and nothing but the stream, the output buffer and the client stack changes.\<close>

lemma respond_total:
  assumes can: "can_reply f cfg packet s" and fit: "reply_fits cfg msg"
  shows "\<exists>n ts ob cs x. server_respond f cfg packet ty msg s =
      Some (n, s\<lparr>sv_token_stream := ts, sv_conn := (sv_conn s)\<lparr>cn_out_buf := Some ob\<rparr>, sv_client_stack := cs\<rparr>,
        [Ev_send (cp_socket packet) (message (reply ty msg) @ x), Ev_close (cp_socket packet)])
    \<and> length x = 4 \<and> stack_remove_at_fast (sv_client_stack s) (cp_client packet) = Some (1, cs)
    \<and> stream_ok ts \<and> length (ts_tokens ts) = length (ts_tokens (sv_token_stream s))
    \<and> int (length ob) = buffer_size (connection (c_settings cfg))"
proof -
  obtain out where out: "cn_out_buf (sv_conn s) = Some out" "int (length out) = buffer_size (connection (c_settings cfg))"
    using can by (auto simp: can_reply_def)
  obtain ts1 ts2 where ts: "protocol_tokenstream_reset ((sv_token_stream s)\<lparr>ts_type := msg_code ty\<rparr>) = Some ts1"
    "protocol_tokenstream_add_token ts1 PROTOCOL_TOKEN_ARG (Some msg) = Some ts2"
    "stream_ok ts2" "message ts2 = message (reply ty msg)" "length (ts_tokens ts2) = length (ts_tokens (sv_token_stream s))"
    using can fit by (auto simp: can_reply_def reply_fits_def intro: reply_stream [of "sv_token_stream s" msg ty])
  let ?m = "message (reply ty msg)"
  have room: "length ?m + 4 \<le> length out" using fit out(2) by (simp add: reply_fits_def reply_length)
  let ?b = "?m @ drop (length ?m) out"
  have w: "take (length ?m + 4) ?b = ?m @ take 4 (drop (length ?m) out)" by simp
  have snd: "protocol_send f (cp_socket packet) (Some out) L (Some ts2) =
      Some ((int (length ?m + 4), ?m @ take 4 (drop (length ?m) out)), Some ?b)" for L
    using protocol_send_all [OF ts(3), of f "cp_socket packet" out L] can room w
    by (simp add: can_reply_def ts(4) Let_def del: take_append)
  obtain cs where cs: "stack_remove_at_fast (sv_client_stack s) (cp_client packet) = Some (1, cs)"
    using stack_remove_at_fast_view [of "sv_client_stack s" "nat (cp_client packet)"] can
    by (auto simp: can_reply_def clients_ok_def nat_less_iff)
  have "server_respond f cfg packet ty msg s = Some (int (length ?m + 4),
      s\<lparr>sv_token_stream := ts2, sv_conn := (sv_conn s)\<lparr>cn_out_buf := Some ?b\<rparr>, sv_client_stack := cs\<rparr>,
      answer packet ty msg (take 4 (drop (length ?m) out)))"
    using ts(1,2) snd out(1) cs by (simp add: server_respond_def server_send_def)
  moreover have "int (length ?b) = buffer_size (connection (c_settings cfg))" "length (take 4 (drop (length ?m) out)) = 4"
    using out(2) room by simp_all
  ultimately show ?thesis using cs ts(3,5) by blast
qed

lemma respond_fmt_eq:
  assumes "reply_fits cfg (pre @ [QUOTE] @ arg @ [QUOTE] @ post)"
  shows "respond_fmt f cfg packet ty pre arg post s = server_respond f cfg packet ty (pre @ [QUOTE] @ arg @ [QUOTE] @ post) s"
proof -
  have "length (pre @ [QUOTE] @ arg @ [QUOTE] @ post) \<le> nat (buffer_size (connection (c_settings cfg)) - 1)"
    using assms unfolding reply_fits_def by linarith
  then show ?thesis by (simp only: respond_fmt_def take_all)
qed


section \<open>A request to run a task\<close>

text \<open>The active workspace is a well-formed file, there is a free task slot, and the strings of the
  task fit.\<close>

definition task_request ::
  "(string \<Rightarrow> byte list option) \<Rightarrow> Config \<Rightarrow> Server \<Rightarrow> ini_line list \<Rightarrow> string \<Rightarrow> string list \<Rightarrow> bool" where
  "task_request fopen cfg s ls name es \<longleftrightarrow>
     slots_ok (sv_task_store s) \<and> 0 < sl_open_cnt (sv_task_store s)
     \<and> (\<exists>path. cstr_at (sv_workspace s) 0 = Some path \<and> fopen path = Some (render_doc ls)) \<and> doc_ok ls ([], None)
     \<and> cstring name \<and> length name < name_cap cfg \<and> (\<forall>e \<in> set es. cstring e)
     \<and> fits_in (buf_cap cfg) (var_cap cfg) (task_of ls name es)"

text \<open>The process the launch of a task makes, from the text of the workspace.\<close>

definition child_of :: "Config \<Rightarrow> ini_line list \<Rightarrow> string \<Rightarrow> string list \<Rightarrow> child option" where
  "child_of cfg ls name es =
     (let a = task_of ls name es in
      case at_cmd a of
        None \<Rightarrow> None
      | Some cmd \<Rightarrow>
          if length (at_env a) < var_cap cfg
          then Some \<lparr>ch_argv = [cmd_bin_path (general (c_settings cfg)), ''-c'', cmd], ch_dir = at_dir a, ch_env = at_env a\<rparr>
          else None)"

lemma get_task_missing:
  assumes "task_request fopen cfg s ls name es" and "at_cmd (task_of ls name es) = None"
  obtains st where "get_task fopen cfg (Some name) (Some (map Some es @ None # r)) s = Some (None, s\<lparr>sv_task_store := st\<rparr>)"
    and "slots_ok st" and "slots_view st = slots_view (sv_task_store s)"
proof -
  obtain path where p: "cstr_at (sv_workspace s) 0 = Some path" "fopen path = Some (render_doc ls)"
    using assms(1) by (auto simp: task_request_def)
  show ?thesis
    using that assms get_task_of_file [where fopen = fopen and path = path and server = s and ls = ls and name = name
        and es = es and cfg = cfg and r = r] p by (auto simp: task_request_def)
qed

lemma get_task_found:
  assumes "task_request fopen cfg s ls name es" and "at_cmd (task_of ls name es) = Some cmd"
  obtains key t st where "get_task fopen cfg (Some name) (Some (map Some es @ None # r)) s = Some (Some key, s\<lparr>sv_task_store := st\<rparr>)"
    and "slots_ok st" and "slots_view (sv_task_store s) key = None" and "slots_view st = (slots_view (sv_task_store s))(key \<mapsto> t)"
    and "task_named cfg t name (at_wait (task_of ls name es))" and "child_exec cfg t = child_of cfg ls name es"
    and "slots_get st key = Some (Some t)"
proof -
  obtain path where p: "cstr_at (sv_workspace s) 0 = Some path" "fopen path = Some (render_doc ls)"
    using assms(1) by (auto simp: task_request_def)
  obtain key t st where g: "get_task fopen cfg (Some name) (Some (map Some es @ None # r)) s = Some (Some key, s\<lparr>sv_task_store := st\<rparr>)"
    "slots_ok st" "slots_view (sv_task_store s) key = None" "slots_view st = (slots_view (sv_task_store s))(key \<mapsto> t)"
    and t: "task_str t (t_name t) = Some name" "task_str t (t_wait t) = at_wait (task_of ls name es)"
      "(t_wait t = None) = (at_wait (task_of ls name es) = None)" "child_exec cfg t = child_of cfg ls name es"
    using assms get_task_of_file [where fopen = fopen and path = path and server = s and ls = ls and name = name
        and es = es and cfg = cfg and r = r] p by (auto simp: task_request_def child_of_def Let_def)
  have "task_named cfg t name (at_wait (task_of ls name es))"
    using t assms(1) by (auto simp: task_named_def task_request_def task_str_def split: option.splits)
  moreover have v: "slots_view st key = Some t" using g(4) by simp
  then have "slots_get st key = Some (Some t)" using slots_get_view [OF g(2) view_in_range [OF g(2) v]] by simp
  ultimately show ?thesis using that g t by blast
qed

lemma can_reply_frame:
  assumes "can_reply f cfg packet s" and "sv_token_stream s' = sv_token_stream s" and "sv_conn s' = sv_conn s"
    and "sv_client_stack s' = sv_client_stack s"
  shows "can_reply f cfg packet s'"
  using assms by (simp add: can_reply_def)

text \<open>The final state of a request: the client is out of the stack, the workspace is unchanged.\<close>

definition client_done :: "ClientPacket \<Rightarrow> Server \<Rightarrow> Server \<Rightarrow> bool" where
  "client_done packet s s' \<longleftrightarrow> sv_workspace s' = sv_workspace s
     \<and> stack_remove_at_fast (sv_client_stack s) (cp_client packet) = Some (1, sv_client_stack s')"


lemma reply_ready:
  assumes "can_reply f cfg packet s" and "reply_fits cfg (quoted pre arg post)"
  obtains n s' x where "respond_fmt f cfg packet ty pre arg post s = Some (n, s', answer packet ty (quoted pre arg post) x)"
    and "length x = 4" and "client_done packet s s'"
    and "sv_task_store s' = sv_task_store s" and "sv_process_store s' = sv_process_store s" and "ready_again cfg s s'"
proof -
  obtain n ts ob cs x where r: "server_respond f cfg packet ty (quoted pre arg post) s =
      Some (n, s\<lparr>sv_token_stream := ts, sv_conn := (sv_conn s)\<lparr>cn_out_buf := Some ob\<rparr>, sv_client_stack := cs\<rparr>,
        answer packet ty (quoted pre arg post) x)" "length x = 4"
      "stack_remove_at_fast (sv_client_stack s) (cp_client packet) = Some (1, cs)"
      "stream_ok ts" "length (ts_tokens ts) = length (ts_tokens (sv_token_stream s))"
      "int (length ob) = buffer_size (connection (c_settings cfg))"
    using respond_total [OF assms, of ty] by blast
  show ?thesis by (rule that [OF trans [OF respond_fmt_eq [OF assms(2)] r(1)] r(2)])
      (use r(3-6) in \<open>simp_all add: client_done_def ready_again_def\<close>)
qed

lemma reply_done:
  assumes "can_reply f cfg packet s" and "reply_fits cfg (quoted pre arg post)"
  obtains n s' x where "respond_fmt f cfg packet ty pre arg post s = Some (n, s', answer packet ty (quoted pre arg post) x)"
    and "length x = 4" and "client_done packet s s'"
    and "sv_task_store s' = sv_task_store s" and "sv_process_store s' = sv_process_store s"
  by (rule reply_ready [OF assms])

lemma eval_task_run_missing:
  assumes q: "task_request fopen cfg s ls name es" and n: "at_cmd (task_of ls name es) = None"
    and can: "can_reply f cfg packet s" and fit: "reply_fits cfg (quoted ''Task '' name '' not found'')"
  shows "\<exists>s' x. eval_task_run f fopen cfg le packet name (map Some es @ None # r) s =
      Some (-1, s', answer packet PROTOCOL_MSG_ERR (quoted ''Task '' name '' not found'') x)
    \<and> length x = 4 \<and> client_done packet s s'
    \<and> slots_view (sv_task_store s') = slots_view (sv_task_store s) \<and> sv_process_store s' = sv_process_store s"
proof -
  obtain st where g: "get_task fopen cfg (Some name) (Some (map Some es @ None # r)) s = Some (None, s\<lparr>sv_task_store := st\<rparr>)"
    "slots_view st = slots_view (sv_task_store s)" using get_task_missing [OF q n] by metis
  have "can_reply f cfg packet (s\<lparr>sv_task_store := st\<rparr>)" using can by (simp add: can_reply_def)
  from reply_done [OF this fit, of PROTOCOL_MSG_ERR] obtain m s' x where
    "respond_fmt f cfg packet PROTOCOL_MSG_ERR ''Task '' name '' not found'' (s\<lparr>sv_task_store := st\<rparr>) =
      Some (m, s', answer packet PROTOCOL_MSG_ERR (quoted ''Task '' name '' not found'') x)" "length x = 4" "client_done packet s s'"
    "sv_task_store s' = st" "sv_process_store s' = sv_process_store s" by (auto simp: client_done_def)
  then show ?thesis using g by (simp add: eval_task_run_def)
qed

lemma eval_task_run_queued:
  assumes q: "task_request fopen cfg s ls name es" and n: "at_cmd (task_of ls name es) = Some cmd"
    and can: "can_reply f cfg packet s" and fit: "reply_fits cfg (quoted ''Task '' name '' put in queue'')"
    and p: "slots_ok (sv_process_store s)" "procs_named s" and w: "waits_on s (at_wait (task_of ls name es))"
  shows "\<exists>s' x key t. eval_task_run f fopen cfg le packet name (map Some es @ None # r) s =
      Some (0, s', answer packet PROTOCOL_MSG_SUCCESS (quoted ''Task '' name '' put in queue'') x)
    \<and> length x = 4 \<and> client_done packet s s'
    \<and> slots_view (sv_task_store s) key = None \<and> slots_view (sv_task_store s') = (slots_view (sv_task_store s))(key \<mapsto> t)
    \<and> task_named cfg t name (at_wait (task_of ls name es)) \<and> child_exec cfg t = child_of cfg ls name es
    \<and> sv_process_store s' = sv_process_store s"
proof -
  obtain key t st where g: "get_task fopen cfg (Some name) (Some (map Some es @ None # r)) s = Some (Some key, s\<lparr>sv_task_store := st\<rparr>)"
    "slots_view (sv_task_store s) key = None" "slots_view st = (slots_view (sv_task_store s))(key \<mapsto> t)"
    "task_named cfg t name (at_wait (task_of ls name es))" "child_exec cfg t = child_of cfg ls name es"
    "slots_get st key = Some (Some t)" using get_task_found [OF q n, of r] by metis
  let ?s1 = "s\<lparr>sv_task_store := st\<rparr>"
  have "server_task_wait_match ?s1 t = Some True"
    using wait_match_eq [of ?s1, OF _ g(4)] p w by (simp add: procs_named_def waits_on_def)
  moreover have "can_reply f cfg packet ?s1" using can by (simp add: can_reply_def)
  from reply_done [OF this fit, of PROTOCOL_MSG_SUCCESS] obtain m s' x where
    "respond_fmt f cfg packet PROTOCOL_MSG_SUCCESS ''Task '' name '' put in queue'' ?s1 =
      Some (m, s', answer packet PROTOCOL_MSG_SUCCESS (quoted ''Task '' name '' put in queue'') x)" "length x = 4" "client_done packet s s'"
    "sv_task_store s' = st" "sv_process_store s' = sv_process_store s" by (auto simp: client_done_def)
  ultimately show ?thesis using g by (intro exI [of _ s'] exI [of _ x] exI [of _ key] exI [of _ t]) (simp add: eval_task_run_def)
qed


lemma eval_task_run_started:
  assumes q: "task_request fopen cfg s ls name es" and n: "at_cmd (task_of ls name es) = Some cmd"
    and can: "can_reply f cfg packet s" and fit: "reply_fits cfg (quoted ''Task '' name '' started succesfully'')"
    and p: "slots_ok (sv_process_store s)" "procs_named s" and w: "\<not> waits_on s (at_wait (task_of ls name es))"
    and room: "1 \<le> sl_open_cnt (sv_process_store s)" and le: "launch_ready le"
  shows "\<exists>s' x k pr. eval_task_run f fopen cfg le packet name (map Some es @ None # r) s =
      Some (0, s', Ev_spawn (le_fork le) (child_of cfg ls name es)
        # answer packet PROTOCOL_MSG_SUCCESS (quoted ''Task '' name '' started succesfully'') x)
    \<and> length x = 4 \<and> client_done packet s s'
    \<and> slots_view (sv_process_store s) k = None \<and> slots_view (sv_process_store s') = (slots_view (sv_process_store s))(k \<mapsto> pr)
    \<and> proc_name pr = Some name \<and> p_pid pr = le_fork le
    \<and> slots_view (sv_task_store s') = slots_view (sv_task_store s)"
proof -
  obtain key t st where g: "get_task fopen cfg (Some name) (Some (map Some es @ None # r)) s = Some (Some key, s\<lparr>sv_task_store := st\<rparr>)"
    "slots_ok st" "slots_view (sv_task_store s) key = None" "slots_view st = (slots_view (sv_task_store s))(key \<mapsto> t)"
    "task_named cfg t name (at_wait (task_of ls name es))" "child_exec cfg t = child_of cfg ls name es"
    "slots_get st key = Some (Some t)" using get_task_found [OF q n, of r] by metis
  let ?s1 = "s\<lparr>sv_task_store := st\<rparr>" and ?m = "quoted ''Task '' name '' started succesfully''"
  have wm: "server_task_wait_match ?s1 t = Some False"
    using wait_match_eq [of ?s1, OF _ g(5)] p w by (simp add: procs_named_def waits_on_def)
  have ps: "sv_process_store ?s1 = sv_process_store s" by simp
  obtain k pr ps where l: "server_task_launch cfg le ?s1 (Some t) =
      Some (0, ?s1\<lparr>sv_process_store := ps\<rparr>, [Ev_spawn (le_fork le) (child_exec cfg t)])"
    "slots_view (sv_process_store s) k = None" "slots_view ps = (slots_view (sv_process_store s))(k \<mapsto> pr)"
    "proc_name pr = Some name" "p_pid pr = le_fork le"
    using launch_done [OF le, of ?s1, unfolded ps, OF p(1) room g(5)] by blast
  let ?s2 = "?s1\<lparr>sv_process_store := ps\<rparr>"
  have "can_reply f cfg packet ?s2" using can by (simp add: can_reply_def)
  from reply_done [OF this fit, of PROTOCOL_MSG_SUCCESS] obtain m s3 x where
    r3: "respond_fmt f cfg packet PROTOCOL_MSG_SUCCESS ''Task '' name '' started succesfully'' ?s2 =
      Some (m, s3, answer packet PROTOCOL_MSG_SUCCESS ?m x)" "length x = 4" "client_done packet s s3"
    "sv_task_store s3 = st" "sv_process_store s3 = ps" by (auto simp: client_done_def)
  obtain st' where d: "drop_task s3 key = Some (s3\<lparr>sv_task_store := st'\<rparr>)" "slots_view st' = (slots_view st)(key := None)"
    using drop_task_view [of s3 key t] r3(4) g(2,4) by auto
  have "eval_task_run f fopen cfg le packet name (map Some es @ None # r) s =
      Some (0, s3\<lparr>sv_task_store := st'\<rparr>, Ev_spawn (le_fork le) (child_of cfg ls name es) # answer packet PROTOCOL_MSG_SUCCESS ?m x)"
    using g(1,6,7) wm l(1) r3(1) d(1) by (simp add: eval_task_run_def)
  moreover have "slots_view st' = slots_view (sv_task_store s)" using d(2) g(3,4) by (simp add: fun_upd_idem)
  ultimately show ?thesis using r3(2,3,5) l by (intro exI [of _ "s3\<lparr>sv_task_store := st'\<rparr>"]) (auto simp: client_done_def)
qed

text \<open>When the launch is refused the client is told so, but the task stays in the store.\<close>

lemma eval_task_run_refused:
  assumes q: "task_request fopen cfg s ls name es" and n: "at_cmd (task_of ls name es) = Some cmd"
    and can: "can_reply f cfg packet s" and fit: "reply_fits cfg (quoted ''Failed to run task '' name [])"
    and p: "slots_ok (sv_process_store s)" "procs_named s" and w: "\<not> waits_on s (at_wait (task_of ls name es))"
    and le: "sl_open_cnt (sv_process_store s) < 1 \<or> \<not> launch_ready le"
  shows "\<exists>s' x key t. eval_task_run f fopen cfg le packet name (map Some es @ None # r) s =
      Some (-1, s', answer packet PROTOCOL_MSG_ERR (quoted ''Failed to run task '' name []) x)
    \<and> length x = 4 \<and> client_done packet s s'
    \<and> slots_view (sv_task_store s) key = None \<and> slots_view (sv_task_store s') = (slots_view (sv_task_store s))(key \<mapsto> t)
    \<and> task_named cfg t name (at_wait (task_of ls name es)) \<and> child_exec cfg t = child_of cfg ls name es
    \<and> sv_process_store s' = sv_process_store s"
proof -
  obtain key t st where g: "get_task fopen cfg (Some name) (Some (map Some es @ None # r)) s = Some (Some key, s\<lparr>sv_task_store := st\<rparr>)"
    "slots_view (sv_task_store s) key = None" "slots_view st = (slots_view (sv_task_store s))(key \<mapsto> t)"
    "task_named cfg t name (at_wait (task_of ls name es))" "child_exec cfg t = child_of cfg ls name es"
    "slots_get st key = Some (Some t)" using get_task_found [OF q n, of r] by metis
  let ?s1 = "s\<lparr>sv_task_store := st\<rparr>"
  have "server_task_wait_match ?s1 t = Some False"
    using wait_match_eq [of ?s1, OF _ g(4)] p w by (simp add: procs_named_def waits_on_def)
  moreover have "server_task_launch cfg le ?s1 (Some t) = Some (-1, ?s1, [])"
    using le by (auto simp: server_task_launch_def launch_ready_def split: option.splits)
  moreover have "can_reply f cfg packet ?s1" using can by (simp add: can_reply_def)
  from reply_done [OF this fit, of PROTOCOL_MSG_ERR] obtain m s' x where
    "respond_fmt f cfg packet PROTOCOL_MSG_ERR ''Failed to run task '' name [] ?s1 =
      Some (m, s', answer packet PROTOCOL_MSG_ERR (quoted ''Failed to run task '' name []) x)" "length x = 4" "client_done packet s s'"
    "sv_task_store s' = st" "sv_process_store s' = sv_process_store s" by (auto simp: client_done_def)
  ultimately show ?thesis using g by (intro exI [of _ s'] exI [of _ x] exI [of _ key] exI [of _ t]) (simp add: eval_task_run_def)
qed


section \<open>Requests on the wire\<close>

text \<open>A request of type \<open>ty\<close> whose first argument is \<open>arg\<close> and whose variables are \<open>es\<close>. Like the
  client's, the stream may count entries it skips; the receive buffer is zero behind the message.\<close>

definition request_ok :: "Server \<Rightarrow> ProtocolTokenStream \<Rightarrow> nat \<Rightarrow> ProtocolMsgType \<Rightarrow> string \<Rightarrow> string list \<Rightarrow> bool" where
  "request_ok s ts z ty arg es \<longleftrightarrow> stream_ok ts \<and> ts_type ts = msg_code ty
     \<and> ts_length ts \<le> int (length (ts_tokens (sv_token_stream s)))
     \<and> 2 * (nat (ts_length ts) - length (real_tokens ts)) \<le> z
     \<and> (\<exists>rest. values_of PROTOCOL_TOKEN_ARG (real_tokens ts) = Some arg # rest \<and> Suc (length rest) < nat (ts_length ts))
     \<and> values_of PROTOCOL_TOKEN_VAR (real_tokens ts) = map Some es \<and> length es < nat (ts_length ts)"

lemma values_of_append: "values_of ty (xs @ ys) = values_of ty xs @ values_of ty ys"
  by (simp add: values_of_def)

lemma values_of_padding:
  "values_of PROTOCOL_TOKEN_ARG (replicate k empty_token) = []" "values_of PROTOCOL_TOKEN_VAR (replicate k empty_token) = []"
  by (simp_all add: values_of_def empty_token_def)

lemma request_decoded:
  assumes q: "request_ok s ts z ty arg es" and rx: "stream_ok (sv_token_stream s)"
  obtains ts1 args r n where "protocol_read (Some (message ts @ replicate z NUL)) L (Some (sv_token_stream s)) = Some (0, Some ts1)"
    and "stream_ok ts1" and "ts_tokens ts1 \<noteq> []" and "ts_type ts1 = msg_code ty" and "nat (ts_length ts1) = n"
    and "length (ts_tokens ts1) = length (ts_tokens (sv_token_stream s))"
    and "protocol_parse_token_stream ts1 (replicate n None) (replicate n None) =
      Some (0, msg_code ty mod 256, Some arg # args, map Some es @ None # r)"
proof -
  define n where "n = nat (ts_length ts)"
  define pad where "pad = replicate (n - length (real_tokens ts)) empty_token"
  let ?rest = "drop n (ts_tokens (sv_token_stream s))"
  let ?ts1 = "\<lparr>ts_type = ts_type ts, ts_length = ts_length ts, ts_tokens = real_tokens ts @ pad @ ?rest\<rparr>"
  obtain rest where a: "values_of PROTOCOL_TOKEN_ARG (real_tokens ts) = Some arg # rest" "Suc (length rest) < n"
    using q by (auto simp: request_ok_def n_def)
  have v: "values_of PROTOCOL_TOKEN_VAR (real_tokens ts) = map Some es" "length es < n"
    using q by (auto simp: request_ok_def n_def)
  have ts: "stream_ok ts" "ts_length ts \<le> int (length (ts_tokens (sv_token_stream s)))" "1 \<le> ts_length ts" "ts_length ts = int n"
    "ts_type ts = msg_code ty" using q v(2) by (auto simp: request_ok_def n_def)
  have rd: "protocol_read (Some (message ts @ replicate z NUL)) L (Some (sv_token_stream s)) = Some (0, Some ?ts1)"
    using dec_many_zeros [of "n - length (real_tokens ts)" z "[]"] q
    by (simp add: protocol_read_message [OF ts(1,3,2)] request_ok_def n_def pad_def)
  have cnt: "length (real_tokens ts @ pad) = n" using real_tokens_count [OF ts(1)] by (simp add: pad_def n_def)
  have "\<forall>t \<in> set (real_tokens ts @ pad @ ?rest). tk_real t \<longrightarrow> token_ok t"
    using ts(1) rx unfolding stream_ok_def real_tokens_def pad_def
    by (auto simp: empty_token_def tk_real_def dest: in_set_takeD in_set_dropD)
  then have ok: "stream_ok ?ts1" using ts cnt by (auto simp: stream_ok_def)
  have tk: "take n (real_tokens ts @ pad @ ?rest) = real_tokens ts @ pad" using cnt by simp
  have "values_of PROTOCOL_TOKEN_ARG (real_tokens ts @ pad) = Some arg # rest"
    "values_of PROTOCOL_TOKEN_VAR (real_tokens ts @ pad) = map Some es"
    using a v by (simp_all add: values_of_append values_of_padding pad_def)
  then have "protocol_parse_token_stream ?ts1 (replicate n None) (replicate n None) =
      Some (0, msg_code ty mod 256, Some arg # rest @ None # replicate (n - Suc (Suc (length rest))) None,
        map Some es @ None # replicate (n - Suc (length es)) None)"
    using parse_token_stream_eq [OF ok, of "replicate n None" "replicate n None"] a(2) v(2) tk ts(4,5)
    by (simp add: Let_def n_def [symmetric])
  moreover have "ts_tokens ?ts1 \<noteq> []" using cnt v(2) by auto
  moreover have "ts_type ?ts1 = msg_code ty" "nat (ts_length ?ts1) = n" using ts(4,5) by simp_all
  moreover have "length (ts_tokens ?ts1) = length (ts_tokens (sv_token_stream s))" using cnt ts(2,4) by simp
  ultimately show ?thesis using that [OF rd ok] by blast
qed

lemma eval_packet_run:
  assumes q: "request_ok s ts z PROTOCOL_MSG_TASK_RUN name es" and rx: "stream_ok (sv_token_stream s)"
    and d: "cp_data packet = Some (message ts @ replicate z NUL)"
  obtains ts1 r where "stream_ok ts1" and "ts_tokens ts1 \<noteq> []"
    and "server_eval_packet f fopen access cfg le packet s =
      eval_task_run f fopen cfg le packet name (map Some es @ None # r) (s\<lparr>sv_token_stream := ts1\<rparr>)"
proof -
  obtain ts1 args r n where "protocol_read (Some (message ts @ replicate z NUL)) (buffer_size (connection (c_settings cfg)))
      (Some (sv_token_stream s)) = Some (0, Some ts1)"
    "stream_ok ts1" "ts_tokens ts1 \<noteq> []" "ts_type ts1 = msg_code PROTOCOL_MSG_TASK_RUN" "nat (ts_length ts1) = n"
    "protocol_parse_token_stream ts1 (replicate n None) (replicate n None) =
      Some (0, msg_code PROTOCOL_MSG_TASK_RUN mod 256, Some name # args, map Some es @ None # r)"
    using request_decoded [OF q rx] by metis
  then show ?thesis using that [of ts1 r] d by (simp add: server_eval_packet_def rd_def)
qed

lemma eval_packet_workspace:
  assumes q: "request_ok s ts z PROTOCOL_MSG_WORKSPACE_SET path es" and rx: "stream_ok (sv_token_stream s)"
    and d: "cp_data packet = Some (message ts @ replicate z NUL)"
  obtains ts1 where "stream_ok ts1" and "ts_tokens ts1 \<noteq> []"
    and "length (ts_tokens ts1) = length (ts_tokens (sv_token_stream s))"
    and "server_eval_packet f fopen access cfg le packet s =
      eval_workspace_set f access cfg packet path (s\<lparr>sv_token_stream := ts1\<rparr>)"
proof -
  obtain ts1 args r n where "protocol_read (Some (message ts @ replicate z NUL)) (buffer_size (connection (c_settings cfg)))
      (Some (sv_token_stream s)) = Some (0, Some ts1)"
    "stream_ok ts1" "ts_tokens ts1 \<noteq> []" "ts_type ts1 = msg_code PROTOCOL_MSG_WORKSPACE_SET" "nat (ts_length ts1) = n"
    "length (ts_tokens ts1) = length (ts_tokens (sv_token_stream s))"
    "protocol_parse_token_stream ts1 (replicate n None) (replicate n None) =
      Some (0, msg_code PROTOCOL_MSG_WORKSPACE_SET mod 256, Some path # args, map Some es @ None # r)"
    using request_decoded [OF q rx] by metis
  then show ?thesis using that [of ts1] d by (simp add: server_eval_packet_def rd_def)
qed

text \<open>Decoding changes the token stream only, which none of the other conditions mention.\<close>

lemma stream_frame [simp]:
  "task_request fopen cfg (s\<lparr>sv_token_stream := ts1\<rparr>) ls name es = task_request fopen cfg s ls name es"
  "procs_named (s\<lparr>sv_token_stream := ts1\<rparr>) = procs_named s"
  "waits_on (s\<lparr>sv_token_stream := ts1\<rparr>) w = waits_on s w"
  "client_done packet (s\<lparr>sv_token_stream := ts1\<rparr>) s' = client_done packet s s'"
  by (simp_all add: task_request_def procs_named_def waits_on_def client_done_def)

lemma can_reply_stream:
  "can_reply f cfg packet s \<Longrightarrow> stream_ok ts1 \<Longrightarrow> ts_tokens ts1 \<noteq> [] \<Longrightarrow> can_reply f cfg packet (s\<lparr>sv_token_stream := ts1\<rparr>)"
  by (simp add: can_reply_def)


section \<open>A request to set the workspace\<close>

lemma eval_workspace_set_total:
  assumes can: "can_reply f cfg packet s" and fit: "reply_fits cfg (quoted ''Workspace '' path '' set as active'')" and acc: "access path"
  shows "length path < length (sv_workspace s) \<Longrightarrow>
      \<exists>s' x. eval_workspace_set f access cfg packet path s =
        Some (0, s', answer packet PROTOCOL_MSG_SUCCESS (quoted ''Workspace '' path '' set as active'') x)
      \<and> length x = 4 \<and> cstr_at (sv_workspace s') 0 = Some path \<and> length (sv_workspace s') = length (sv_workspace s)
      \<and> sv_task_store s' = sv_task_store s \<and> sv_process_store s' = sv_process_store s
      \<and> stack_remove_at_fast (sv_client_stack s) (cp_client packet) = Some (1, sv_client_stack s') \<and> ready_again cfg s s'"
    and "length (sv_workspace s) \<le> length path \<Longrightarrow> eval_workspace_set f access cfg packet path s = None"
proof -
  have w: "wr_block (sv_workspace s) 0 (path @ [NUL]) =
      (if length path < length (sv_workspace s) then Some (path @ NUL # drop (Suc (length path)) (sv_workspace s)) else None)"
    using wr_block_nat [of "sv_workspace s" 0 "path @ [NUL]"] by auto
  have path: "cstring path" using fit by (simp add: reply_fits_def cstring_def)
  {
    assume l: "length path < length (sv_workspace s)"
    let ?ws = "path @ NUL # drop (Suc (length path)) (sv_workspace s)"
    have "can_reply f cfg packet (s\<lparr>sv_workspace := ?ws\<rparr>)" using can by (simp add: can_reply_def)
    from reply_ready [OF this fit, of PROTOCOL_MSG_SUCCESS] obtain m s' x where
      r: "respond_fmt f cfg packet PROTOCOL_MSG_SUCCESS ''Workspace '' path '' set as active'' (s\<lparr>sv_workspace := ?ws\<rparr>) =
        Some (m, s', answer packet PROTOCOL_MSG_SUCCESS (quoted ''Workspace '' path '' set as active'') x)" "length x = 4"
      "client_done packet (s\<lparr>sv_workspace := ?ws\<rparr>) s'" "sv_task_store s' = sv_task_store s" "sv_process_store s' = sv_process_store s"
      "ready_again cfg s s'"
      by auto
    have "cstr_at ?ws 0 = Some path" using cstr_at_append [OF path, of "[]"] by simp
    then show "\<exists>s' x. eval_workspace_set f access cfg packet path s =
        Some (0, s', answer packet PROTOCOL_MSG_SUCCESS (quoted ''Workspace '' path '' set as active'') x)
      \<and> length x = 4 \<and> cstr_at (sv_workspace s') 0 = Some path \<and> length (sv_workspace s') = length (sv_workspace s)
      \<and> sv_task_store s' = sv_task_store s \<and> sv_process_store s' = sv_process_store s
      \<and> stack_remove_at_fast (sv_client_stack s) (cp_client packet) = Some (1, sv_client_stack s') \<and> ready_again cfg s s'"
      using r l w acc by (intro exI [of _ s'] exI [of _ x]) (simp add: eval_workspace_set_def client_done_def)
  next
    assume "length (sv_workspace s) \<le> length path"
    then show "eval_workspace_set f access cfg packet path s = None" using w acc by (simp add: eval_workspace_set_def)
  }
qed

text \<open>A second client can be answered after the first.\<close>

lemma next_can_reply:
  assumes "can_reply f cfg p1 s" and "ready_again cfg s s1"
    and "stack_remove_at_fast (sv_client_stack s) (cp_client p1) = Some (1, sv_client_stack s1)"
    and "send_progress f (cp_socket p2)" and "0 \<le> cp_client p2" and "cp_client p2 + 1 < int (st_count (sv_client_stack s))"
  shows "can_reply f cfg p2 s1"
proof -
  have k: "nat (cp_client p1) < st_count (sv_client_stack s)" "int (nat (cp_client p1)) = cp_client p1"
    using assms(1) by (auto simp: can_reply_def)
  note r = remove_client [of "sv_client_stack s" "nat (cp_client p1)" 1 "sv_client_stack s1", OF _ k(1)]
  have "clients_ok (sv_client_stack s1)" "st_count (sv_client_stack s1) = st_count (sv_client_stack s) - 1"
    using r(1,2) assms(1,3) k(2) by (auto simp: can_reply_def)
  moreover have "ts_tokens (sv_token_stream s1) \<noteq> []" using assms(1,2) by (auto simp: can_reply_def ready_again_def)
  ultimately show ?thesis using assms by (auto simp: can_reply_def ready_again_def)
qed

text \<open>A request from the wire to the started process.\<close>

lemma run_started:
  assumes "request_ok s ts z PROTOCOL_MSG_TASK_RUN name es" and "cp_data packet = Some (message ts @ replicate z NUL)"
    and "can_reply f cfg packet s" and "reply_fits cfg (quoted ''Task '' name '' started succesfully'')"
    and "task_request fopen cfg s ls name es" and "at_cmd (task_of ls name es) = Some cmd"
    and "slots_ok (sv_process_store s)" and "procs_named s" and "\<not> waits_on s (at_wait (task_of ls name es))"
    and "1 \<le> sl_open_cnt (sv_process_store s)" and "launch_ready le"
  shows "\<exists>s' x k p. server_eval_packet f fopen access cfg le packet s =
      Some (0, s', Ev_spawn (le_fork le) (child_of cfg ls name es)
        # answer packet PROTOCOL_MSG_SUCCESS (quoted ''Task '' name '' started succesfully'') x)
    \<and> length x = 4 \<and> client_done packet s s'
    \<and> slots_view (sv_process_store s) k = None \<and> slots_view (sv_process_store s') = (slots_view (sv_process_store s))(k \<mapsto> p)
    \<and> proc_name p = Some name \<and> p_pid p = le_fork le
    \<and> slots_view (sv_task_store s') = slots_view (sv_task_store s)"
proof -
  have rx: "stream_ok (sv_token_stream s)" using assms(3) by (simp add: can_reply_def)
  obtain ts1 r where e: "stream_ok ts1" "ts_tokens ts1 \<noteq> []" "server_eval_packet f fopen access cfg le packet s =
      eval_task_run f fopen cfg le packet name (map Some es @ None # r) (s\<lparr>sv_token_stream := ts1\<rparr>)"
    using eval_packet_run [OF assms(1) rx assms(2)] by metis
  show ?thesis
    using eval_task_run_started [of fopen cfg "s\<lparr>sv_token_stream := ts1\<rparr>" ls name es cmd f packet le r]
      can_reply_stream [OF assms(3) e(1,2)] e(3) assms(4-11) by simp
qed

lemma workspace_set_done:
  assumes "request_ok s ts z PROTOCOL_MSG_WORKSPACE_SET path es" and "cp_data packet = Some (message ts @ replicate z NUL)"
    and "can_reply f cfg packet s" and "reply_fits cfg (quoted ''Workspace '' path '' set as active'')" and "access path"
  shows "length path < length (sv_workspace s) \<Longrightarrow>
      \<exists>s' x. server_eval_packet f fopen access cfg le packet s =
          Some (0, s', answer packet PROTOCOL_MSG_SUCCESS (quoted ''Workspace '' path '' set as active'') x)
        \<and> length x = 4 \<and> cstr_at (sv_workspace s') 0 = Some path
        \<and> sv_task_store s' = sv_task_store s \<and> sv_process_store s' = sv_process_store s
        \<and> stack_remove_at_fast (sv_client_stack s) (cp_client packet) = Some (1, sv_client_stack s') \<and> ready_again cfg s s'"
    and "length (sv_workspace s) \<le> length path \<Longrightarrow> server_eval_packet f fopen access cfg le packet s = None"
proof -
  have rx: "stream_ok (sv_token_stream s)" using assms(3) by (simp add: can_reply_def)
  obtain ts1 where e: "stream_ok ts1" "ts_tokens ts1 \<noteq> []" "length (ts_tokens ts1) = length (ts_tokens (sv_token_stream s))"
    "server_eval_packet f fopen access cfg le packet s =
      eval_workspace_set f access cfg packet path (s\<lparr>sv_token_stream := ts1\<rparr>)"
    using eval_packet_workspace [OF assms(1) rx assms(2)] by metis
  have can: "can_reply f cfg packet (s\<lparr>sv_token_stream := ts1\<rparr>)" using can_reply_stream [OF assms(3) e(1,2)] .
  note ws = eval_workspace_set_total [where access = access, OF can assms(4,5)]
  {
    assume "length path < length (sv_workspace s)"
    then show "\<exists>s' x. server_eval_packet f fopen access cfg le packet s =
          Some (0, s', answer packet PROTOCOL_MSG_SUCCESS (quoted ''Workspace '' path '' set as active'') x)
        \<and> length x = 4 \<and> cstr_at (sv_workspace s') 0 = Some path
        \<and> sv_task_store s' = sv_task_store s \<and> sv_process_store s' = sv_process_store s
        \<and> stack_remove_at_fast (sv_client_stack s) (cp_client packet) = Some (1, sv_client_stack s') \<and> ready_again cfg s s'"
      using ws(1) e(3,4) by (auto simp: ready_again_def)
  next
    assume "length (sv_workspace s) \<le> length path"
    then show "server_eval_packet f fopen access cfg le packet s = None" using ws(2) e(4) by simp
  }
qed

section \<open>Properties\<close>

text \<open>C3. A request to run a task, from the bytes on the wire: when the message decodes, the active
  workspace is a well-formed file with a command for that task, no running process has the name
  the task waits for, and the launch can be made, then exactly one process is started, with the
  command, directory and variables of the file and the variables of the request; the client is
  told so, its connection is closed and its entry removed; the process store gains that process
  under the task's name and the task store has the contents it had before.\<close>

theorem run_request_started:
  assumes "request_ok s ts z PROTOCOL_MSG_TASK_RUN name es" and "cp_data packet = Some (message ts @ replicate z NUL)"
    and "can_reply f cfg packet s" and "reply_fits cfg (quoted ''Task '' name '' started succesfully'')"
    and "task_request fopen cfg s ls name es" and "at_cmd (task_of ls name es) = Some cmd"
    and "slots_ok (sv_process_store s)" and "procs_named s" and "\<not> waits_on s (at_wait (task_of ls name es))"
    and "1 \<le> sl_open_cnt (sv_process_store s)" and "launch_ready le"
  shows "\<exists>s' x k p. server_eval_packet f fopen access cfg le packet s =
      Some (0, s', Ev_spawn (le_fork le) (child_of cfg ls name es)
        # answer packet PROTOCOL_MSG_SUCCESS (quoted ''Task '' name '' started succesfully'') x)
    \<and> length x = 4 \<and> client_done packet s s'
    \<and> slots_view (sv_process_store s) k = None \<and> slots_view (sv_process_store s') = (slots_view (sv_process_store s))(k \<mapsto> p)
    \<and> proc_name p = Some name \<and> p_pid p = le_fork le
    \<and> slots_view (sv_task_store s') = slots_view (sv_task_store s)"
  by (rule run_started [OF assms])

text \<open>C10. A task that is requested but not started stays in the task store. That is so when the
  task waits for a running process, which the client is told as a success; and also when the
  launch is refused (no free process slot, or a failing pipe or fork), which the client is told
  as an error. A refused task without a wait entry is then started by the next completion of any
  process.\<close>

theorem run_request_keeps_task:
  assumes "request_ok s ts z PROTOCOL_MSG_TASK_RUN name es" and "cp_data packet = Some (message ts @ replicate z NUL)"
    and "can_reply f cfg packet s" and "reply_fits cfg (quoted ''Failed to run task '' name [])"
    and "task_request fopen cfg s ls name es" and "at_cmd (task_of ls name es) = Some cmd"
    and "slots_ok (sv_process_store s)" and "procs_named s"
    and "waits_on s (at_wait (task_of ls name es)) \<or> sl_open_cnt (sv_process_store s) < 1 \<or> \<not> launch_ready le"
  shows "\<exists>s' x key t. server_eval_packet f fopen access cfg le packet s =
      (if waits_on s (at_wait (task_of ls name es))
       then Some (0, s', answer packet PROTOCOL_MSG_SUCCESS (quoted ''Task '' name '' put in queue'') x)
       else Some (-1, s', answer packet PROTOCOL_MSG_ERR (quoted ''Failed to run task '' name []) x))
    \<and> length x = 4 \<and> client_done packet s s' \<and> sv_process_store s' = sv_process_store s
    \<and> slots_view (sv_task_store s) key = None \<and> slots_view (sv_task_store s') = (slots_view (sv_task_store s))(key \<mapsto> t)
    \<and> child_exec cfg t = child_of cfg ls name es
    \<and> (at_wait (task_of ls name es) = None \<longrightarrow> (\<forall>c. releases c s' key t))"
proof -
  have rx: "stream_ok (sv_token_stream s)" using assms(3) by (simp add: can_reply_def)
  obtain ts1 r where e: "stream_ok ts1" "ts_tokens ts1 \<noteq> []" "server_eval_packet f fopen access cfg le packet s =
      eval_task_run f fopen cfg le packet name (map Some es @ None # r) (s\<lparr>sv_token_stream := ts1\<rparr>)"
    using eval_packet_run [OF assms(1) rx assms(2)] by metis
  have fit: "reply_fits cfg (quoted ''Task '' name '' put in queue'')" using assms(4) by (simp add: reply_fits_def cstring_def QUOTE_def)
  have rel: "releases c s' key t" if "slots_view (sv_task_store s') = m(key \<mapsto> t)" "task_named cfg t name None" for c s' key t m
    using that by (auto simp: releases_def queue_match_def task_named_def split: option.splits)
  show ?thesis
  proof (cases "waits_on s (at_wait (task_of ls name es))")
    case True
    have "\<exists>s' x key t. eval_task_run f fopen cfg le packet name (map Some es @ None # r) (s\<lparr>sv_token_stream := ts1\<rparr>) =
        Some (0, s', answer packet PROTOCOL_MSG_SUCCESS (quoted ''Task '' name '' put in queue'') x)
      \<and> length x = 4 \<and> client_done packet s s'
      \<and> slots_view (sv_task_store s) key = None \<and> slots_view (sv_task_store s') = (slots_view (sv_task_store s))(key \<mapsto> t)
      \<and> task_named cfg t name (at_wait (task_of ls name es)) \<and> child_exec cfg t = child_of cfg ls name es
      \<and> sv_process_store s' = sv_process_store s"
      using eval_task_run_queued [of fopen cfg "s\<lparr>sv_token_stream := ts1\<rparr>" ls name es cmd f packet le r]
        can_reply_stream [OF assms(3) e(1,2)] assms(5-8) fit True by simp
    then show ?thesis unfolding e(3) using True by (elim exE conjE) (intro exI conjI impI allI rel; simp add: waits_on_def)
  next
    case False
    have "\<exists>s' x key t. eval_task_run f fopen cfg le packet name (map Some es @ None # r) (s\<lparr>sv_token_stream := ts1\<rparr>) =
        Some (-1, s', answer packet PROTOCOL_MSG_ERR (quoted ''Failed to run task '' name []) x)
      \<and> length x = 4 \<and> client_done packet s s'
      \<and> slots_view (sv_task_store s) key = None \<and> slots_view (sv_task_store s') = (slots_view (sv_task_store s))(key \<mapsto> t)
      \<and> task_named cfg t name (at_wait (task_of ls name es)) \<and> child_exec cfg t = child_of cfg ls name es
      \<and> sv_process_store s' = sv_process_store s"
      using eval_task_run_refused [of fopen cfg "s\<lparr>sv_token_stream := ts1\<rparr>" ls name es cmd f packet le r]
        can_reply_stream [OF assms(3) e(1,2)] assms(4-9) False by simp
    then show ?thesis unfolding e(3) using False by (elim exE conjE) (intro exI conjI impI allI rel; simp)
  qed
qed


text \<open>C12. A request for a task the workspace has no command for is answered with an error and
  changes neither the processes nor the contents of the task store.\<close>

theorem run_request_unknown:
  assumes "request_ok s ts z PROTOCOL_MSG_TASK_RUN name es" and "cp_data packet = Some (message ts @ replicate z NUL)"
    and "can_reply f cfg packet s" and "reply_fits cfg (quoted ''Task '' name '' not found'')"
    and "task_request fopen cfg s ls name es" and "at_cmd (task_of ls name es) = None"
  shows "\<exists>s' x. server_eval_packet f fopen access cfg le packet s =
      Some (-1, s', answer packet PROTOCOL_MSG_ERR (quoted ''Task '' name '' not found'') x)
    \<and> length x = 4 \<and> client_done packet s s'
    \<and> slots_view (sv_task_store s') = slots_view (sv_task_store s) \<and> sv_process_store s' = sv_process_store s"
proof -
  have rx: "stream_ok (sv_token_stream s)" using assms(3) by (simp add: can_reply_def)
  obtain ts1 r where e: "stream_ok ts1" "ts_tokens ts1 \<noteq> []" "server_eval_packet f fopen access cfg le packet s =
      eval_task_run f fopen cfg le packet name (map Some es @ None # r) (s\<lparr>sv_token_stream := ts1\<rparr>)"
    using eval_packet_run [OF assms(1) rx assms(2)] by metis
  show ?thesis
    using eval_task_run_missing [of fopen cfg "s\<lparr>sv_token_stream := ts1\<rparr>" ls name es f packet le r]
      can_reply_stream [OF assms(3) e(1,2)] e(3) assms(4-6) by simp
qed

text \<open>C11. A request to set the workspace to a readable file: when the path and its NUL fit the
  workspace buffer, the buffer holds that path afterwards, the client is told so and leaves the
  stack, and tasks and processes are untouched. A longer path is copied past the buffer.\<close>

theorem workspace_request:
  assumes "request_ok s ts z PROTOCOL_MSG_WORKSPACE_SET path es" and "cp_data packet = Some (message ts @ replicate z NUL)"
    and "can_reply f cfg packet s" and "reply_fits cfg (quoted ''Workspace '' path '' set as active'')" and "access path"
  shows "(length path < length (sv_workspace s) \<longrightarrow>
      (\<exists>s' x. server_eval_packet f fopen access cfg le packet s =
          Some (0, s', answer packet PROTOCOL_MSG_SUCCESS (quoted ''Workspace '' path '' set as active'') x)
        \<and> length x = 4 \<and> cstr_at (sv_workspace s') 0 = Some path
        \<and> sv_task_store s' = sv_task_store s \<and> sv_process_store s' = sv_process_store s
        \<and> stack_remove_at_fast (sv_client_stack s) (cp_client packet) = Some (1, sv_client_stack s')))
    \<and> (length (sv_workspace s) \<le> length path \<longrightarrow> server_eval_packet f fopen access cfg le packet s = None)"
  using workspace_set_done(1) [where access = access and fopen = fopen and le = le, OF assms]
    workspace_set_done(2) [where access = access, OF assms] by blast


section \<open>Witnesses\<close>

definition demo_live :: Server where
  "demo_live = demo_server\<lparr>sv_client_stack :=
     \<lparr>st_count = 1, st_capacity = 30, st_item_size = 4, st_data = 132, st_base = 100, st_mem = int_bytes 9 @ replicate 116 NUL\<rparr>\<rparr>"

definition demo_run :: "ProtocolMsgType \<Rightarrow> string \<Rightarrow> ProtocolTokenStream" where
  "demo_run ty arg = \<lparr>ts_type = msg_code ty, ts_length = 4,
     ts_tokens = [\<lparr>tk_type = 1, tk_value = Some arg\<rparr>, \<lparr>tk_type = 2, tk_value = Some ''A=1''\<rparr>, zero_token, zero_token]\<rparr>"

definition demo_packet :: "ProtocolMsgType \<Rightarrow> string \<Rightarrow> ClientPacket" where
  "demo_packet ty arg = \<lparr>cp_socket = 9, cp_client = 0, cp_len = 40,
     cp_data = Some (message (demo_run ty arg) @ replicate 500 NUL)\<rparr>"

definition demo_fopen :: "string \<Rightarrow> byte list option" where
  "demo_fopen p = (if p = ''ws.ini'' then Some (render_doc demo_doc) else None)"

lemma demo_live_ok: "server_inv demo_live" "procs_named demo_live" "\<not> waits_on demo_live w"
  "slots_ok (sv_process_store demo_live)" "sl_open_cnt (sv_process_store demo_live) = 5" "length (sv_workspace demo_live) = 256"
  using demo_server_slots
  by (simp_all add: demo_live_def server_inv_def stores_ok_def clients_ok_def stack_ok_def sizeof_Stack_def SIZE_MOD_def
      procs_named_def waits_on_def)
    (simp_all add: demo_server_def slots_new_def)

lemma demo_can_reply: "can_reply demo_send demo_config (demo_packet ty arg) demo_live"
  using demo_live_ok(1) demo_send_ok
  by (simp add: can_reply_def server_inv_def demo_packet_def)
    (simp add: demo_live_def demo_server_def demo_conn_def stream_ok_def in_int32_def tk_real_def zero_token_def
      demo_config_def config_default_settings_def)

lemma demo_request: "cstring arg \<Longrightarrow> request_ok demo_live (demo_run ty arg) 500 ty arg [''A=1'']"
  using msg_code_range [of ty]
  by (simp add: request_ok_def demo_run_def stream_ok_def in_int32_def real_tokens_def tk_real_def zero_token_def token_ok_def
      cstring_def values_of_def)
    (simp add: demo_live_def demo_server_def)

lemma demo_task_request:
  "name = ''do'' \<or> name = ''no'' \<Longrightarrow> task_request demo_fopen demo_config demo_live demo_doc name [''A=1'']"
proof (elim disjE)
  have ws: "cstr_at (sv_workspace demo_live) 0 = Some ''ws.ini''" by (simp add: demo_live_def demo_server_def cstr_at_def)
  have st: "slots_ok (sv_task_store demo_live)" "0 < sl_open_cnt (sv_task_store demo_live)"
    using demo_server_slots(1) by (simp_all add: demo_live_def) (simp add: demo_server_def slots_new_def)
  have no: "task_of demo_doc ''no'' [''A=1''] = \<lparr>at_name = ''no'', at_cmd = None, at_dir = None, at_wait = None,
      at_env = [''A=1''], at_used = 7\<rparr>"
    by (simp add: task_of_def demo_doc_def flush_def join_def new_atask_def abs_get_def add_env_def)
  show "name = ''do'' \<Longrightarrow> task_request demo_fopen demo_config demo_live demo_doc name [''A=1'']"
    using ws st demo_doc_ok by (simp add: task_request_def demo_fopen_def cstring_def demo_caps demo_task_of fits_in_def)
  show "name = ''no'' \<Longrightarrow> task_request demo_fopen demo_config demo_live demo_doc name [''A=1'']"
    using ws st demo_doc_ok no by (simp add: task_request_def demo_fopen_def cstring_def demo_caps fits_in_def)
qed

lemma demo_fits: "cstring msg \<Longrightarrow> length msg \<le> 1000 \<Longrightarrow> reply_fits demo_config msg"
  by (simp add: reply_fits_def demo_config_def config_default_settings_def)

lemma demo_child: "child_of demo_config demo_doc ''do'' [''A=1''] =
    Some \<lparr>ch_argv = [''/bin/sh'', ''-c'', ''ls -l'' @ [NL] @ ''pwd''], ch_dir = None, ch_env = [''A=1'']\<rparr>"
  by (simp add: child_of_def demo_task_of demo_caps) (simp add: demo_config_def config_default_settings_def)


lemma demo_strings: "cstring ''do''" "cstring ''no''" "cstring ''other.ini''"
  by (simp_all add: cstring_def)

lemma demo_data: "cp_data (demo_packet ty arg) = Some (message (demo_run ty arg) @ replicate 500 NUL)"
  by (simp add: demo_packet_def)

lemma demo_cmd: "at_cmd (task_of demo_doc ''do'' [''A=1'']) = Some (''ls -l'' @ [NL] @ ''pwd'')"
  "at_cmd (task_of demo_doc ''no'' [''A=1'']) = None"
  by (simp add: demo_task_of) (simp add: task_of_def demo_doc_def flush_def join_def new_atask_def abs_get_def add_env_def)

lemma demo_quoted_fits:
  "reply_fits demo_config (quoted ''Task '' ''do'' '' started succesfully'')" "reply_fits demo_config (quoted ''Failed to run task '' ''do'' [])"
  "reply_fits demo_config (quoted ''Task '' ''no'' '' not found'')" "reply_fits demo_config (quoted ''Workspace '' ''other.ini'' '' set as active'')"
  by (rule demo_fits; simp add: cstring_def QUOTE_def)+

theorem run_request_started_witness:
  "\<exists>s' x. server_eval_packet demo_send demo_fopen (\<lambda>_. True) demo_config demo_launch (demo_packet PROTOCOL_MSG_TASK_RUN ''do'') demo_live =
      Some (0, s', Ev_spawn 1234 (Some \<lparr>ch_argv = [''/bin/sh'', ''-c'', ''ls -l'' @ [NL] @ ''pwd''], ch_dir = None, ch_env = [''A=1'']\<rparr>)
        # [Ev_send 9 (message (reply PROTOCOL_MSG_SUCCESS (quoted ''Task '' ''do'' '' started succesfully'')) @ x), Ev_close 9])"
proof -
  have l: "launch_ready demo_launch" "le_fork demo_launch = 1234" by (simp_all add: launch_ready_def demo_launch_def)
  have n: "cp_socket (demo_packet ty arg) = 9" for ty arg by (simp add: demo_packet_def)
  have o1: "1 \<le> sl_open_cnt (sv_process_store demo_live)" by (simp add: demo_live_ok)
  show ?thesis
    using run_request_started [where access = "\<lambda>_. True", OF demo_request [OF demo_strings(1)] demo_data demo_can_reply
        demo_quoted_fits(1) demo_task_request [OF disjI1 [OF refl]] demo_cmd(1) demo_live_ok(4,2,3) o1 l(1)]
    unfolding demo_child n l(2) by blast
qed

theorem run_request_keeps_task_witness:
  "\<exists>s' x key t. server_eval_packet demo_send demo_fopen (\<lambda>_. True) demo_config (demo_launch\<lparr>le_fork := -1\<rparr>)
        (demo_packet PROTOCOL_MSG_TASK_RUN ''do'') demo_live =
      Some (-1, s', [Ev_send 9 (message (reply PROTOCOL_MSG_ERR (quoted ''Failed to run task '' ''do'' [])) @ x), Ev_close 9])
    \<and> slots_view (sv_task_store s') key = Some t
    \<and> child_exec demo_config t = Some \<lparr>ch_argv = [''/bin/sh'', ''-c'', ''ls -l'' @ [NL] @ ''pwd''], ch_dir = None, ch_env = [''A=1'']\<rparr>"
proof -
  let ?le = "demo_launch\<lparr>le_fork := -1\<rparr>"
  have l: "waits_on demo_live w \<or> sl_open_cnt (sv_process_store demo_live) < 1 \<or> \<not> launch_ready ?le" for w
    by (simp add: launch_ready_def demo_launch_def)
  have n: "cp_socket (demo_packet ty arg) = 9" for ty arg by (simp add: demo_packet_def)
  obtain s' x key t where r: "server_eval_packet demo_send demo_fopen (\<lambda>_. True) demo_config ?le
        (demo_packet PROTOCOL_MSG_TASK_RUN ''do'') demo_live =
      Some (-1, s', [Ev_send 9 (message (reply PROTOCOL_MSG_ERR (quoted ''Failed to run task '' ''do'' [])) @ x), Ev_close 9])"
    "slots_view (sv_task_store s') = (slots_view (sv_task_store demo_live))(key \<mapsto> t)"
    "child_exec demo_config t = child_of demo_config demo_doc ''do'' [''A=1'']"
    using run_request_keeps_task [where access = "\<lambda>_. True", OF demo_request [OF demo_strings(1)] demo_data demo_can_reply
        demo_quoted_fits(2) demo_task_request [OF disjI1 [OF refl]] demo_cmd(1) demo_live_ok(4,2) l]
    unfolding n if_not_P [OF demo_live_ok(3)] by blast
  have "slots_view (sv_task_store s') key = Some t" by (subst r(2)) simp
  then show ?thesis using r(1,3) unfolding demo_child by blast
qed

theorem run_request_unknown_witness:
  "\<exists>s' x. server_eval_packet demo_send demo_fopen (\<lambda>_. True) demo_config demo_launch (demo_packet PROTOCOL_MSG_TASK_RUN ''no'') demo_live =
      Some (-1, s', [Ev_send 9 (message (reply PROTOCOL_MSG_ERR (quoted ''Task '' ''no'' '' not found'')) @ x), Ev_close 9])"
proof -
  have n: "cp_socket (demo_packet ty arg) = 9" for ty arg by (simp add: demo_packet_def)
  show ?thesis
    using run_request_unknown [where access = "\<lambda>_. True", OF demo_request [OF demo_strings(2)] demo_data demo_can_reply
        demo_quoted_fits(3) demo_task_request [OF disjI2 [OF refl]] demo_cmd(2)] unfolding n by blast
qed

theorem workspace_request_witness:
  "\<exists>s' x. server_eval_packet demo_send demo_fopen (\<lambda>_. True) demo_config demo_launch
        (demo_packet PROTOCOL_MSG_WORKSPACE_SET ''other.ini'') demo_live =
      Some (0, s', [Ev_send 9 (message (reply PROTOCOL_MSG_SUCCESS (quoted ''Workspace '' ''other.ini'' '' set as active'')) @ x), Ev_close 9])
    \<and> cstr_at (sv_workspace s') 0 = Some ''other.ini''"
proof -
  have n: "cp_socket (demo_packet ty arg) = 9" for ty arg by (simp add: demo_packet_def)
  have l: "length ''other.ini'' < length (sv_workspace demo_live)" by (simp add: demo_live_ok)
  show ?thesis
    using workspace_request [where access = "\<lambda>_. True", OF demo_request [OF demo_strings(3)] demo_data demo_can_reply
        demo_quoted_fits(4) TrueI] l unfolding n by blast
qed

end
