(* ===== verification/Startup.thy ===== *)
theory Startup
  imports Requests
begin

text \<open>
  From start-up to every state of the run loop: the allocations of \<open>run_as_server\<close> on the arena
  \<open>main\<close> sets up, the invariant of the server they give, and its preservation by every turn.
\<close>

section \<open>Allocations\<close>

text \<open>An arena whose first page has \<open>a\<close> of its 65536 bytes handed out.\<close>

definition used_arena :: "nat \<Rightarrow> arena \<Rightarrow> arena" where
  "used_arena a rest = bump a (fresh_page 65536) # rest"

lemma bump_bump: "bump n (bump a p) = bump (a + n) p"
  by (simp add: bump_def)

lemma page_alloc:
  assumes "a + n \<le> S" and "S < SIZE_MOD"
  shows "arena_alloc mal n (bump a (fresh_page S) # rest) = Some (Ret (Some (0, a), bump (a + n) (fresh_page S) # rest))"
proof -
  let ?p = "bump a (fresh_page S)"
  have w: "wrap64 (a + n) = a + n" using assms by (simp add: wrap64_def)
  have "fits n ?p" using assms w by (simp add: fits_def fresh_page_def bump_def)
  moreover have "n \<le> pg_size ?p" "pg_current ?p = a" using assms by (simp_all add: fresh_page_def bump_def)
  moreover have "?p\<lparr>pg_current := a + n\<rparr> = bump (a + n) (fresh_page S)" by (simp add: bump_def fresh_page_def)
  ultimately show ?thesis using w by (simp add: arena_alloc_def arena_walk.simps(2))
qed

lemma used_arena_alloc:
  "a + n \<le> 65536 \<Longrightarrow> arena_alloc mal n (used_arena a rest) = Some (Ret (Some (0, a), used_arena (a + n) rest))"
  unfolding used_arena_def by (rule page_alloc) (simp_all add: SIZE_MOD_def)

section \<open>The server run_as_server builds\<close>

definition sizes_ok :: "Config \<Rightarrow> bool" where
  "sizes_ok cfg \<longleftrightarrow>
     0 \<le> process_store_count (general (c_settings cfg)) \<and> process_store_count (general (c_settings cfg)) \<le> INT_MAX
     \<and> 0 \<le> task_store_count (general (c_settings cfg)) \<and> task_store_count (general (c_settings cfg)) \<le> INT_MAX
     \<and> 0 \<le> max_clients (connection (c_settings cfg)) \<and> max_clients (connection (c_settings cfg)) \<le> INT_MAX"

lemma new_client_stack_ok:
  assumes "sizes_ok cfg"
  shows "clients_ok (new_client_stack cfg addr)" and "items (new_client_stack cfg addr) = []"
    and "int (st_capacity (new_client_stack cfg addr)) = max_clients (connection (c_settings cfg))"
proof -
  have n: "to_size (max_clients (connection (c_settings cfg))) = nat (max_clients (connection (c_settings cfg)))"
    "nat (max_clients (connection (c_settings cfg))) \<le> 2147483647"
    using assms by (auto simp: sizes_ok_def to_size_def INT_MAX_def SIZE_MOD_def)
  then show "clients_ok (new_client_stack cfg addr)" "items (new_client_stack cfg addr) = []"
    "int (st_capacity (new_client_stack cfg addr)) = max_clients (connection (c_settings cfg))"
    using assms by (auto simp: clients_ok_def stack_ok_def new_client_stack_def items_def sizeof_Stack_def SIZE_MOD_def Let_def sizes_ok_def)
qed

text \<open>What a server that was built looks like.\<close>

definition fresh_server :: "Config \<Rightarrow> Server \<Rightarrow> bool" where
  "fresh_server cfg s \<longleftrightarrow> server_inv s \<and> sv_running s \<and> items (sv_client_stack s) = []
     \<and> int (st_capacity (sv_client_stack s)) = max_clients (connection (c_settings cfg))
     \<and> slots_view (sv_process_store s) = Map.empty \<and> slots_view (sv_task_store s) = Map.empty
     \<and> sl_capacity (sv_process_store s) = process_store_count (general (c_settings cfg))
     \<and> sl_capacity (sv_task_store s) = task_store_count (general (c_settings cfg))"

lemma then_alloc_Ret: "then_alloc m f = Some (Ret x) \<longleftrightarrow> (\<exists>a ar. m = Some (Ret (a, ar)) \<and> f a ar = Some (Ret x))"
  by (auto simp: then_alloc_def split: option.splits outcome.splits)

lemma try_alloc_Ret: "try_alloc mal n f ar = Some (Ret (Some x, ar')) \<Longrightarrow> \<exists>q. x = f q"
  by (auto simp: try_alloc_def split: option.splits outcome.splits)

lemma all_built:
  assumes "(case ws of None \<Rightarrow> N | Some w \<Rightarrow> case ts of None \<Rightarrow> N | Some t \<Rightarrow> case cs of None \<Rightarrow> N | Some c \<Rightarrow>
      case ps of None \<Rightarrow> N | Some p \<Rightarrow> case tk of None \<Rightarrow> N | Some k \<Rightarrow> Some (Ret ((0, Some (f w t c p k)), ar)))
    = Some (Ret ((r, Some s), ar'))" and "N = Some (Ret ((-1, None), ar))"
  shows "\<exists>w t c p k. ws = Some w \<and> ts = Some t \<and> cs = Some c \<and> ps = Some p \<and> tk = Some k \<and> s = f w t c p k"
  using assms by (auto split: option.splits)

lemma init_fresh:
  assumes "run_as_server_init mal env cfg ar = Some (Ret ((r, Some s), ar'))" and "sizes_ok cfg"
  shows "fresh_server cfg s"
proof -
  let ?g = "general (c_settings cfg)"
  obtain conn w t c p k ar3 ar4 ar5 ar6 n1 n2 n3 where
    c: "try_alloc mal n1 (new_client_stack cfg) ar3 = Some (Ret (Some c, ar4))"
    and p: "try_alloc mal n2 (\<lambda>_. slots_new (process_store_count ?g) (zero_process cfg)) ar4 = Some (Ret (Some p, ar5))"
    and k: "try_alloc mal n3 (\<lambda>_. slots_new (task_store_count ?g) (zero_task cfg)) ar5 = Some (Ret (Some k, ar6))"
    and s: "s = \<lparr>sv_running = True, sv_conn = conn, sv_workspace = w, sv_token_stream = t,
      sv_client_stack = c, sv_process_store = p, sv_task_store = k\<rparr>"
    using assms(1) unfolding run_as_server_init_def Let_def then_alloc_Ret
    by (auto simp: then_alloc_Ret split: if_splits dest!: all_built [OF _ refl])
  obtain q where c: "c = new_client_stack cfg q" using try_alloc_Ret [OF c] by blast
  have p: "p = slots_new (process_store_count ?g) (zero_process cfg)" using try_alloc_Ret [OF p] by blast
  have k: "k = slots_new (task_store_count ?g) (zero_task cfg)" using try_alloc_Ret [OF k] by blast
  show ?thesis
    using new_client_stack_ok [OF assms(2), of q] assms(2)
    by (simp add: fresh_server_def server_inv_def stores_ok_def s c p k slots_new_ok sizes_ok_def)
      (simp add: slots_new_def)
qed

text \<open>With the default settings every allocation fits the first page of \<open>main\<close>'s arena.\<close>

lemma init_default:
  assumes "c_settings cfg = config_default_settings" and "0 \<le> ce_socket env" and "conn_finish cfg env = 1" and "a \<le> 50000"
  shows "\<exists>s a'. run_as_server_init mal env cfg (used_arena a rest) = Some (Ret ((0, Some s), used_arena a' rest))
    \<and> cn_in_buf (sv_conn s) = Some (replicate 1024 NUL) \<and> cn_out_buf (sv_conn s) = Some (replicate 1024 NUL)
    \<and> cn_socket (sv_conn s) = ce_socket env"
  using assms
  by (simp add: run_as_server_init_def connection_init_def alloc_buf_def fresh_connection_def try_alloc_def then_alloc_def
      protocol_tokenstream_alloc_def config_default_settings_def used_arena_alloc Let_def store_size_def process_item_size_def
      task_item_size_def sizeof_Stack_def sizeof_Store_def sizeof_TaskProcess_def sizeof_Task_def to_size_def SIZE_MOD_def)
    blast


section \<open>Every ready client is served\<close>

lemma client_sock_item: "clients_ok s \<Longrightarrow> k < st_count s \<Longrightarrow> client_sock s (int k) = rd_int (items s ! k) 0"
  using stack_get_view [of s k] by (auto simp: client_sock_def clients_ok_def)

lemma set_sock_desc_mono: "set_sock_desc fd acc = Some acc' \<Longrightarrow> snd acc \<subseteq> snd acc' \<and> (0 < fd \<longrightarrow> fd \<in> snd acc')"
  by (auto simp: set_sock_desc_def FD_SET_def split: prod.splits bind_splits if_splits)

lemma add_clients_watch:
  assumes "add_clients s n acc = Some acc'"
  shows "snd acc \<subseteq> snd acc' \<and> (\<forall>k sock. k < n \<longrightarrow> client_sock s (int k) = Some sock \<longrightarrow> 0 < sock \<longrightarrow> sock \<in> snd acc')"
  using assms
proof (induction n arbitrary: acc)
  case (Suc n)
  then obtain sock acc1 where a: "client_sock s (int n) = Some sock" "set_sock_desc sock acc = Some acc1" "add_clients s n acc1 = Some acc'"
    by (auto split: bind_splits)
  show ?case using Suc.IH [OF a(3)] set_sock_desc_mono [OF a(2)] a(1) by (auto simp: less_Suc_eq)
qed simp

lemma add_processes_mono: "add_processes st n acc = Some acc' \<Longrightarrow> snd acc \<subseteq> snd acc'"
proof (induction n arbitrary: acc)
  case (Suc n)
  then obtain r where r: "slots_get st (int n) = Some r" by (auto split: bind_splits)
  show ?case
  proof (cases r)
    case None
    then show ?thesis using Suc r by simp
  next
    case (Some p)
    then obtain acc1 acc2 where "set_sock_desc (p_out_fd_r p) acc = Some acc1" "set_sock_desc (p_err_fd_r p) acc1 = Some acc2"
      "add_processes st n acc2 = Some acc'" using Suc.prems r by (auto split: bind_splits)
    then show ?thesis using Suc.IH set_sock_desc_mono by (meson order_trans)
  qed
qed simp

lemma client_step_serves:
  assumes "client_step env cfg i s = Some (s', evs)" and "client_sock (sv_client_stack s) (int i) = Some sock"
    and "sock \<noteq> 0" and "sock \<in> cn_read_flags (sv_conn s)" and "te_read env sock \<noteq> None" and ok: "stores_ok s"
  shows "Ev_close sock \<in> set evs"
proof -
  obtain bs where bs: "te_read env sock = Some bs" using assms(5) by blast
  have b: "FD_ISSET sock (cn_read_flags (sv_conn s)) = Some True"
    using assms by (auto simp: client_step_def FD_ISSET_def split: if_splits)
  show ?thesis
  proof (cases "bs = []")
    case True
    then show ?thesis using assms(1-3) b bs by (auto simp: client_step_def split: bind_splits)
  next
    case False
    then obtain packet s1 r where e: "server_eval_packet (te_send env) (te_fopen env) (te_access env) cfg (te_launch_client env i) packet s1 =
        Some (r, s', evs)" "cp_socket packet = sock" "sv_process_store s1 = sv_process_store s" "sv_task_store s1 = sv_task_store s"
      using assms(1-3) b bs by (auto simp: client_step_def Let_def split: bind_splits)
    have "stores_ok s1" using ok e by (simp add: stores_ok_def)
    then show ?thesis using eval_packet_answers [OF e(1)] e(2) by (auto simp: answered_once_def)
  qed
qed

lemma remove_below:
  assumes "clients_ok s" and "i < st_count s" and "stack_remove_at_fast s (int i) = Some (n, s')" and "k < i"
  shows "items s' ! k = items s ! k"
proof -
  have "items s' = butlast ((items s)[i := last (items s)])" using remove_client(4) [OF assms(1-3)] .
  then show ?thesis using assms by (simp add: nth_butlast)
qed

lemma client_loop_serves:
  assumes "client_loop env cfg n s = Some (s', evs)" and "server_inv s" and "n \<le> st_count (sv_client_stack s)"
    and "k < n" and "client_sock (sv_client_stack s) (int k) = Some sock" and "sock \<noteq> 0"
    and "sock \<in> cn_read_flags (sv_conn s)" and "te_read env sock \<noteq> None"
  shows "Ev_close sock \<in> set evs"
  using assms
proof (induction n arbitrary: s evs)
  case (Suc i)
  then obtain s1 evs1 evs2 where st: "client_step env cfg i s = Some (s1, evs1)" "client_loop env cfg i s1 = Some (s', evs2)"
    and evs: "evs = evs1 @ evs2" by (auto split: bind_splits)
  have inv: "stores_ok s" "clients_ok (sv_client_stack s)" using Suc.prems(2) by (auto simp: server_inv_def)
  show ?case
  proof (cases "k = i")
    case True
    then show ?thesis using client_step_serves [OF st(1)] Suc.prems inv evs by simp
  next
    case False
    have k: "server_inv s1" "i \<le> st_count (sv_client_stack s1)" "sv_client_stack s1 = sv_client_stack s
        \<or> (\<exists>n. stack_remove_at_fast (sv_client_stack s) (int i) = Some (n, sv_client_stack s1))"
      using client_step_keeps [OF st(1) Suc.prems(2)] Suc.prems(3) by auto
    have "items (sv_client_stack s1) ! k = items (sv_client_stack s) ! k"
      using k(3) remove_below [OF inv(2), of i _ "sv_client_stack s1" k] Suc.prems(3,4) False by auto
    then have "client_sock (sv_client_stack s1) (int k) = Some sock"
      using client_sock_item inv(2) k(1,2) Suc.prems(3-5) False by (auto simp: server_inv_def)
    moreover have "cn_read_flags (sv_conn s1) = cn_read_flags (sv_conn s)" using client_step_keeps [OF st(1) Suc.prems(2)] Suc.prems(3) by simp
    ultimately show ?thesis using Suc.IH [OF st(2) k(1,2)] Suc.prems False evs by simp
  qed
qed simp


lemma turn_watches:
  assumes "server_check_activity env s = Some (a, s1)" and "clients_ok (sv_client_stack s)"
    and "k < st_count (sv_client_stack s)" and "client_sock (sv_client_stack s) (int k) = Some sock" and "0 < sock"
    and "\<And>m F. sock \<in> F \<Longrightarrow> sock \<in> snd (te_select env m F)"
  shows "sock \<in> cn_read_flags (sv_conn s1)"
proof -
  obtain acc m fl where a: "add_clients (sv_client_stack s) (st_count (sv_client_stack s)) (cn_socket (sv_conn s), cn_read_flags (sv_conn s)) = Some acc"
    "add_processes (sv_process_store s) (nat (sl_capacity (sv_process_store s))) acc = Some (m, fl)"
    "s1 = s\<lparr>sv_conn := (sv_conn s)\<lparr>cn_read_flags := snd (te_select env (m + 1) fl)\<rparr>\<rparr>"
    using assms(1) by (auto simp: server_check_activity_def Let_def split: bind_splits prod.splits)
  have "sock \<in> snd acc" using add_clients_watch [OF a(1)] assms(3-5) by blast
  then have "sock \<in> fl" using add_processes_mono [OF a(2)] by auto
  then show ?thesis using assms(6) a(3) by simp
qed

lemma handle_incoming_items:
  assumes "server_handle_incoming env conn cfg cs = Some (r, cs', evs)" and "clients_ok cs"
  shows "clients_ok cs' \<and> (\<exists>new. items cs' = items cs @ new)"
proof -
  have "cs' = cs \<or> (\<exists>n. stack_push cs (int_bytes (te_accept env)) = Some (n, cs'))"
    using assms(1) by (auto simp: server_handle_incoming_def Let_def split: bind_splits if_splits)
  moreover have "length (int_bytes x) = 4" for x by simp
  ultimately show ?thesis
    using assms(2) stack_push_full [of cs] stack_push_view [of cs "int_bytes (te_accept env)"]
    by (cases "st_count cs < st_capacity cs") (auto simp: clients_ok_def)
qed

lemma turn_serves:
  assumes t: "server_turn env cfg s = Some (s', evs)" and inv: "server_inv s"
    and k: "k < st_count (sv_client_stack s)" "client_sock (sv_client_stack s) (int k) = Some sock" "0 < sock"
    and rdy: "\<And>m F. sock \<in> F \<Longrightarrow> sock \<in> snd (te_select env m F)" and rd: "te_read env sock \<noteq> None"
  shows "Ev_close sock \<in> set evs"
proof -
  obtain conn a s1 inc cs evs1 s3 evs2 evs3 where s1: "server_check_activity env (s\<lparr>sv_conn := conn\<rparr>) = Some (a, s1)"
    and cs: "server_handle_incoming env (sv_conn s1) cfg (sv_client_stack s1) = Some (inc, cs, evs1)"
    and cl: "client_loop env cfg (st_count cs) (s1\<lparr>sv_client_stack := cs\<rparr>) = Some (s3, evs2)"
    and evs: "evs = evs1 @ evs2 @ evs3"
    using t by (auto simp: server_turn_def Let_def split: bind_splits)
  note f = check_activity_frame [OF s1]
  have eq: "sv_process_store s1 = sv_process_store s" "sv_task_store s1 = sv_task_store s" "sv_client_stack s1 = sv_client_stack s"
    by (subst f; simp)+
  have c0: "clients_ok (sv_client_stack s)" using inv by (simp add: server_inv_def)
  have c: "clients_ok cs" "\<exists>new. items cs = items (sv_client_stack s) @ new"
    using handle_incoming_items [OF cs] c0 eq by simp_all
  have "length (items (sv_client_stack s)) \<le> length (items cs)" using c(2) by (metis length_append le_add1)
  then have k': "k < st_count cs" using k(1) by simp
  have "items cs ! k = items (sv_client_stack s) ! k" using c(2) k(1) by (auto simp: nth_append)
  then have "client_sock cs (int k) = Some sock" using client_sock_item c0 c(1) k k' by metis
  moreover have "sock \<in> cn_read_flags (sv_conn s1)"
    using turn_watches [OF s1, of k sock] c0 k rdy by simp
  moreover have "server_inv (s1\<lparr>sv_client_stack := cs\<rparr>)" using inv eq c(1) by (simp add: server_inv_def stores_ok_def)
  ultimately show ?thesis using client_loop_serves [OF cl, of k sock] k' k(3) rd evs by simp
qed

section \<open>An idle turn\<close>

lemma idle_slot:
  "slots_ok t \<Longrightarrow> slots_view t = Map.empty \<Longrightarrow> int (Suc n) \<le> sl_capacity t \<Longrightarrow> slots_get t (int n) = Some None"
  using slots_get_view [of t "int n"] by (simp add: in_range_def)

lemma process_loop_idle:
  assumes "slots_ok (sv_process_store s)" and "slots_view (sv_process_store s) = Map.empty" and "int n \<le> sl_capacity (sv_process_store s)"
  shows "process_loop env cfg n s = Some (s, [])"
  using assms(3)
proof (induction n)
  case (Suc n)
  then show ?case using idle_slot [OF assms(1,2) Suc.prems] by (simp add: process_step_def)
qed simp

lemma add_processes_idle:
  assumes "slots_ok t" and "slots_view t = Map.empty" and "int n \<le> sl_capacity t"
  shows "add_processes t n acc = Some acc"
  using assms(3)
proof (induction n)
  case (Suc n)
  then show ?case using idle_slot [OF assms(1,2) Suc.prems] by simp
qed simp

lemma clear_buf_same: "0 \<le> n \<Longrightarrow> n < 9223372036854775808 \<Longrightarrow> length b = nat n \<Longrightarrow> clear_buf (Some b) n = Some (Some (replicate (nat n) NUL))"
  using wr_block_nat [of b 0 "replicate (nat n) NUL"] by (simp add: clear_buf_def to_size_def SIZE_MOD_def)

lemma idle_turn:
  assumes f: "fresh_server cfg s" and n: "buffer_size (connection (c_settings cfg)) = int n" "n < 1000000"
    and b: "cn_in_buf (sv_conn s) = Some ib" "length ib = n" "cn_out_buf (sv_conn s) = Some ob" "length ob = n"
    and sock: "0 \<le> cn_socket (sv_conn s)" "cn_socket (sv_conn s) < FD_SETSIZE"
    and sel: "\<And>m F. te_select env m F = (0, {})"
  shows "\<exists>conn. server_turn env cfg s = Some (s\<lparr>sv_conn := conn\<rparr>, [])"
proof -
  let ?k = "cn_socket (sv_conn s)"
  have p: "slots_ok (sv_process_store s)" "slots_view (sv_process_store s) = Map.empty"
    "int (nat (sl_capacity (sv_process_store s))) \<le> sl_capacity (sv_process_store s)"
    using f by (auto simp: fresh_server_def server_inv_def stores_ok_def slots_ok_def)
  have c: "st_count (sv_client_stack s) = 0" using f by (metis fresh_server_def items_length list.size(3))
  let ?conn = "(sv_conn s)\<lparr>cn_read_flags := {?k}, cn_write_flags := {?k}, cn_in_buf := Some (replicate n NUL), cn_out_buf := Some (replicate n NUL)\<rparr>"
  let ?conn1 = "?conn\<lparr>cn_read_flags := {}\<rparr>"
  have "connection_init_set (sv_conn s) cfg = Some ?conn"
    using sock n b by (simp add: connection_init_set_def FD_SET_def clear_buf_same Let_def)
  moreover have "server_check_activity env (s\<lparr>sv_conn := ?conn\<rparr>) = Some (0, s\<lparr>sv_conn := ?conn1\<rparr>)"
    using c add_processes_idle [OF p] sel by (simp add: server_check_activity_def)
  moreover have "server_handle_incoming env ?conn1 cfg (sv_client_stack s) = Some (0, sv_client_stack s, [])"
    using sock by (simp add: server_handle_incoming_def FD_ISSET_def)
  moreover have "process_loop env cfg (nat (sl_capacity (sv_process_store s))) (s\<lparr>sv_conn := ?conn1\<rparr>) = Some (s\<lparr>sv_conn := ?conn1\<rparr>, [])"
    using process_loop_idle [of "s\<lparr>sv_conn := ?conn1\<rparr>"] p by simp
  ultimately show ?thesis using c by (intro exI [of _ ?conn1]) (simp add: server_turn_def Let_def)
qed


section \<open>Properties\<close>

text \<open>C13. Start-up succeeds with the default settings: on an arena whose first 64 KiB page has at
  most 50000 bytes in use, once the socket calls succeed \<open>run_as_server\<close> makes all its allocations
  from that page and enters the loop with no client, no process, no task, and two zeroed buffers.\<close>

theorem server_starts:
  assumes "c_settings cfg = config_default_settings" and "0 \<le> ce_socket env" and "conn_finish cfg env = 1" and "a \<le> 50000"
  shows "\<exists>s a'. run_as_server_init mal env cfg (used_arena a rest) = Some (Ret ((0, Some s), used_arena a' rest))
    \<and> fresh_server cfg s \<and> cn_in_buf (sv_conn s) = Some (replicate 1024 NUL) \<and> cn_out_buf (sv_conn s) = Some (replicate 1024 NUL)"
proof -
  have sz: "sizes_ok cfg" using assms(1) by (simp add: sizes_ok_def config_default_settings_def INT_MAX_def)
  show ?thesis using init_default [OF assms] init_fresh [OF _ sz] by blast
qed

text \<open>C4. The invariant of the running server. Whatever select, accept, read, waitpid and fork
  deliver turn after turn, every state the loop reaches from start-up is well formed: both stores
  keep their free lists and capacities, the client stack holds at most \<open>max_clients\<close> sockets and
  the stores at most their counts of processes and tasks; the listening socket and the running
  flag never change, so the loop does not end by itself.\<close>

theorem server_run_invariant:
  assumes "run_as_server_init mal env cfg ar = Some (Ret ((r, Some s0), ar'))" and "sizes_ok cfg"
    and "server_run cfg envs s0 = Some (s, evs)"
  shows "server_inv s \<and> sv_running s \<and> cn_socket (sv_conn s) = cn_socket (sv_conn s0)
    \<and> int (length (items (sv_client_stack s))) \<le> max_clients (connection (c_settings cfg))
    \<and> int (card (dom (slots_view (sv_process_store s)))) \<le> process_store_count (general (c_settings cfg))
    \<and> int (card (dom (slots_view (sv_task_store s)))) \<le> task_store_count (general (c_settings cfg))"
proof -
  have f: "fresh_server cfg s0" using init_fresh [OF assms(1,2)] .
  then have "run_machine (\<lambda>env. server_turn env cfg) envs s0 = Some (s, evs)"
    using assms(3) server_run_machine by (simp add: fresh_server_def)
  then have k: "server_inv s" "same_shape s0 s" using server_machine.run_keeps f by (auto simp: fresh_server_def)
  have cap: "int (st_capacity (sv_client_stack s)) = max_clients (connection (c_settings cfg))"
    "sl_capacity (sv_process_store s) = process_store_count (general (c_settings cfg))"
    "sl_capacity (sv_task_store s) = task_store_count (general (c_settings cfg))"
    using f k(2) by (auto simp: fresh_server_def same_shape_def)
  have used: "int (card (dom (slots_view t))) \<le> sl_capacity t" if "slots_ok t" for t :: "'a slots"
    using card_used [OF that] slots_okD(3) [OF that] by (simp add: slots_length_def)
  have "st_count (sv_client_stack s) \<le> st_capacity (sv_client_stack s)"
    using k(1) by (simp add: server_inv_def clients_ok_def stack_ok_def)
  then have "int (length (items (sv_client_stack s))) \<le> max_clients (connection (c_settings cfg))"
    using cap(1) by simp
  moreover have "sv_running s" "cn_socket (sv_conn s) = cn_socket (sv_conn s0)" using f k(2) by (auto simp: fresh_server_def same_shape_def)
  ultimately show ?thesis using k(1) used cap by (metis server_inv_def stores_ok_def)
qed

text \<open>C6. No ready client is left waiting. When a turn completes, every client that was connected at
  its start, that \<open>select\<close> reports and whose socket could be read has had its connection closed in
  that turn: the loop runs downwards, so swapping the last entry into a freed place never hides a
  client that has not been looked at.\<close>

theorem server_turn_serves:
  assumes "server_turn env cfg s = Some (s', evs)" and "server_inv s"
    and "k < st_count (sv_client_stack s)" and "client_sock (sv_client_stack s) (int k) = Some sock" and "0 < sock"
    and "\<And>m F. sock \<in> F \<Longrightarrow> sock \<in> snd (te_select env m F)" and "te_read env sock \<noteq> None"
  shows "Ev_close sock \<in> set evs"
  using assms by (rule turn_serves)

text \<open>C7. Each packet gets exactly one answer. Whatever the bytes of a packet and whatever path
  \<open>server_eval_packet\<close> takes, the events are at most one process start (of the pid that \<open>fork\<close>
  returned), then one message to the
  packet's socket, then its close; the client's entry is removed, and the stores, the listening
  socket and the ready set keep their shape.\<close>

theorem eval_packet_answers_once:
  assumes "server_eval_packet f fopen access cfg le packet s = Some (r, s', evs)" and "stores_ok s"
  shows "(\<exists>pre wire. evs = pre @ [Ev_send (cp_socket packet) wire, Ev_close (cp_socket packet)]
      \<and> (pre = [] \<or> (\<exists>c. pre = [Ev_spawn (le_fork le) c])))
    \<and> (\<exists>n. stack_remove_at_fast (sv_client_stack s) (cp_client packet) = Some (n, sv_client_stack s'))
    \<and> kept s s'"
  using eval_packet_answers [OF assms] by (simp add: answered_once_def)

section \<open>Witnesses\<close>

lemma demo_finish: "conn_finish demo_config demo_env = 1" "0 \<le> ce_socket demo_env" "c_settings demo_config = config_default_settings"
  by (simp_all add: conn_finish_def demo_config_def demo_env_def init_args_def)

theorem server_starts_witness:
  "\<exists>s a'. run_as_server_init (\<lambda>_. True) demo_env demo_config (used_arena 200 []) = Some (Ret ((0, Some s), used_arena a' []))
    \<and> slots_view (sv_task_store s) = Map.empty"
  using server_starts [OF demo_finish(3,2,1), of 200 "\<lambda>_. True" "[]"] by (auto simp: fresh_server_def)

definition demo_idle :: turn_env where
  "demo_idle = \<lparr>te_select = (\<lambda>_ _. (0, {})), te_accept = 7, te_nonblock = (\<lambda>_. 0), te_timeout = (\<lambda>_. 0), te_read = (\<lambda>_. Some []),
     te_waitpid = (\<lambda>_. 0), te_send = demo_send, te_fopen = demo_fopen, te_access = (\<lambda>_. True),
     te_launch_client = (\<lambda>_. demo_launch), te_launch_queue = (\<lambda>_. demo_launch)\<rparr>"

theorem server_run_invariant_witness:
  "\<exists>s0 ar' s evs. run_as_server_init (\<lambda>_. True) demo_env demo_config (used_arena 200 []) = Some (Ret ((0, Some s0), ar'))
    \<and> server_run demo_config [demo_idle] s0 = Some (s, evs) \<and> server_inv s \<and> sv_running s"
proof -
  have sz: "sizes_ok demo_config" by (simp add: sizes_ok_def demo_finish(3) config_default_settings_def INT_MAX_def)
  obtain s0 a' where i: "run_as_server_init (\<lambda>_. True) demo_env demo_config (used_arena 200 []) = Some (Ret ((0, Some s0), used_arena a' []))"
    "cn_in_buf (sv_conn s0) = Some (replicate 1024 NUL)" "cn_out_buf (sv_conn s0) = Some (replicate 1024 NUL)"
    "cn_socket (sv_conn s0) = ce_socket demo_env"
    using init_default [OF demo_finish(3,2,1), of 200 "\<lambda>_. True" "[]"] by auto
  have f: "fresh_server demo_config s0" using init_fresh [OF i(1) sz] .
  have "buffer_size (connection (c_settings demo_config)) = int 1024" by (simp add: demo_finish(3) config_default_settings_def)
  moreover have "cn_socket (sv_conn s0) = 3" using i(4) by (simp add: demo_env_def)
  ultimately obtain conn where t: "server_turn demo_idle demo_config s0 = Some (s0\<lparr>sv_conn := conn\<rparr>, [])"
    using idle_turn [OF f, of 1024 "replicate 1024 NUL" "replicate 1024 NUL" demo_idle] i(2,3)
    by (auto simp: demo_idle_def FD_SETSIZE_def)
  then have r: "server_run demo_config [demo_idle] s0 = Some (s0\<lparr>sv_conn := conn\<rparr>, [])" using f by (simp add: fresh_server_def)
  show ?thesis using server_run_invariant [OF i(1) sz r] i(1) r by blast
qed


text \<open>A client that is ready and has closed its end.\<close>

definition demo_busy :: turn_env where
  "demo_busy = demo_idle\<lparr>te_select := (\<lambda>_ F. (1, F \<inter> {9}))\<rparr>"

lemma demo_live_sock: "client_sock (sv_client_stack demo_live) 0 = Some 9"
proof -
  have "items (sv_client_stack demo_live) ! 0 = int_bytes 9"
    by (simp add: demo_live_def item_def items_def)
  then show ?thesis
    using client_sock_item [of "sv_client_stack demo_live" 0] demo_live_ok(1) rd_int_at [of "[]" 9 "[]"]
    by (simp add: server_inv_def demo_live_def to_int32_def)
qed

lemma demo_busy_turn: "\<exists>s'. server_turn demo_busy demo_config demo_live = Some (s', [Ev_close 9])"
proof -
  note [simp del] = replicate_numeral_Cons
  let ?s = demo_live and ?z = "Some (replicate 1024 NUL)"
  have p: "slots_ok (sv_process_store ?s)" "slots_view (sv_process_store ?s) = Map.empty" "sl_capacity (sv_process_store ?s) = 5"
    using demo_server_slots by (simp_all add: demo_live_def) (simp add: demo_server_def slots_new_def)
  have c: "st_count (sv_client_stack ?s) = 1" "sv_conn ?s = demo_conn" by (simp_all add: demo_live_def demo_server_def)
  let ?conn = "demo_conn\<lparr>cn_read_flags := {3}, cn_write_flags := {3}\<rparr>"
  let ?conn1 = "?conn\<lparr>cn_read_flags := {9}\<rparr>"
  have b: "buffer_size (connection (c_settings demo_config)) = 1024" by (simp add: demo_finish(3) config_default_settings_def)
  have z: "clear_buf ?z 1024 = Some ?z" using clear_buf_same [of 1024 "replicate 1024 NUL"] by simp
  have 1: "connection_init_set demo_conn demo_config = Some ?conn"
    unfolding connection_init_set_def b by (simp add: demo_conn_def FD_SET_def FD_SETSIZE_def z)
  have 2: "server_check_activity demo_busy (?s\<lparr>sv_conn := ?conn\<rparr>) = Some (1, ?s\<lparr>sv_conn := ?conn1\<rparr>)"
    using c demo_live_sock add_processes_idle [OF p(1,2), of 5] p(3)
    by (simp add: server_check_activity_def demo_conn_def set_sock_desc_def FD_SET_def FD_SETSIZE_def demo_busy_def)
  have 3: "server_handle_incoming demo_busy ?conn1 demo_config (sv_client_stack ?s) = Some (0, sv_client_stack ?s, [])"
    by (simp add: server_handle_incoming_def demo_conn_def FD_ISSET_def FD_SETSIZE_def)
  obtain cs where r: "stack_remove_at_fast (sv_client_stack ?s) 0 = Some (1, cs)"
    using stack_remove_at_fast_view [of "sv_client_stack ?s" 0] demo_live_ok(1) c by (auto simp: server_inv_def clients_ok_def)
  let ?s3 = "?s\<lparr>sv_conn := ?conn1, sv_client_stack := cs\<rparr>"
  have 4: "client_loop demo_busy demo_config 1 (?s\<lparr>sv_conn := ?conn1\<rparr>) = Some (?s3, [Ev_close 9])"
    using demo_live_sock r by (simp add: client_step_def FD_ISSET_def FD_SETSIZE_def demo_busy_def demo_idle_def)
  have 5: "process_loop demo_busy demo_config 5 ?s3 = Some (?s3, [])"
    using process_loop_idle [of ?s3 5] p by simp
  show ?thesis using 1 2 3 4 5 c p(3) by (simp add: server_turn_def Let_def)
qed

theorem server_turn_serves_witness:
  "\<exists>s' evs. server_turn demo_busy demo_config demo_live = Some (s', evs) \<and> Ev_close 9 \<in> set evs"
proof -
  obtain s' where t: "server_turn demo_busy demo_config demo_live = Some (s', [Ev_close 9])" using demo_busy_turn by blast
  have n: "0 < st_count (sv_client_stack demo_live)" by (simp add: demo_live_def)
  show ?thesis
    using server_turn_serves [OF t demo_live_ok(1) n, of 9] t demo_live_sock by (auto simp: demo_busy_def demo_idle_def)
qed

theorem eval_packet_answers_once_witness:
  "\<exists>s' x. server_eval_packet demo_send demo_fopen (\<lambda>_. True) demo_config demo_launch (demo_packet PROTOCOL_MSG_TASK_RUN ''do'') demo_live =
      Some (0, s', [Ev_spawn 1234 (Some \<lparr>ch_argv = [''/bin/sh'', ''-c'', ''ls -l'' @ [NL] @ ''pwd''], ch_dir = None, ch_env = [''A=1'']\<rparr>),
        Ev_send 9 x, Ev_close 9]) \<and> kept demo_live s'"
proof -
  let ?p = "demo_packet PROTOCOL_MSG_TASK_RUN ''do''"
  have n: "cp_socket ?p = 9" by (simp add: demo_packet_def)
  have l: "launch_ready demo_launch" "le_fork demo_launch = 1234" by (simp_all add: launch_ready_def demo_launch_def)
  have o1: "1 \<le> sl_open_cnt (sv_process_store demo_live)" by (simp add: demo_live_ok)
  obtain s' x where e: "server_eval_packet demo_send demo_fopen (\<lambda>_. True) demo_config demo_launch ?p demo_live =
      Some (0, s', [Ev_spawn 1234 (Some \<lparr>ch_argv = [''/bin/sh'', ''-c'', ''ls -l'' @ [NL] @ ''pwd''], ch_dir = None, ch_env = [''A=1'']\<rparr>),
        Ev_send 9 x, Ev_close 9])"
    using run_started [where access = "\<lambda>_. True", OF demo_request [OF demo_strings(1)] demo_data demo_can_reply
        demo_quoted_fits(1) demo_task_request [OF disjI1 [OF refl]] demo_cmd(1) demo_live_ok(4,2,3) o1 l(1)]
    unfolding demo_child n l(2) by blast
  have ok: "stores_ok demo_live" using demo_live_ok(1) by (simp add: server_inv_def)
  show ?thesis using eval_packet_answers_once [OF e ok] e by blast
qed

end
