(* ===== verification/Client.thy ===== *)
theory Client
  imports Startup
begin

text \<open>
  The client, \<open>src/src/client.h\<close>: turning the command line into a token stream, sending it,
  waiting for the answer, and the watch mode that repeats this for every file event. What the
  operating system returns is in the records \<open>cmd_env\<close> (one command), \<open>watch_input\<close> (one turn of
  the watch loop) and \<open>run_env\<close> (a whole run). Messages and closed descriptors are events; a text
  is printed unless \<open>-q\<close> was given.
\<close>

section \<open>Output\<close>

datatype cevent = Cl_out string | Cl_err string | Cl_send int "byte list" | Cl_close int

fun nat_str :: "nat \<Rightarrow> string" where
  "nat_str n = (if n < 10 then [char_of (48 + n)] else nat_str (n div 10) @ [char_of (48 + n mod 10)])"

declare nat_str.simps [simp del]

definition int_str :: "int \<Rightarrow> string" where
  "int_str i = (if i < 0 then CHR ''-'' # nat_str (nat (- i)) else nat_str (nat i))"

definition CLIENT_PRINT :: "Config \<Rightarrow> (string \<Rightarrow> cevent) \<Rightarrow> string \<Rightarrow> cevent list" where
  "CLIENT_PRINT cfg fd text = (if a_quiet (c_args cfg) then [] else [fd (text @ [NL])])"

section \<open>Commands\<close>

fun is_cmd :: "string \<Rightarrow> string list \<Rightarrow> bool" where
  "is_cmd cmd [] = False"
| "is_cmd cmd (c # cs) = (if strcmp_eq cmd c then True else is_cmd cmd cs)"

text \<open>\<open>argv[config->args.arg_indices[i]]\<close>; the string is passed to \<open>strcmp\<close>, so NULL is undefined.\<close>

definition cmd_arg :: "string list \<Rightarrow> Config \<Rightarrow> int \<Rightarrow> string option" where
  "cmd_arg argv cfg i = do { k \<leftarrow> rd (a_arg_indices (c_args cfg)) i; v \<leftarrow> argv_at argv k; v }"

text \<open>The two turns of the first loop; \<open>Some -1\<close> is the early return. The type is an unsigned enum.\<close>

fun cmd_loop :: "string list \<Rightarrow> Config \<Rightarrow> int list \<Rightarrow> ProtocolTokenStream \<Rightarrow> (int option \<times> ProtocolTokenStream \<times> cevent list) option" where
  "cmd_loop argv cfg [] msg = Some (None, msg, [])"
| "cmd_loop argv cfg (i # is) msg =
     do {
       cmd \<leftarrow> cmd_arg argv cfg i;
       (if is_cmd cmd [''run'', ''r''] then cmd_loop argv cfg is (msg\<lparr>ts_type := msg_code PROTOCOL_MSG_TASK_RUN\<rparr>)
        else if is_cmd cmd [''set'', ''s''] then cmd_loop argv cfg is (msg\<lparr>ts_type := msg_code PROTOCOL_MSG_WORKSPACE_SET\<rparr>)
        else if is_cmd cmd [''workspace'', ''ws'', ''w'']
        then Some (Some (-1), msg\<lparr>ts_type := msg_code PROTOCOL_MSG_WORKSPACE_INFO\<rparr>,
               CLIENT_PRINT cfg Cl_err ''Workspace info command is not implemented yet'')
        else if is_cmd cmd [''task'', ''t'']
        then Some (Some (-1), msg\<lparr>ts_type := msg_code PROTOCOL_MSG_TASK_INFO\<rparr>,
               CLIENT_PRINT cfg Cl_err ''Task info command is not implemented yet'')
        else if is_cmd cmd [''process'', ''proc'', ''p'']
        then Some (Some (-1), msg\<lparr>ts_type := msg_code PROTOCOL_MSG_PROC_INFO\<rparr>,
               CLIENT_PRINT cfg Cl_err ''Process info command is not implemented yet'')
        else cmd_loop argv cfg is msg)
     }"

text \<open>The loop over the arguments behind the command. A missing value of \<open>-e\<close> reads the next cell
  of the index array.\<close>

function token_loop :: "string list \<Rightarrow> Config \<Rightarrow> int \<Rightarrow> ProtocolTokenStream \<Rightarrow> ProtocolTokenStream option" where
  "token_loop argv cfg i msg =
     (if i < a_arg_count (c_args cfg)
      then (case Option.bind (rd (a_arg_indices (c_args cfg)) i) (argv_at argv) of
              None \<Rightarrow> None
            | Some None \<Rightarrow> Some msg
            | Some (Some cmd) \<Rightarrow>
                if strcmp_eq cmd ''-e''
                then (case Option.bind (rd (a_arg_indices (c_args cfg)) (i + 1)) (argv_at argv) of
                        None \<Rightarrow> None
                      | Some v \<Rightarrow>
                          (case protocol_tokenstream_add_token msg PROTOCOL_TOKEN_VAR v of
                             None \<Rightarrow> None
                           | Some msg' \<Rightarrow> token_loop argv cfg (i + 2) msg'))
                else (case protocol_tokenstream_add_token msg PROTOCOL_TOKEN_ARG (Some cmd) of
                        None \<Rightarrow> None
                      | Some msg' \<Rightarrow> token_loop argv cfg (i + 1) msg'))
      else Some msg)"
  by pat_completeness auto
termination
  by (relation "measure (\<lambda>(argv, cfg, i, msg). nat (a_arg_count (c_args cfg) - i))") auto

declare token_loop.simps [simp del]

definition client_eval_cmds ::
  "string list \<Rightarrow> Config \<Rightarrow> ProtocolTokenStream \<Rightarrow> (int \<times> ProtocolTokenStream \<times> cevent list) option" where
  "client_eval_cmds argv cfg msg =
     (if a_arg_count (c_args cfg) < 1 then Some (-1, msg, [])
      else do {
        (early, msg1, evs) \<leftarrow> cmd_loop argv cfg [0, 1] (msg\<lparr>ts_type := to_uint32 (-1)\<rparr>);
        (case early of
           Some r \<Rightarrow> Some (r, msg1, evs)
         | None \<Rightarrow>
             if ts_type msg1 < 0 then Some (-1, msg1, evs @ CLIENT_PRINT cfg Cl_err ''Invalid command received'')
             else do {
               msg2 \<leftarrow> token_loop argv cfg 1 (msg1\<lparr>ts_length := a_arg_count (c_args cfg) - 1\<rparr>);
               Some (0, msg2, evs)
             })
      })"

section \<open>One command\<close>

record cmd_env =
  cx_conn :: conn_env
  cx_send :: os_send
  cx_poll :: int
  cx_read :: "byte list option"

definition send_cmd ::
  "Config \<Rightarrow> cmd_env \<Rightarrow> Connection \<Rightarrow> ProtocolTokenStream \<Rightarrow> (int \<times> Connection \<times> cevent list) option" where
  "send_cmd cfg env conn ts =
     do {
       ((r, wire), ob) \<leftarrow> protocol_send (cx_send env) (cn_socket conn) (cn_out_buf conn)
                            (buffer_size (connection (c_settings cfg))) (Some ts);
       let evs = CLIENT_PRINT cfg Cl_out (''Sending command to dpatch server at port '' @ int_str (a_port (c_args cfg)) @ ''...'')
                   @ [Cl_send (cn_socket conn) wire];
       Some (if r < 1
             then (-1, conn\<lparr>cn_out_buf := ob\<rparr>, evs @ CLIENT_PRINT cfg Cl_err ''Unable to send network message.'')
             else (0, conn\<lparr>cn_out_buf := ob\<rparr>, evs))
     }"

text \<open>An answer whose first token has no value hands NULL to \<open>%s\<close>, which is undefined.\<close>

definition poll_response ::
  "Config \<Rightarrow> cmd_env \<Rightarrow> Connection \<Rightarrow> ProtocolTokenStream
    \<Rightarrow> (int \<times> Connection \<times> ProtocolTokenStream \<times> cevent list) option" where
  "poll_response cfg env conn ts =
     (if 0 < cx_poll env
      then (case cx_read env of
              None \<Rightarrow> Some (0, conn, ts, [])
            | Some bs \<Rightarrow>
                if bs = [] then Some (0, conn, ts, [])
                else do {
                  buf \<leftarrow> cn_in_buf conn;
                  buf' \<leftarrow> wr_block buf 0 bs;
                  (r, ts') \<leftarrow> protocol_read (Some buf') (buffer_size (connection (c_settings cfg))) (Some ts);
                  ts1 \<leftarrow> ts';
                  let conn1 = conn\<lparr>cn_in_buf := Some buf'\<rparr>;
                  (if r \<noteq> 0
                   then Some (0, conn1, ts1, CLIENT_PRINT cfg Cl_err ''Received an invalid message from server.'')
                   else if a_quiet (c_args cfg) then Some (0, conn1, ts1, [])
                   else do {
                     tok \<leftarrow> rd (ts_tokens ts1) 0;
                     v \<leftarrow> tk_value tok;
                     Some (0, conn1, ts1,
                       if ts_type ts1 = msg_code PROTOCOL_MSG_ERR then CLIENT_PRINT cfg Cl_err (''Error: '' @ v)
                       else CLIENT_PRINT cfg Cl_out (''Success: '' @ v))
                   })
                })
      else Some (-1, conn, ts, CLIENT_PRINT cfg Cl_err
             (''Connection timeout after '' @ int_str (client_timeout_ms (connection (c_settings cfg))) @ ''ms'')))"

type_synonym 'a crun = "('a \<times> arena) outcome option"

text \<open>The steps from \<open>client_eval_cmds\<close> to \<open>connection_close\<close>, the same in \<open>poll_watch\<close> and in
  \<open>run_cmd\<close>: 0 when all of them succeed, else the -1 the function returns at once.\<close>

definition command_round ::
  "(nat \<Rightarrow> bool) \<Rightarrow> Config \<Rightarrow> string list \<Rightarrow> cmd_env \<Rightarrow> ProtocolTokenStream \<Rightarrow> arena
    \<Rightarrow> (int \<times> ProtocolTokenStream \<times> cevent list) crun" where
  "command_round mal cfg argv env ts ar =
     (case client_eval_cmds argv cfg ts of
        None \<Rightarrow> None
      | Some (r, ts1, evs) \<Rightarrow>
          if r < 0 then Some (Ret ((-1, ts1, evs), ar))
          else then_alloc (connection_init cfg (cx_conn env) mal ar) (\<lambda>(c, conn) ar1.
            if c < 1 then Some (Ret ((-1, ts1, evs), ar1))
            else case send_cmd cfg env conn ts1 of
              None \<Rightarrow> None
            | Some (s, conn1, evs1) \<Rightarrow>
                if s \<noteq> 0 then Some (Ret ((-1, ts1, evs @ evs1), ar1))
                else case poll_response cfg env conn1 ts1 of
                  None \<Rightarrow> None
                | Some (p, conn2, ts2, evs2) \<Rightarrow>
                    if p \<noteq> 0 then Some (Ret ((-1, ts2, evs @ evs1 @ evs2), ar1))
                    else Some (Ret ((0, ts2, evs @ evs1 @ evs2
                           @ (case snd (fst (connection_close conn2)) of None \<Rightarrow> [] | Some fd \<Rightarrow> [Cl_close fd])), ar1))))"

section \<open>Watching files\<close>

record watch_input =
  wi_poll :: int
  wi_read :: int
  wi_cmd :: cmd_env

text \<open>One turn of \<open>while (running)\<close>: a return value, or \<^term>\<open>None\<close> to go on.\<close>

definition watch_step ::
  "(nat \<Rightarrow> bool) \<Rightarrow> Config \<Rightarrow> string list \<Rightarrow> watch_input \<Rightarrow> ProtocolTokenStream \<Rightarrow> arena
    \<Rightarrow> (int option \<times> ProtocolTokenStream \<times> cevent list) crun" where
  "watch_step mal cfg argv wi ts ar =
     (if 0 < wi_poll wi \<and> 0 < wi_read wi
      then (case protocol_tokenstream_reset ts of
              None \<Rightarrow> None
            | Some ts1 \<Rightarrow>
                then_alloc (command_round mal cfg argv (wi_cmd wi) ts1 ar) (\<lambda>(r, ts2, evs) ar1.
                  Some (Ret ((if r \<noteq> 0 then Some r else None, ts2, evs), ar1))))
      else Some (Ret ((None, ts, []), ar)))"

text \<open>\<open>poll_watch\<close> over the inputs of its turns; \<^term>\<open>None\<close> while it has not returned.\<close>

primrec poll_watch ::
  "(nat \<Rightarrow> bool) \<Rightarrow> Config \<Rightarrow> string list \<Rightarrow> watch_input list \<Rightarrow> ProtocolTokenStream \<Rightarrow> arena
    \<Rightarrow> (int option \<times> ProtocolTokenStream \<times> cevent list) crun" where
  "poll_watch mal cfg argv [] ts ar = Some (Ret ((None, ts, []), ar))"
| "poll_watch mal cfg argv (wi # wis) ts ar =
     then_alloc (watch_step mal cfg argv wi ts ar) (\<lambda>(r, ts1, evs1) ar1.
       case r of
         Some ret \<Rightarrow> Some (Ret ((Some ret, ts1, evs1), ar1))
       | None \<Rightarrow> then_alloc (poll_watch mal cfg argv wis ts1 ar1) (\<lambda>(r2, ts2, evs2) ar2.
           Some (Ret ((r2, ts2, evs1 @ evs2), ar2))))"

record run_env =
  re_inotify :: int
  re_watch :: int
  re_events :: "watch_input list"
  re_cmd :: cmd_env

definition run_cmd ::
  "(nat \<Rightarrow> bool) \<Rightarrow> Config \<Rightarrow> string list \<Rightarrow> run_env \<Rightarrow> arena \<Rightarrow> (int option \<times> cevent list) crun" where
  "run_cmd mal cfg argv env ar =
     then_alloc (protocol_tokenstream_alloc mal (protocol_token_count (general (c_settings cfg))) ar) (\<lambda>token_stream ar1.
       case token_stream of
         None \<Rightarrow> Some (Ret ((Some (-1), CLIENT_PRINT cfg Cl_err ''Unable to allocate protocol token stream''), ar1))
       | Some ts \<Rightarrow>
           if a_watch_path (c_args cfg) \<noteq> None
           then (if re_inotify env < 0 then Some (Ret ((Some (-1), []), ar1))
                 else if re_watch env < 0 then Some (Ret ((Some (-1), [Cl_close (re_inotify env)]), ar1))
                 else then_alloc (poll_watch mal cfg argv (re_events env) ts ar1) (\<lambda>(ret, _, evs) ar2.
                   Some (Ret ((ret, evs @ (if ret = None then [] else [Cl_close (re_watch env), Cl_close (re_inotify env)])), ar2))))
           else then_alloc (command_round mal cfg argv (re_cmd env) ts ar1) (\<lambda>(r, _, evs) ar2.
             Some (Ret ((Some r, evs), ar2))))"


section \<open>The command line read as a list\<close>

text \<open>\<open>args_view argv cfg ps\<close>: the collected arguments are \<open>ps\<close>; the index array has a zero cell behind
  them, so that the next argument reads as the program's name.\<close>

definition args_view :: "string list \<Rightarrow> Config \<Rightarrow> string list \<Rightarrow> bool" where
  "args_view argv cfg ps \<longleftrightarrow> argv \<noteq> [] \<and> a_arg_count (c_args cfg) = int (length ps)
     \<and> length ps < length (a_arg_indices (c_args cfg)) \<and> a_arg_indices (c_args cfg) ! length ps = 0
     \<and> (\<forall>i < length ps. argv_at argv (a_arg_indices (c_args cfg) ! i) = Some (Some (ps ! i)))"

lemma args_view_at:
  assumes "args_view argv cfg ps" and "i \<le> length ps"
  shows "Option.bind (rd (a_arg_indices (c_args cfg)) (int i)) (argv_at argv) =
    Some (Some (if i < length ps then ps ! i else hd argv))"
proof (cases "i < length ps")
  case True
  then show ?thesis using assms by (simp add: args_view_def rd_nat)
next
  case False
  then show ?thesis using assms by (auto simp: args_view_def rd_nat argv_at_def hd_conv_nth)
qed

lemma cmd_arg_view:
  assumes "args_view argv cfg ps" and "i \<le> length ps"
  shows "cmd_arg argv cfg (int i) = Some (if i < length ps then ps ! i else hd argv)"
proof -
  have "cmd_arg argv cfg (int i) = Option.bind (Option.bind (rd (a_arg_indices (c_args cfg)) (int i)) (argv_at argv)) (\<lambda>v. v)"
    by (simp add: cmd_arg_def)
  then show ?thesis unfolding args_view_at [OF assms] by simp
qed

text \<open>The tokens behind the command; \<open>d\<close> is what a trailing \<open>-e\<close> reads.\<close>

fun req_tokens :: "string \<Rightarrow> string list \<Rightarrow> ProtocolToken list" where
  "req_tokens d [] = []"
| "req_tokens d (x # xs) =
     (if x = ''-e''
      then (case xs of
              [] \<Rightarrow> [\<lparr>tk_type = token_code PROTOCOL_TOKEN_VAR, tk_value = Some d\<rparr>]
            | v # ys \<Rightarrow> \<lparr>tk_type = token_code PROTOCOL_TOKEN_VAR, tk_value = Some v\<rparr> # req_tokens d ys)
      else \<lparr>tk_type = token_code PROTOCOL_TOKEN_ARG, tk_value = Some x\<rparr> # req_tokens d xs)"

lemma req_tokens_length: "length (req_tokens d xs) \<le> length xs"
  by (induction d xs rule: req_tokens.induct) (auto split: list.splits)

lemma req_tokens_ok: "cstring d \<Longrightarrow> (\<And>x. x \<in> set xs \<Longrightarrow> cstring x) \<Longrightarrow> t \<in> set (req_tokens d xs) \<Longrightarrow> token_ok t"
  by (induction d xs rule: req_tokens.induct) (auto simp: token_ok_def split: if_splits list.splits)

text \<open>The loop appends these tokens behind the entries the length already counts.\<close>

definition append_tokens :: "ProtocolTokenStream \<Rightarrow> nat \<Rightarrow> ProtocolToken list \<Rightarrow> ProtocolTokenStream" where
  "append_tokens msg L R = msg\<lparr>ts_tokens := take L (ts_tokens msg) @ R @ drop (L + length R) (ts_tokens msg),
     ts_length := int (L + length R)\<rparr>"

lemma append_tokens_Cons:
  assumes "L < length (ts_tokens msg)"
  shows "append_tokens (msg\<lparr>ts_tokens := (ts_tokens msg)[L := t], ts_length := l\<rparr>) (Suc L) R = append_tokens msg L (t # R)"
proof -
  have "take (Suc L) ((ts_tokens msg)[L := t]) = take L (ts_tokens msg) @ [t]" using assms by (simp add: take_Suc_conv_app_nth)
  moreover have "drop (Suc (L + length R)) ((ts_tokens msg)[L := t]) = drop (Suc (L + length R)) (ts_tokens msg)" by simp
  ultimately show ?thesis by (simp add: append_tokens_def)
qed

lemma add_token_eq:
  assumes "ts_length msg = int L"
  shows "protocol_tokenstream_add_token msg ty v =
    (if L < length (ts_tokens msg)
     then Some (msg\<lparr>ts_tokens := (ts_tokens msg)[L := \<lparr>tk_type = token_code ty, tk_value = v\<rparr>], ts_length := int (Suc L)\<rparr>) else None)"
  using assms by (simp add: protocol_tokenstream_add_token_def wr_def)

lemma token_loop_eq:
  assumes "args_view argv cfg ps" and "ts_length msg = int L" and "i \<le> length ps"
  shows "token_loop argv cfg (int i) msg =
    (let R = req_tokens (hd argv) (drop i ps) in
     if R = [] \<or> L + length R \<le> length (ts_tokens msg) then Some (append_tokens msg L R) else None)"
  using assms
proof (induction "length ps - i" arbitrary: i msg L rule: less_induct)
  case less
  show ?case
  proof (cases "i < length ps")
    case False
    moreover have "append_tokens msg L [] = msg" using less.prems(2) by (simp add: append_tokens_def)
    ultimately show ?thesis using less.prems by (subst token_loop.simps) (simp add: args_view_def)
  next
    case True
    let ?x = "ps ! i" and ?d = "hd argv"
    have dr: "drop i ps = ?x # drop (Suc i) ps" using True by (simp add: Cons_nth_drop_Suc)
    have c: "int i < a_arg_count (c_args cfg)" using less.prems(1) True by (simp add: args_view_def)
    note at0 = args_view_at [OF less.prems(1), of i] and at1 = args_view_at [OF less.prems(1), of "Suc i"]
    show ?thesis
    proof (cases "?x = ''-e''")
      case e: True
      define v where "v = (if Suc i < length ps then ps ! Suc i else ?d)"
      let ?t = "\<lparr>tk_type = token_code PROTOCOL_TOKEN_VAR, tk_value = Some v\<rparr>"
      let ?m = "msg\<lparr>ts_tokens := (ts_tokens msg)[L := ?t], ts_length := int (Suc L)\<rparr>"
      have R: "req_tokens ?d (drop i ps) = ?t # req_tokens ?d (drop (i + 2) ps)"
      proof (cases "Suc i < length ps")
        case True
        have "drop (Suc i) ps = ps ! Suc i # drop (i + 2) ps" using Cons_nth_drop_Suc [OF True] by simp
        then have "drop i ps = ?x # ps ! Suc i # drop (i + 2) ps" using dr by simp
        then show ?thesis using e True by (simp add: v_def)
      next
        case False
        then show ?thesis using dr e by (simp add: v_def)
      qed
      have st: "token_loop argv cfg (int i) msg =
          (if L < length (ts_tokens msg) then token_loop argv cfg (int (i + 2)) ?m else None)"
        using c True e at0 at1 add_token_eq [OF less.prems(2), of PROTOCOL_TOKEN_VAR "Some v"]
        by (subst token_loop.simps) (simp add: strcmp_eq_def v_def add.commute)
      show ?thesis
      proof (cases "i + 2 \<le> length ps")
        case True2: True
        have "token_loop argv cfg (int (i + 2)) ?m = (let R = req_tokens ?d (drop (i + 2) ps) in
            if R = [] \<or> Suc L + length R \<le> length (ts_tokens ?m) then Some (append_tokens ?m (Suc L) R) else None)"
          using True True2 less.prems by (intro less.hyps) auto
        then show ?thesis using st R append_tokens_Cons [where L = L and msg = msg and t = ?t] by (auto simp: Let_def)
      next
        case False
        then have "token_loop argv cfg (int (i + 2)) ?m = Some ?m" "drop (i + 2) ps = []"
          using less.prems(1) by (auto simp: token_loop.simps args_view_def)
        then show ?thesis using st R by (simp add: append_tokens_def) (simp add: upd_conv_take_nth_drop)
      qed
    next
      case e: False
      let ?t = "\<lparr>tk_type = token_code PROTOCOL_TOKEN_ARG, tk_value = Some ?x\<rparr>"
      let ?m = "msg\<lparr>ts_tokens := (ts_tokens msg)[L := ?t], ts_length := int (Suc L)\<rparr>"
      have R: "req_tokens ?d (drop i ps) = ?t # req_tokens ?d (drop (Suc i) ps)" using dr e by simp
      have st: "token_loop argv cfg (int i) msg =
          (if L < length (ts_tokens msg) then token_loop argv cfg (int (Suc i)) ?m else None)"
        using c True e at0 add_token_eq [OF less.prems(2), of PROTOCOL_TOKEN_ARG "Some ?x"]
        by (subst token_loop.simps) (simp add: strcmp_eq_def add.commute)
      have "token_loop argv cfg (int (Suc i)) ?m = (let R = req_tokens ?d (drop (Suc i) ps) in
          if R = [] \<or> Suc L + length R \<le> length (ts_tokens ?m) then Some (append_tokens ?m (Suc L) R) else None)"
        using True less.prems by (intro less.hyps) auto
      then show ?thesis using st R append_tokens_Cons [where L = L and msg = msg and t = ?t] by (auto simp: Let_def)
    qed
  qed
qed


section \<open>The request a command line makes\<close>

definition cmd_code :: "string \<Rightarrow> ProtocolMsgType option" where
  "cmd_code w = (if w \<in> {''run'', ''r''} then Some PROTOCOL_MSG_TASK_RUN
     else if w \<in> {''set'', ''s''} then Some PROTOCOL_MSG_WORKSPACE_SET else None)"

definition info_word :: "string \<Rightarrow> bool" where
  "info_word w \<longleftrightarrow> w \<in> {''workspace'', ''ws'', ''w'', ''task'', ''t'', ''process'', ''proc'', ''p''}"

text \<open>The type an unimplemented command sets and what is printed for it.\<close>

definition info_type :: "string \<Rightarrow> ProtocolMsgType" where
  "info_type w = (if w \<in> {''workspace'', ''ws'', ''w''} then PROTOCOL_MSG_WORKSPACE_INFO
     else if w \<in> {''task'', ''t''} then PROTOCOL_MSG_TASK_INFO else PROTOCOL_MSG_PROC_INFO)"

definition info_text :: "string \<Rightarrow> string" where
  "info_text w = (if w \<in> {''workspace'', ''ws'', ''w''} then ''Workspace'' else if w \<in> {''task'', ''t''} then ''Task'' else ''Process'')
     @ '' info command is not implemented yet''"

text \<open>The later of the first two arguments that is a command word decides.\<close>

definition request_type :: "string \<Rightarrow> string \<Rightarrow> int" where
  "request_type w0 w1 =
     (case cmd_code w1 of Some c \<Rightarrow> msg_code c
      | None \<Rightarrow> (case cmd_code w0 of Some c \<Rightarrow> msg_code c | None \<Rightarrow> 4294967295))"

definition second_word :: "string list \<Rightarrow> string list \<Rightarrow> string" where
  "second_word argv rest = (case rest of [] \<Rightarrow> hd argv | w # _ \<Rightarrow> w)"

lemma is_cmd_set: "is_cmd w ws = (w \<in> set ws)"
  by (induction ws) (auto simp: strcmp_eq_def)

declare cmd_loop.simps(2) [simp del]

lemma cmd_loop_step:
  assumes "cmd_arg argv cfg i = Some w"
  shows "\<not> info_word w \<Longrightarrow> cmd_loop argv cfg (i # is) msg =
      cmd_loop argv cfg is (case cmd_code w of Some c \<Rightarrow> msg\<lparr>ts_type := msg_code c\<rparr> | None \<Rightarrow> msg)"
    and "info_word w \<Longrightarrow> cmd_loop argv cfg (i # is) msg =
      Some (Some (-1), msg\<lparr>ts_type := msg_code (info_type w)\<rparr>, CLIENT_PRINT cfg Cl_err (info_text w))"
proof -
  assume n: "\<not> info_word w"
  show "cmd_loop argv cfg (i # is) msg = cmd_loop argv cfg is (case cmd_code w of Some c \<Rightarrow> msg\<lparr>ts_type := msg_code c\<rparr> | None \<Rightarrow> msg)"
    using assms n by (simp add: cmd_loop.simps(2) is_cmd_set info_word_def cmd_code_def del: is_cmd.simps)
next
  assume i: "info_word w"
  show "cmd_loop argv cfg (i # is) msg =
      Some (Some (-1), msg\<lparr>ts_type := msg_code (info_type w)\<rparr>, CLIENT_PRINT cfg Cl_err (info_text w))"
    using assms i unfolding info_word_def
    by (elim insertE emptyE; simp add: cmd_loop.simps(2) is_cmd_set info_type_def info_text_def del: is_cmd.simps)
qed

lemma eval_cmds_eq:
  assumes av: "args_view argv cfg (w0 # rest)" and ni: "\<not> info_word w0" "\<not> info_word (second_word argv rest)"
  shows "client_eval_cmds argv cfg msg =
    (let R = req_tokens (hd argv) rest; n = length rest in
     if R = [] \<or> n + length R \<le> length (ts_tokens msg)
     then Some (0, append_tokens (msg\<lparr>ts_type := request_type w0 (second_word argv rest)\<rparr>) n R, []) else None)"
proof -
  have a0: "cmd_arg argv cfg 0 = Some w0" using cmd_arg_view [OF av, of 0] by simp
  have a1: "cmd_arg argv cfg 1 = Some (second_word argv rest)"
    using cmd_arg_view [OF av, of 1] by (cases rest) (simp_all add: second_word_def)
  let ?ty = "request_type w0 (second_word argv rest)"
  have u: "to_uint32 (-1) = 4294967295" by (simp add: to_uint32_def)
  have l: "cmd_loop argv cfg [0, 1] (msg\<lparr>ts_type := to_uint32 (-1)\<rparr>) = Some (None, msg\<lparr>ts_type := ?ty\<rparr>, [])"
    using cmd_loop_step(1) [OF a0 ni(1)] cmd_loop_step(1) [OF a1 ni(2)]
    by (auto simp: request_type_def u split: option.splits)
  have ty: "\<not> ?ty < 0" using msg_code_range by (auto simp: request_type_def not_less split: option.splits)
  have n: "a_arg_count (c_args cfg) = int (length rest) + 1" using av by (simp add: args_view_def)
  have ap: "append_tokens (msg\<lparr>ts_type := ?ty, ts_length := int (length rest)\<rparr>) (length rest) R =
      append_tokens (msg\<lparr>ts_type := ?ty\<rparr>) (length rest) R" for R by (simp add: append_tokens_def)
  show ?thesis
    using token_loop_eq [OF av, of "msg\<lparr>ts_type := ?ty, ts_length := int (length rest)\<rparr>" "length rest" 1] l ty n ap
    by (simp add: client_eval_cmds_def Let_def)
qed

lemma eval_cmds_info:
  assumes av: "args_view argv cfg (w0 # rest)" and i: "info_word w0 \<or> info_word (second_word argv rest)"
  shows "client_eval_cmds argv cfg msg =
    (let w = if info_word w0 then w0 else second_word argv rest in
     Some (-1, msg\<lparr>ts_type := msg_code (info_type w)\<rparr>, CLIENT_PRINT cfg Cl_err (info_text w)))"
proof -
  have a0: "cmd_arg argv cfg 0 = Some w0" using cmd_arg_view [OF av, of 0] by simp
  have a1: "cmd_arg argv cfg 1 = Some (second_word argv rest)"
    using cmd_arg_view [OF av, of 1] by (cases rest) (simp_all add: second_word_def)
  have n: "\<not> a_arg_count (c_args cfg) < 1" using av by (simp add: args_view_def)
  let ?m = "msg\<lparr>ts_type := to_uint32 (-1)\<rparr>" and ?w = "if info_word w0 then w0 else second_word argv rest"
  have "cmd_loop argv cfg [0, 1] ?m = Some (Some (-1), msg\<lparr>ts_type := msg_code (info_type ?w)\<rparr>, CLIENT_PRINT cfg Cl_err (info_text ?w))"
  proof (cases "info_word w0")
    case True
    then show ?thesis using cmd_loop_step(2) [OF a0 True, of "[1]" ?m] by simp
  next
    case False
    define m1 where "m1 = (case cmd_code w0 of Some c \<Rightarrow> ?m\<lparr>ts_type := msg_code c\<rparr> | None \<Rightarrow> ?m)"
    have "m1\<lparr>ts_type := ty\<rparr> = msg\<lparr>ts_type := ty\<rparr>" for ty by (simp add: m1_def split: option.splits)
    then show ?thesis
      using cmd_loop_step(1) [OF a0 False, of "[1]" ?m] cmd_loop_step(2) [OF a1, of "[]" m1] i False by (simp add: m1_def)
  qed
  then show ?thesis using n by (simp add: client_eval_cmds_def Let_def)
qed

text \<open>The stream the encoder sees: the counted but empty entries in front are skipped.\<close>

lemma append_tokens_stream:
  assumes z: "\<And>t. t \<in> set (take n (ts_tokens msg)) \<Longrightarrow> \<not> tk_real t" and R: "\<And>t. t \<in> set R \<Longrightarrow> token_ok t"
    and r: "\<And>t. t \<in> set (ts_tokens msg) \<Longrightarrow> tk_real t \<Longrightarrow> token_ok t"
    and fit: "n + length R \<le> length (ts_tokens msg)" "n + length R \<le> 2147483647" and ty: "0 \<le> ts_type msg" "ts_type msg < 4294967296"
  shows "stream_ok (append_tokens msg n R)" and "real_tokens (append_tokens msg n R) = R"
    and "ts_length (append_tokens msg n R) = int (n + length R)" and "ts_type (append_tokens msg n R) = ts_type msg"
proof -
  let ?ts = "append_tokens msg n R"
  have toks: "ts_tokens ?ts = take n (ts_tokens msg) @ R @ drop (n + length R) (ts_tokens msg)"
    "ts_length ?ts = int (n + length R)" "ts_type ?ts = ts_type msg" by (simp_all add: append_tokens_def)
  have real: "tk_real t" if "t \<in> set R" for t using R [OF that] by (auto simp: token_ok_def tk_real_def)
  have tk: "take (n + length R) (ts_tokens ?ts) = take n (ts_tokens msg) @ R" using fit(1) by (simp add: toks)
  have f0: "filter tk_real (take n (ts_tokens msg)) = []" using z by (simp add: filter_empty_conv)
  have f1: "filter tk_real R = R" using real by (simp add: filter_True)
  show "real_tokens ?ts = R" unfolding real_tokens_def toks(2) nat_int tk filter_append f0 f1 by simp
  have "\<forall>t \<in> set (ts_tokens ?ts). tk_real t \<longrightarrow> token_ok t"
    using R r unfolding toks by (auto dest: in_set_takeD in_set_dropD)
  then show "stream_ok ?ts" using fit ty by (simp add: stream_ok_def toks in_int32_def)
  show "ts_length ?ts = int (n + length R)" "ts_type ?ts = ts_type msg" by (simp_all add: toks)
qed


section \<open>A command and its answer\<close>

text \<open>Reading an answer of the server from a zeroed buffer.\<close>

lemma read_reply:
  assumes m: "cstring msg" and room: "ts_tokens ts \<noteq> []"
  shows "protocol_read (Some (message (reply ty msg) @ r)) L (Some ts) =
    Some (0, Some \<lparr>ts_type = msg_code ty, ts_length = 1, ts_tokens = ts_tokens (reply ty msg) @ drop 1 (ts_tokens ts)\<rparr>)"
proof -
  have "1 \<le> int (length (ts_tokens ts))" using room by (cases "ts_tokens ts") auto
  then show ?thesis
    using protocol_read_message [OF reply_ok [OF m], of ty ts r L] by (simp add: reply_real) (simp add: reply_def)
qed

definition answer_text :: "ProtocolMsgType \<Rightarrow> string \<Rightarrow> cevent" where
  "answer_text ty msg = (if ty = PROTOCOL_MSG_ERR then Cl_err (''Error: '' @ msg @ [NL]) else Cl_out (''Success: '' @ msg @ [NL]))"

lemma msg_code_err: "(msg_code ty = msg_code PROTOCOL_MSG_ERR) = (ty = PROTOCOL_MSG_ERR)"
  by (cases ty) simp_all


text \<open>The stream after an answer has been read over it.\<close>

definition after_reply :: "ProtocolMsgType \<Rightarrow> string \<Rightarrow> ProtocolTokenStream \<Rightarrow> ProtocolTokenStream" where
  "after_reply ty msg ts = \<lparr>ts_type = msg_code ty, ts_length = 1, ts_tokens = ts_tokens (reply ty msg) @ drop 1 (ts_tokens ts)\<rparr>"

text \<open>The server took the request and answered with a message that fits the buffer.\<close>

definition answered_by :: "Config \<Rightarrow> cmd_env \<Rightarrow> ProtocolMsgType \<Rightarrow> string \<Rightarrow> bool" where
  "answered_by cfg env ty msg \<longleftrightarrow> 0 < cx_poll env \<and> cstring msg
     \<and> (\<exists>x. cx_read env = Some (message (reply ty msg) @ x)
          \<and> int (14 + length msg + length x) \<le> buffer_size (connection (c_settings cfg)))
     \<and> 0 < ce_socket (cx_conn env) \<and> conn_finish cfg (cx_conn env) = 1
     \<and> send_sane (cx_send env) \<and> send_progress (cx_send env) (ce_socket (cx_conn env))"

lemma poll_response_total:
  assumes an: "answered_by cfg env ty msg" and ib: "cn_in_buf conn = Some ib" "int (length ib) = buffer_size (connection (c_settings cfg))"
    and room: "ts_tokens ts \<noteq> []"
  shows "\<exists>b. poll_response cfg env conn ts = Some (0, conn\<lparr>cn_in_buf := Some b\<rparr>, after_reply ty msg ts,
    if a_quiet (c_args cfg) then [] else [answer_text ty msg])"
proof -
  obtain x where rd: "cx_read env = Some (message (reply ty msg) @ x)" "14 + length msg + length x \<le> length ib"
    and m: "cstring msg" and pl: "0 < cx_poll env" using an ib(2) by (auto simp: answered_by_def)
  let ?w = "message (reply ty msg) @ x"
  have ne: "?w \<noteq> []" using reply_length [of ty msg] by (metis Nil_is_append_conv list.size(3) add_is_0 zero_neq_numeral)
  have l: "length ?w \<le> length ib" using rd(2) by (simp add: reply_length)
  have w: "wr_block ib 0 ?w = Some (?w @ drop (length ?w) ib)" using wr_block_nat [of ib 0 ?w] l by (simp del: append_assoc)
  have p: "protocol_read (Some (?w @ drop (length ?w) ib)) L (Some ts) = Some (0, Some (after_reply ty msg ts))" for L
    using read_reply [OF m room, of ty "x @ drop (length ?w) ib" L] by (simp add: after_reply_def)
  have t0: "rd (ts_tokens (after_reply ty msg ts)) 0 = Some \<lparr>tk_type = token_code PROTOCOL_TOKEN_ARG, tk_value = Some msg\<rparr>"
    "ts_type (after_reply ty msg ts) = msg_code ty" by (simp_all add: after_reply_def reply_def rd_def)
  show ?thesis
    unfolding poll_response_def rd(1) using pl ne ib(1) w p t0
    by (simp add: Let_def msg_code_err answer_text_def CLIENT_PRINT_def del: msg_code.simps append_assoc) blast
qed

definition sending_text :: "Config \<Rightarrow> cevent" where
  "sending_text cfg = Cl_out (''Sending command to dpatch server at port '' @ int_str (a_port (c_args cfg)) @ ''...'' @ [NL])"

text \<open>The connection \<open>connection_init\<close> makes when both buffers are there.\<close>

definition open_conn :: "Config \<Rightarrow> cmd_env \<Rightarrow> Connection" where
  "open_conn cfg env = (let z = Some (replicate (nat (buffer_size (connection (c_settings cfg)))) NUL) in
     (fresh_connection cfg (cx_conn env))\<lparr>cn_in_buf := z, cn_out_buf := z\<rparr>)"

text \<open>A round once the connection is open: what is sent, what is printed, the stream left.\<close>

lemma round_body:
  assumes ev: "client_eval_cmds argv cfg ts0 = Some (0, ts, [])" and ts: "stream_ok ts" "ts_tokens ts \<noteq> []"
    and fit: "int (length (message ts) + 4) \<le> buffer_size (connection (c_settings cfg))" and an: "answered_by cfg env ty msg"
    and c: "connection_init cfg (cx_conn env) mal ar = Some (Ret ((1, open_conn cfg env), ar1))"
  shows "command_round mal cfg argv env ts0 ar =
    Some (Ret ((0, after_reply ty msg ts, (if a_quiet (c_args cfg) then [] else [sending_text cfg])
      @ [Cl_send (ce_socket (cx_conn env)) (message ts @ replicate 4 NUL)]
      @ (if a_quiet (c_args cfg) then [] else [answer_text ty msg]) @ [Cl_close (ce_socket (cx_conn env))]), ar1))"
proof -
  note [simp del] = replicate_numeral_Cons
  define N where "N = nat (buffer_size (connection (c_settings cfg)))"
  let ?k = "ce_socket (cx_conn env)" and ?z = "replicate N NUL" and ?m = "message ts" and ?c = "open_conn cfg env"
  have c0: "cn_socket ?c = ?k" "cn_in_buf ?c = Some ?z" "cn_out_buf ?c = Some ?z" by (simp_all add: open_conn_def fresh_connection_def N_def Let_def)
  have N: "length ?m + 4 \<le> N" "int N = buffer_size (connection (c_settings cfg))" using fit by (auto simp: N_def)
  define b where "b = ?m @ drop (length ?m) ?z"
  have w: "take (length ?m + 4) b = ?m @ replicate 4 NUL" using N(1) by (simp add: b_def drop_replicate take_replicate min_def)
  have snd: "send_sane (cx_send env)" "send_progress (cx_send env) ?k" "0 < ?k" using an by (auto simp: answered_by_def)
  have "protocol_send (cx_send env) ?k (Some ?z) L (Some ts) =
      Some ((int (length ?m + 4), take (length ?m + 4) b), Some b)" for L
    using protocol_send_all [OF ts(1) snd(1,2), of ?z L] N(1) by (simp add: Let_def b_def)
  then have s: "send_cmd cfg env ?c ts = Some (0, ?c\<lparr>cn_out_buf := Some b\<rparr>,
      (if a_quiet (c_args cfg) then [] else [sending_text cfg]) @ [Cl_send ?k (?m @ replicate 4 NUL)])"
    using c0 w by (simp add: send_cmd_def CLIENT_PRINT_def sending_text_def)
  obtain ib' where p: "poll_response cfg env (?c\<lparr>cn_out_buf := Some b\<rparr>) ts =
      Some (0, ?c\<lparr>cn_out_buf := Some b, cn_in_buf := Some ib'\<rparr>, after_reply ty msg ts,
        if a_quiet (c_args cfg) then [] else [answer_text ty msg])"
    using poll_response_total [OF an, of "?c\<lparr>cn_out_buf := Some b\<rparr>" ?z ts] c0 N(2) ts(2) by auto
  have cl: "snd (fst (connection_close (?c\<lparr>cn_out_buf := Some b, cn_in_buf := Some ib'\<rparr>))) = Some ?k"
    using c0 snd(3) by (simp add: connection_close_def)
  show ?thesis using ev c s p cl by (simp add: command_round_def then_alloc_def)
qed

text \<open>With the default settings the two buffers take 2048 bytes of \<open>main\<close>'s arena.\<close>

lemma open_default:
  assumes "c_settings cfg = config_default_settings" and "answered_by cfg env ty msg" and "a \<le> 50000"
  shows "connection_init cfg (cx_conn env) mal (used_arena a rest) = Some (Ret ((1, open_conn cfg env), used_arena (a + 2048) rest))"
proof -
  note [simp del] = replicate_numeral_Cons
  show ?thesis
    using assms by (simp add: connection_init_def alloc_buf_def config_default_settings_def to_size_def used_arena_alloc Let_def
        fresh_connection_def open_conn_def SIZE_MOD_def add.commute answered_by_def)
qed


text \<open>What \<open>config_collect_args\<close> leaves is such a view of the positional arguments.\<close>

lemma collected_view:
  assumes al: "arena_alloc mal (4 * length argv) ar = Some (Ret (Some p, ar'))" and ne: "argv \<noteq> []"
    and c: "config_collect_args mal ar argv = Some (Ret (a, br))" and cfg: "c_args cfg = a"
  shows "args_view argv cfg (map snd (positionals 1 (tl argv)))"
proof -
  let ?ps = "positionals 1 (tl argv)"
  have s: "a_arg_count a = int (length ?ps)" "a_arg_indices a = map (int \<circ> fst) ?ps @ replicate (length argv - length ?ps) 0"
    "\<forall>(k, x) \<in> set ?ps. k < length argv \<and> argv ! k = x"
    using collect_args_spec [OF al ne] c by (auto simp: Let_def)
  have l: "length ?ps < length argv" using positionals_length [of 1 "tl argv"] ne by (cases argv) auto
  have "argv_at argv (a_arg_indices a ! i) = Some (Some (map snd ?ps ! i))" if i: "i < length ?ps" for i
  proof -
    obtain k x where kx: "?ps ! i = (k, x)" by (cases "?ps ! i")
    then have "k < length argv" "argv ! k = x" using s(3) i by (metis (mono_tags, lifting) case_prodD nth_mem)+
    then show ?thesis using i kx by (simp add: s(2) nth_append argv_at_def)
  qed
  then show ?thesis using l ne cfg s(1,2) by (simp add: args_view_def nth_append)
qed

section \<open>Properties\<close>

text \<open>C9. The request a command line makes. Command words are looked for in the first two positional
  arguments only (the program's name stands in for a missing second), and the later one wins, so a
  task that is called like a command word changes the request. The words of the info commands, which
  the help text documents, are all refused: the client prints that the command is not implemented,
  adds no token and returns -1. Otherwise every further argument becomes one ARG token, and every argument behind \<open>-e\<close> one VAR
  token, in order, placed behind as many empty entries as there are arguments; writing them stays
  inside the token array exactly when empty entries and tokens together fit its capacity.\<close>

theorem client_eval_cmds_correct:
  assumes "args_view argv cfg (w0 # rest)"
  shows "(info_word w0 \<or> info_word (second_word argv rest) \<longrightarrow>
      client_eval_cmds argv cfg msg =
        (let w = if info_word w0 then w0 else second_word argv rest in
         Some (-1, msg\<lparr>ts_type := msg_code (info_type w)\<rparr>, CLIENT_PRINT cfg Cl_err (info_text w))))
    \<and> (\<not> info_word w0 \<and> \<not> info_word (second_word argv rest) \<longrightarrow>
      client_eval_cmds argv cfg msg =
        (let R = req_tokens (hd argv) rest; n = length rest in
         if R = [] \<or> n + length R \<le> length (ts_tokens msg)
         then Some (0, append_tokens (msg\<lparr>ts_type := request_type w0 (second_word argv rest)\<rparr>) n R, []) else None))"
  using eval_cmds_eq [OF assms] eval_cmds_info [OF assms] by blast

section \<open>Witnesses\<close>

definition demo_args :: Args where
  "demo_args = (init_args 5)\<lparr>a_arg_count := 4, a_arg_indices := [1, 2, 3, 4, 0], a_run_mode := RUNMODE_CMD\<rparr>"

definition demo_client :: Config where
  "demo_client = \<lparr>c_args = demo_args, c_settings = config_default_settings\<rparr>"

definition demo_line :: "string list" where
  "demo_line = [''dpatch'', ''run'', ''do'', ''-e'', ''A=1'']"

lemma demo_view: "args_view demo_line demo_client [''run'', ''do'', ''-e'', ''A=1'']"
  by (auto simp: args_view_def demo_line_def demo_client_def demo_args_def argv_at_def less_Suc_eq numeral_eq_Suc)


lemma demo_words: "\<not> info_word ''run''" "second_word demo_line [''do'', ''-e'', ''A=1''] = ''do''" "\<not> info_word ''do''"
  "req_tokens (hd demo_line) [''do'', ''-e'', ''A=1''] =
    [\<lparr>tk_type = 1, tk_value = Some ''do''\<rparr>, \<lparr>tk_type = 2, tk_value = Some ''A=1''\<rparr>]"
  by (simp_all add: info_word_def second_word_def demo_line_def)


text \<open>The second line is the call in the example workspace of the README.\<close>

definition info_line :: "string list" where
  "info_line = [''bin/dpatch'', ''task'', ''chaintask2'']"

definition info_client :: Config where
  "info_client = demo_client\<lparr>c_args := (init_args 3)\<lparr>a_arg_count := 2, a_arg_indices := [1, 2, 0], a_run_mode := RUNMODE_CMD\<rparr>\<rparr>"

lemma info_view: "args_view info_line info_client [''task'', ''chaintask2'']"
  by (auto simp: args_view_def info_line_def info_client_def demo_client_def argv_at_def less_Suc_eq numeral_eq_Suc)

theorem client_eval_cmds_correct_witness:
  "client_eval_cmds demo_line demo_client \<lparr>ts_type = 0, ts_length = 0, ts_tokens = replicate 5 zero_token\<rparr> =
    Some (0, \<lparr>ts_type = 2, ts_length = 5, ts_tokens = [zero_token, zero_token, zero_token,
      \<lparr>tk_type = 1, tk_value = Some ''do''\<rparr>, \<lparr>tk_type = 2, tk_value = Some ''A=1''\<rparr>]\<rparr>, [])
   \<and> client_eval_cmds info_line info_client \<lparr>ts_type = 0, ts_length = 0, ts_tokens = replicate 5 zero_token\<rparr> =
    Some (-1, \<lparr>ts_type = msg_code PROTOCOL_MSG_TASK_INFO, ts_length = 0, ts_tokens = replicate 5 zero_token\<rparr>,
      [Cl_err (''Task info command is not implemented yet'' @ [NL])])"
proof
  let ?ts = "\<lparr>ts_type = 0, ts_length = 0, ts_tokens = replicate 5 zero_token\<rparr>"
  have "request_type ''run'' ''do'' = 2" by (simp add: request_type_def cmd_code_def)
  then show "client_eval_cmds demo_line demo_client ?ts =
    Some (0, \<lparr>ts_type = 2, ts_length = 5, ts_tokens = [zero_token, zero_token, zero_token,
      \<lparr>tk_type = 1, tk_value = Some ''do''\<rparr>, \<lparr>tk_type = 2, tk_value = Some ''A=1''\<rparr>]\<rparr>, [])"
    using client_eval_cmds_correct [OF demo_view, of ?ts] demo_words
    by (simp add: append_tokens_def)
  have "info_word ''task''" by (simp add: info_word_def)
  then show "client_eval_cmds info_line info_client ?ts =
    Some (-1, \<lparr>ts_type = msg_code PROTOCOL_MSG_TASK_INFO, ts_length = 0, ts_tokens = replicate 5 zero_token\<rparr>,
      [Cl_err (''Task info command is not implemented yet'' @ [NL])])"
    using client_eval_cmds_correct [OF info_view, of ?ts]
    by (simp add: Let_def info_type_def info_text_def CLIENT_PRINT_def info_client_def init_args_def)
qed

end
