(* ===== verification/Watch.thy ===== *)
theory Watch
  imports Client
begin

text \<open>
  The watch mode of the client ends. Every file event opens a connection, whose two buffers come
  from the arena and are never given back; the arena is locked, so the number of events that can
  be handled is bounded by the room left in it, and the next one makes \<open>poll_watch\<close> return -1.
\<close>

section \<open>Room in a locked arena\<close>

definition room :: "arena \<Rightarrow> nat" where
  "room ar = sum_list (map (\<lambda>p. pg_size p - pg_current p) ar)"

definition locked :: "arena \<Rightarrow> bool" where
  "locked ar \<longleftrightarrow> arena_ok ar \<and> ar \<noteq> [] \<and> pg_eom (last ar)"

lemma room_alloc_at:
  assumes "arena_ok ar" and "i < length ar" and "pg_current (ar ! i) + n \<le> pg_size (ar ! i)"
  shows "room (alloc_at ar i n) + n = room ar"
proof -
  let ?f = "\<lambda>p. pg_size p - pg_current p"
  have "?f (ar ! i) \<le> sum_list (map ?f ar)" using assms(2) by (intro member_le_sum_list) auto
  moreover have "?f (bump n (ar ! i)) + n = ?f (ar ! i)" using assms(3) by (simp add: bump_def)
  ultimately show ?thesis using assms(2)
    by (simp add: room_def alloc_at_def map_update sum_list_update)
qed

lemma locked_alloc:
  assumes l: "locked ar" and n: "n < PAGE_LIMIT"
  shows "\<exists>p ar'. arena_alloc mal n ar = Some (Ret (p, ar')) \<and> locked ar' \<and> room ar' + (if p = None then 0 else n) = room ar"
proof -
  have ok: "arena_ok ar" "ar \<noteq> []" "pg_eom (last ar)" using l by (auto simp: locked_def)
  show ?thesis
  proof (cases "pg_size (hd ar) < n \<or> find_fit n ar = None")
    case True
    then have "alloc_spec mal n ar = Ret (None, ar)" using ok by (auto simp: alloc_spec_def walk_spec_def)
    then show ?thesis using arena_alloc_spec [OF ok(1), of mal n] l by auto
  next
    case False
    then obtain i where i: "find_fit n ar = Some i" by auto
    have f: "i < length ar" "fits n (ar ! i)" using find_fit_Some [OF i] by (auto simp: first_fit_def)
    have c: "pg_current (ar ! i) + n \<le> pg_size (ar ! i)" using fits_page [OF arena_ok_nth [OF ok(1) f(1)] n] f(2) by simp
    have "alloc_spec mal n ar = Ret (Some (i, pg_current (ar ! i)), alloc_at ar i n)"
      using False i ok by (simp add: alloc_spec_def walk_spec_def)
    moreover have "locked (alloc_at ar i n)"
    proof -
      have "arena_ok (alloc_at ar i n)" using alloc_at_ok [OF ok(1) f(1) c] .
      moreover have "pg_eom (last (alloc_at ar i n))"
        using ok(2,3) f(1) by (simp add: alloc_at_def last_list_update) (auto simp: bump_def last_conv_nth)
      ultimately show ?thesis using ok(2) by (simp add: locked_def alloc_at_def)
    qed
    ultimately show ?thesis using arena_alloc_spec [OF ok(1), of mal n] room_alloc_at [OF ok(1) f(1) c] by auto
  qed
qed

section \<open>A round in a locked arena\<close>

abbreviation buf_bytes :: "Config \<Rightarrow> nat" where
  "buf_bytes cfg \<equiv> nat (buffer_size (connection (c_settings cfg)))"

definition buf_ok :: "Config \<Rightarrow> bool" where
  "buf_ok cfg \<longleftrightarrow> 0 < buffer_size (connection (c_settings cfg)) \<and> buffer_size (connection (c_settings cfg)) \<le> INT_MAX"

lemma locked_buf:
  assumes "locked ar" and "buf_ok cfg"
  shows "\<exists>b ar'. alloc_buf mal (buffer_size (connection (c_settings cfg))) ar = Some (Ret (b, ar')) \<and> locked ar'
    \<and> (b = None \<and> room ar' = room ar \<or> b = Some (replicate (buf_bytes cfg) NUL) \<and> room ar' + buf_bytes cfg = room ar)"
proof -
  let ?n = "buffer_size (connection (c_settings cfg))"
  have n: "to_size ?n = nat ?n" "nat ?n < PAGE_LIMIT"
    using assms(2) by (auto simp: buf_ok_def to_size_def SIZE_MOD_def INT_MAX_def PAGE_LIMIT_def)
  obtain p ar' where "arena_alloc mal (nat ?n) ar = Some (Ret (p, ar'))" "locked ar'" "room ar' + (if p = None then 0 else nat ?n) = room ar"
    using locked_alloc [OF assms(1) n(2)] by blast
  then show ?thesis using n(1) by (cases p) (auto simp: alloc_buf_def)
qed

text \<open>Opening a connection: it fails, or the output buffer is missing, or both buffers were taken.\<close>

lemma locked_init:
  assumes l: "locked ar" and b: "buf_ok cfg" and an: "answered_by cfg env ty msg"
  obtains c conn ar1 where "connection_init cfg (cx_conn env) mal ar = Some (Ret ((c, conn), ar1))" and "locked ar1"
    and "c < 1 \<or> cn_out_buf conn = None \<or> c = 1 \<and> conn = open_conn cfg env \<and> room ar1 + 2 * buf_bytes cfg = room ar"
proof -
  let ?n = "buffer_size (connection (c_settings cfg))"
  have e: "0 < ce_socket (cx_conn env)" "conn_finish cfg (cx_conn env) = 1" using an by (auto simp: answered_by_def)
  obtain ib ar1 where i: "alloc_buf mal ?n ar = Some (Ret (ib, ar1))" "locked ar1"
    "ib = None \<and> room ar1 = room ar \<or> ib = Some (replicate (buf_bytes cfg) NUL) \<and> room ar1 + buf_bytes cfg = room ar"
    using locked_buf [OF l b] by blast
  show ?thesis
  proof (cases "ib = None")
    case True
    show ?thesis by (rule that [of "-1" _ ar1]) (use i True e in \<open>auto simp: connection_init_def fresh_connection_def Let_def\<close>)
  next
    case False
    obtain ob ar2 where o2: "alloc_buf mal ?n ar1 = Some (Ret (ob, ar2))" "locked ar2"
      "ob = None \<and> room ar2 = room ar1 \<or> ob = Some (replicate (buf_bytes cfg) NUL) \<and> room ar2 + buf_bytes cfg = room ar1"
      using locked_buf [OF i(2) b] by blast
    let ?c = "(fresh_connection cfg (cx_conn env))\<lparr>cn_in_buf := ib, cn_out_buf := ob\<rparr>"
    have "connection_init cfg (cx_conn env) mal ar = Some (Ret ((1, ?c), ar2))"
      using i(1) False o2(1) e by (auto simp: connection_init_def Let_def fresh_connection_def)
    moreover have "cn_out_buf ?c = None \<or> ?c = open_conn cfg env \<and> room ar2 + 2 * buf_bytes cfg = room ar"
      using i(3) False o2(3) by (auto simp: open_conn_def Let_def)
    ultimately show ?thesis using that [of 1 ?c ar2] o2(2) by blast
  qed
qed

lemma send_without_buffer:
  "cn_out_buf conn = None \<Longrightarrow> \<exists>evs. send_cmd cfg env conn ts = Some (-1, conn, evs)"
  by (simp add: send_cmd_def protocol_send_def protocol_tokenstream_to_buf_def Let_def)

lemma locked_round:
  assumes ev: "client_eval_cmds argv cfg ts0 = Some (0, ts, [])" and ts: "stream_ok ts" "ts_tokens ts \<noteq> []"
    and fit: "int (length (message ts) + 4) \<le> buffer_size (connection (c_settings cfg))" and an: "answered_by cfg env ty msg"
    and l: "locked ar" and b: "buf_ok cfg"
  obtains r ts1 evs ar1 where "command_round mal cfg argv env ts0 ar = Some (Ret ((r, ts1, evs), ar1))" and "locked ar1"
    and "r = -1 \<or> r = 0 \<and> ts1 = after_reply ty msg ts \<and> room ar1 + 2 * buf_bytes cfg = room ar"
proof -
  obtain c conn ar1 where i: "connection_init cfg (cx_conn env) mal ar = Some (Ret ((c, conn), ar1))" "locked ar1"
    "c < 1 \<or> cn_out_buf conn = None \<or> c = 1 \<and> conn = open_conn cfg env \<and> room ar1 + 2 * buf_bytes cfg = room ar"
    using locked_init [OF l b an] by metis
  consider "c < 1" | "\<not> c < 1" "cn_out_buf conn = None" | "c = 1" "conn = open_conn cfg env" "room ar1 + 2 * buf_bytes cfg = room ar"
    using i(3) by (cases "c < 1") auto
  then show ?thesis
  proof cases
    case 1
    show ?thesis by (rule that [of "-1" ts "[]" ar1]) (use i 1 ev in \<open>simp_all add: command_round_def then_alloc_def\<close>)
  next
    case 2
    obtain evs where "send_cmd cfg env conn ts = Some (-1, conn, evs)" using send_without_buffer [OF 2(2)] by blast
    then show ?thesis by (intro that [of "-1" ts evs ar1]) (use i 2 ev in \<open>simp_all add: command_round_def then_alloc_def\<close>)
  next
    case 3
    then show ?thesis using that i round_body [OF ev ts fit an] by blast
  qed
qed


section \<open>The stream between rounds\<close>

text \<open>The first \<open>n\<close> entries hold no token beyond the counted ones; a reset empties them all.\<close>

definition watch_stream :: "nat \<Rightarrow> nat \<Rightarrow> ProtocolTokenStream \<Rightarrow> bool" where
  "watch_stream n cap ts \<longleftrightarrow> length (ts_tokens ts) = cap \<and> 0 \<le> ts_length ts \<and> ts_length ts \<le> int cap
     \<and> (\<forall>t \<in> set (ts_tokens ts). tk_real t \<longrightarrow> token_ok t)
     \<and> (\<forall>j. nat (ts_length ts) \<le> j \<longrightarrow> j < n \<longrightarrow> j < cap \<longrightarrow> \<not> tk_real (ts_tokens ts ! j))"

lemma watch_reset:
  assumes "watch_stream n cap ts"
  obtains ts1 where "protocol_tokenstream_reset ts = Some ts1" and "length (ts_tokens ts1) = cap"
    and "\<And>t. t \<in> set (ts_tokens ts1) \<Longrightarrow> tk_real t \<Longrightarrow> token_ok t" and "\<And>t. t \<in> set (take n (ts_tokens ts1)) \<Longrightarrow> \<not> tk_real t"
proof -
  define k where "k = nat (ts_length ts)"
  have k: "ts_length ts = int k" "k \<le> length (ts_tokens ts)" "length (ts_tokens ts) = cap" using assms by (auto simp: watch_stream_def k_def)
  let ?z = "replicate k zero_token @ drop k (ts_tokens ts)"
  have nz: "\<not> tk_real zero_token" by (simp add: tk_real_def zero_token_def)
  have "protocol_tokenstream_reset ts = Some (ts\<lparr>ts_tokens := ?z, ts_length := 0\<rparr>)"
    using clear_tokens_eq [of "int k" "ts_tokens ts"] k by (simp add: protocol_tokenstream_reset_def)
  moreover have "token_ok t" if "t \<in> set ?z" "tk_real t" for t
    using that assms nz by (auto simp: watch_stream_def dest: in_set_dropD)
  moreover have "\<not> tk_real t" if t: "t \<in> set (take n ?z)" for t
  proof -
    obtain j where j0: "j < length (take n ?z)" "take n ?z ! j = t" using t unfolding in_set_conv_nth by blast
    then have j: "j < n" "j < length ?z" "t = ?z ! j" by (simp_all del: take_append)
    show ?thesis
    proof (cases "j < k")
      case True
      then show ?thesis using j nz by (simp add: nth_append)
    next
      case False
      then have tj: "t = ts_tokens ts ! j" using j k by (simp add: nth_append)
      have "nat (ts_length ts) \<le> j" "j < cap" using False j(2) k by simp_all
      then show ?thesis using assms j(1) unfolding watch_stream_def tj by blast
    qed
  qed
  ultimately show ?thesis using that [of "ts\<lparr>ts_tokens := ?z, ts_length := 0\<rparr>"] k by simp
qed

lemma after_reply_stream:
  assumes "length (ts_tokens ts) = cap" and "0 < cap" and "stream_ok ts" and "cstring msg"
    and z: "\<And>t. t \<in> set (take n (ts_tokens ts)) \<Longrightarrow> \<not> tk_real t"
  shows "watch_stream n cap (after_reply ty msg ts)"
proof -
  let ?r = "ts_tokens (reply ty msg) @ drop 1 (ts_tokens ts)"
  have l: "length ?r = cap" using assms(1,2) by (simp add: reply_def)
  have "\<forall>t \<in> set ?r. tk_real t \<longrightarrow> token_ok t"
    using assms(3) reply_ok [OF assms(4), of ty] by (auto simp: stream_ok_def dest: in_set_dropD)
  moreover have "\<not> tk_real (?r ! j)" if "1 \<le> j" "j < n" "j < cap" for j
  proof -
    have "?r ! j = ts_tokens ts ! j" using that assms(1) by (simp add: reply_def nth_Cons')
    moreover have "ts_tokens ts ! j \<in> set (take n (ts_tokens ts))" using that assms(1) by (auto simp: in_set_conv_nth)
    ultimately show ?thesis using z by metis
  qed
  ultimately show ?thesis using l assms(2) by (auto simp: watch_stream_def after_reply_def)
qed

text \<open>The request of a command line, as a stream; only its message matters.\<close>

definition request_of :: "string list \<Rightarrow> string \<Rightarrow> string list \<Rightarrow> ProtocolTokenStream" where
  "request_of argv w0 rest = (let R = req_tokens (hd argv) rest in
     \<lparr>ts_type = request_type w0 (second_word argv rest), ts_length = int (length rest + length R),
      ts_tokens = replicate (length rest) zero_token @ R\<rparr>)"

definition command_ok :: "string list \<Rightarrow> Config \<Rightarrow> string \<Rightarrow> string list \<Rightarrow> bool" where
  "command_ok argv cfg w0 rest \<longleftrightarrow> args_view argv cfg (w0 # rest) \<and> \<not> info_word w0 \<and> \<not> info_word (second_word argv rest)
     \<and> cstring (hd argv) \<and> (\<forall>x \<in> set rest. cstring x)
     \<and> int (length rest + length (req_tokens (hd argv) rest)) \<le> protocol_token_count (general (c_settings cfg))
     \<and> 0 < protocol_token_count (general (c_settings cfg)) \<and> protocol_token_count (general (c_settings cfg)) \<le> INT_MAX
     \<and> int (length (message (request_of argv w0 rest)) + 4) \<le> buffer_size (connection (c_settings cfg))"

abbreviation token_cap :: "Config \<Rightarrow> nat" where
  "token_cap cfg \<equiv> nat (protocol_token_count (general (c_settings cfg)))"

lemma request_type_range: "0 \<le> request_type w0 w1 \<and> request_type w0 w1 < 4294967296"
  using msg_code_range by (auto simp: request_type_def split: option.splits) (smt (verit) msg_code_range)+

lemma message_cong:
  "ts_type ts = ts_type ts' \<Longrightarrow> ts_length ts = ts_length ts' \<Longrightarrow> real_tokens ts = real_tokens ts' \<Longrightarrow> message ts = message ts'"
  by (simp add: message_def payload_def)

lemma eval_watch:
  assumes ok: "command_ok argv cfg w0 rest" and cap: "length (ts_tokens ts1) = token_cap cfg"
    and real: "\<And>t. t \<in> set (ts_tokens ts1) \<Longrightarrow> tk_real t \<Longrightarrow> token_ok t"
    and z: "\<And>t. t \<in> set (take (length rest) (ts_tokens ts1)) \<Longrightarrow> \<not> tk_real t"
  obtains ts where "client_eval_cmds argv cfg ts1 = Some (0, ts, [])" and "stream_ok ts" and "ts_tokens ts \<noteq> []"
    and "message ts = message (request_of argv w0 rest)" and "length (ts_tokens ts) = token_cap cfg"
    and "\<And>t. t \<in> set (take (length rest) (ts_tokens ts)) \<Longrightarrow> \<not> tk_real t"
    and "real_tokens ts = req_tokens (hd argv) rest" and "ts_length ts = int (length rest + length (req_tokens (hd argv) rest))"
    and "ts_type ts = request_type w0 (second_word argv rest)"
proof -
  define R where "R = req_tokens (hd argv) rest"
  let ?m = "ts1\<lparr>ts_type := request_type w0 (second_word argv rest)\<rparr>"
  let ?ts = "append_tokens ?m (length rest) R" and ?q = "request_of argv w0 rest"
  have fit: "length rest + length R \<le> length (ts_tokens ts1)" "length rest + length R \<le> 2147483647"
    using ok cap by (auto simp: command_ok_def R_def INT_MAX_def)
  have tok: "\<And>t. t \<in> set R \<Longrightarrow> token_ok t" using ok req_tokens_ok [of "hd argv" rest] by (auto simp: command_ok_def R_def)
  have ev: "client_eval_cmds argv cfg ts1 = Some (0, ?ts, [])"
    using eval_cmds_eq [of argv cfg w0 rest ts1] ok fit by (simp add: command_ok_def R_def Let_def)
  note st = append_tokens_stream [of "length rest" ?m R, simplified, OF z tok real fit]
  have a: "stream_ok ?ts" "real_tokens ?ts = R" "ts_length ?ts = int (length rest + length R)"
    "ts_type ?ts = request_type w0 (second_word argv rest)"
    using st request_type_range [of w0 "second_word argv rest"] by auto
  have "\<forall>t \<in> set R. tk_real t" using tok by (fastforce simp: token_ok_def tk_real_def)
  then have f: "filter tk_real R = R" by (simp add: filter_True)
  have "real_tokens ?q = filter tk_real (replicate (length rest) zero_token) @ filter tk_real R"
    by (simp add: real_tokens_def request_of_def Let_def R_def [symmetric])
  then have "real_tokens ?q = R" using f by (simp add: tk_real_def zero_token_def)
  then have msg: "message ?ts = message ?q" using a by (intro message_cong) (simp_all add: request_of_def Let_def R_def)
  have toks: "ts_tokens ?ts = take (length rest) (ts_tokens ts1) @ R @ drop (length rest + length R) (ts_tokens ts1)"
    by (simp add: append_tokens_def)
  have len: "length (ts_tokens ?ts) = token_cap cfg" using fit(1) cap by (simp add: toks)
  have z': "\<not> tk_real t" if "t \<in> set (take (length rest) (ts_tokens ?ts))" for t
    using that z fit(1) by (simp add: toks)
  have "0 < token_cap cfg" using ok by (simp add: command_ok_def)
  then have ne: "ts_tokens ?ts \<noteq> []" using len by auto
  show ?thesis using that [OF ev a(1) ne msg len z'] a by (simp add: R_def)
qed


section \<open>The loop\<close>

abbreviation file_event :: "watch_input \<Rightarrow> bool" where
  "file_event wi \<equiv> 0 < wi_poll wi \<and> 0 < wi_read wi"

definition file_events :: "watch_input list \<Rightarrow> nat" where
  "file_events wis = length (filter file_event wis)"

definition all_answered :: "Config \<Rightarrow> watch_input list \<Rightarrow> bool" where
  "all_answered cfg wis \<longleftrightarrow> (\<forall>wi \<in> set wis. file_event wi \<longrightarrow> (\<exists>ty msg. answered_by cfg (wi_cmd wi) ty msg))"

lemma watch_step_total:
  assumes ok: "command_ok argv cfg w0 rest" and b: "buf_ok cfg" and an: "answered_by cfg (wi_cmd wi) ty msg" and e: "file_event wi"
    and w: "watch_stream (length rest) (token_cap cfg) ts" and l: "locked ar"
  obtains r ts1 evs ar1 where "watch_step mal cfg argv wi ts ar = Some (Ret ((r, ts1, evs), ar1))" and "locked ar1"
    and "r = Some (-1) \<or> r = None \<and> watch_stream (length rest) (token_cap cfg) ts1 \<and> room ar1 + 2 * buf_bytes cfg = room ar"
proof -
  obtain ts1 where rs: "protocol_tokenstream_reset ts = Some ts1" "length (ts_tokens ts1) = token_cap cfg"
    "\<And>t. t \<in> set (ts_tokens ts1) \<Longrightarrow> tk_real t \<Longrightarrow> token_ok t" "\<And>t. t \<in> set (take (length rest) (ts_tokens ts1)) \<Longrightarrow> \<not> tk_real t"
    using watch_reset [OF w] by metis
  obtain ts2 where t2: "client_eval_cmds argv cfg ts1 = Some (0, ts2, [])" "stream_ok ts2" "ts_tokens ts2 \<noteq> []"
    "message ts2 = message (request_of argv w0 rest)" "length (ts_tokens ts2) = token_cap cfg"
    "\<And>t. t \<in> set (take (length rest) (ts_tokens ts2)) \<Longrightarrow> \<not> tk_real t"
    using eval_watch [OF ok rs(2-4)] by metis
  have fit: "int (length (message ts2) + 4) \<le> buffer_size (connection (c_settings cfg))" using ok t2(4) by (simp add: command_ok_def)
  obtain r ts3 evs ar1 where c: "command_round mal cfg argv (wi_cmd wi) ts1 ar = Some (Ret ((r, ts3, evs), ar1))" "locked ar1"
    "r = -1 \<or> r = 0 \<and> ts3 = after_reply ty msg ts2 \<and> room ar1 + 2 * buf_bytes cfg = room ar"
    using locked_round [OF t2(1-3) fit an l b] by metis
  have st: "watch_step mal cfg argv wi ts ar = Some (Ret ((if r \<noteq> 0 then Some r else None, ts3, evs), ar1))"
    using e rs(1) c(1) by (simp add: watch_step_def then_alloc_def)
  have "0 < token_cap cfg" "cstring msg" using ok an by (auto simp: command_ok_def answered_by_def)
  then have "watch_stream (length rest) (token_cap cfg) (after_reply ty msg ts2)"
    using after_reply_stream [OF t2(5) _ t2(2) _ t2(6)] by blast
  then show ?thesis by (intro that [OF st c(2)]) (use c(3) in auto)
qed

lemma watch_step_idle: "\<not> file_event wi \<Longrightarrow> watch_step mal cfg argv wi ts ar = Some (Ret ((None, ts, []), ar))"
  by (auto simp: watch_step_def)

lemma poll_watch_total:
  assumes ok: "command_ok argv cfg w0 rest" and b: "buf_ok cfg"
  shows "all_answered cfg wis \<Longrightarrow> watch_stream (length rest) (token_cap cfg) ts \<Longrightarrow> locked ar \<Longrightarrow>
    \<exists>r ts1 evs ar1. poll_watch mal cfg argv wis ts ar = Some (Ret ((r, ts1, evs), ar1))
      \<and> (r = Some (-1) \<or> r = None \<and> file_events wis * (2 * buf_bytes cfg) + room ar1 = room ar)"
proof (induction wis arbitrary: ts ar)
  case Nil
  then show ?case by (simp add: file_events_def)
next
  case (Cons wi wis)
  have all: "all_answered cfg wis" using Cons.prems(1) by (simp add: all_answered_def)
  show ?case
  proof (cases "file_event wi")
    case False
    then have "file_events (wi # wis) = file_events wis" by (auto simp: file_events_def)
    then show ?thesis using Cons.IH [OF all Cons.prems(2,3)] watch_step_idle [OF False] by (auto simp: then_alloc_def)
  next
    case True
    obtain ty msg where an: "answered_by cfg (wi_cmd wi) ty msg" using Cons.prems(1) True by (auto simp: all_answered_def)
    obtain r ts1 evs ar1 where s: "watch_step mal cfg argv wi ts ar = Some (Ret ((r, ts1, evs), ar1))" "locked ar1"
      "r = Some (-1) \<or> r = None \<and> watch_stream (length rest) (token_cap cfg) ts1 \<and> room ar1 + 2 * buf_bytes cfg = room ar"
      using watch_step_total [OF ok b an True Cons.prems(2,3)] by metis
    show ?thesis
    proof (cases r)
      case (Some ret)
      then show ?thesis using s by (simp add: then_alloc_def)
    next
      case None
      then obtain r2 ts2 evs2 ar2 where q: "poll_watch mal cfg argv wis ts1 ar1 = Some (Ret ((r2, ts2, evs2), ar2))"
        "r2 = Some (-1) \<or> r2 = None \<and> file_events wis * (2 * buf_bytes cfg) + room ar2 = room ar1"
        using Cons.IH [OF all _ s(2)] s(3) by blast
      have "poll_watch mal cfg argv (wi # wis) ts ar = Some (Ret ((r2, ts2, evs @ evs2), ar2))"
        using s(1) None q(1) by (simp add: then_alloc_def)
      moreover have "file_events (wi # wis) * (2 * buf_bytes cfg) = file_events wis * (2 * buf_bytes cfg) + 2 * buf_bytes cfg"
        using True by (simp add: file_events_def)
      moreover have "room ar1 + 2 * buf_bytes cfg = room ar" using s(3) None by simp
      ultimately show ?thesis using q(2) by auto
    qed
  qed
qed

section \<open>Properties\<close>

text \<open>C8. Watch mode ends, on the arena \<open>main\<close> sets up, which is locked: however many turns the loop
  is given, and although every command is delivered and answered, it returns -1 as soon as the
  file events need more buffers than the arena has room for, because every event takes two
  buffers and none is given back. It never gets stuck before that.\<close>

theorem watch_mode_ends:
  assumes "command_ok argv cfg w0 rest" and "buf_ok cfg" and "all_answered cfg wis"
    and "watch_stream (length rest) (token_cap cfg) ts" and "locked ar"
  shows "\<exists>r ts1 evs ar1. poll_watch mal cfg argv wis ts ar = Some (Ret ((r, ts1, evs), ar1))
    \<and> (room ar < file_events wis * (2 * buf_bytes cfg) \<longrightarrow> r = Some (-1))
    \<and> (r = None \<longrightarrow> file_events wis * (2 * buf_bytes cfg) + room ar1 = room ar)"
  using poll_watch_total [OF assms(1-5), of mal] by auto

section \<open>Witnesses\<close>

text \<open>\<open>dpatch run do -e A=1\<close>, started 65 times on two locked pages of 64 KiB.\<close>

definition demo_cmd_env :: cmd_env where
  "demo_cmd_env = \<lparr>cx_conn = demo_env, cx_send = demo_send, cx_poll = 1, cx_read = Some (message (reply PROTOCOL_MSG_SUCCESS ''ok''))\<rparr>"

lemma demo_message: "length (message (request_of demo_line ''run'' [''do'', ''-e'', ''A=1''])) = 21"
proof -
  have "real_tokens (request_of demo_line ''run'' [''do'', ''-e'', ''A=1'']) =
      [\<lparr>tk_type = 1, tk_value = Some ''do''\<rparr>, \<lparr>tk_type = 2, tk_value = Some ''A=1''\<rparr>]"
    unfolding real_tokens_def request_of_def demo_words(4) by (simp add: tk_real_def zero_token_def)
  then show ?thesis unfolding message_length payload_def by (simp add: enc_token_def)
qed

lemma demo_command_ok: "command_ok demo_line demo_client ''run'' [''do'', ''-e'', ''A=1'']"
  unfolding command_ok_def demo_words demo_message using demo_view demo_words
  by (simp add: cstring_def) (simp add: demo_line_def demo_client_def config_default_settings_def INT_MAX_def)

lemma demo_answered: "answered_by demo_client demo_cmd_env PROTOCOL_MSG_SUCCESS ''ok''"
  using demo_send_ok
  by (simp add: answered_by_def demo_cmd_env_def cstring_def)
    (simp add: demo_client_def config_default_settings_def demo_env_def conn_finish_def demo_args_def)

definition demo_pages :: arena where
  "demo_pages = lock_last [fresh_page 65536, fresh_page 65536]"

lemma demo_pages_ok: "locked demo_pages" "room demo_pages = 131072"
proof -
  have "page_ok (fresh_page S)" "page_ok ((fresh_page S)\<lparr>pg_eom := True\<rparr>)" if "S < PAGE_LIMIT" for S
    using that by (simp_all add: page_ok_def fresh_page_def)
  then have "arena_ok demo_pages" by (simp add: demo_pages_def lock_last_def PAGE_LIMIT_def)
  moreover have "pg_eom ((fresh_page S)\<lparr>pg_eom := True\<rparr>)" for S by simp
  ultimately show "locked demo_pages" by (simp add: locked_def demo_pages_def lock_last_def)
  have "pg_size (fresh_page S) = S" "pg_current (fresh_page S) = 0" for S by (simp_all add: fresh_page_def)
  then show "room demo_pages = 131072" by (simp add: room_def demo_pages_def lock_last_def)
qed

theorem watch_mode_ends_witness:
  "\<exists>ts1 evs ar1. poll_watch (\<lambda>_. True) demo_client demo_line (replicate 65 \<lparr>wi_poll = 1, wi_read = 16, wi_cmd = demo_cmd_env\<rparr>)
      \<lparr>ts_type = 0, ts_length = 0, ts_tokens = replicate 30 zero_token\<rparr> demo_pages = Some (Ret ((Some (-1), ts1, evs), ar1))"
proof -
  note [simp del] = replicate_numeral_Cons
  let ?wi = "\<lparr>wi_poll = 1, wi_read = 16, wi_cmd = demo_cmd_env\<rparr>" and ?ts = "\<lparr>ts_type = 0, ts_length = 0, ts_tokens = replicate 30 zero_token\<rparr>"
  have b: "buf_ok demo_client" "buf_bytes demo_client = 1024" "token_cap demo_client = 30"
    by (simp_all add: buf_ok_def demo_client_def config_default_settings_def INT_MAX_def)
  have a: "all_answered demo_client (replicate 65 ?wi)" using demo_answered by (auto simp: all_answered_def)
  have z: "\<not> tk_real zero_token" by (simp add: tk_real_def zero_token_def)
  have w: "watch_stream (length [''do'', ''-e'', ''A=1'']) (token_cap demo_client) ?ts"
    unfolding b(3) using z by (simp add: watch_stream_def)
  have e: "file_events (replicate 65 ?wi) = 65" by (simp add: file_events_def filter_replicate)
  show ?thesis
    using watch_mode_ends [OF demo_command_ok b(1) a w demo_pages_ok(1), of "\<lambda>_. True"] demo_pages_ok(2) e b(2) by auto
qed

end
