(* ===== verification/Log.thy ===== *)
theory Log
  imports Prelude
begin

text \<open>
  The log, \<open>src/src/log.h\<close>. The state is the file behind \<open>__log_output_fd\<close>, if one is open. The
  text a format and its arguments make (a C string, so without NUL) and the date \<open>strftime\<close> writes
  are arguments; the two \<open>snprintf\<close> calls cut at the sizes of their buffers.
\<close>

definition LOG_MSG_MAX :: nat where "LOG_MSG_MAX = 8196"
definition LOG_DATE_MAX :: nat where "LOG_DATE_MAX = 32"
definition LOG_TAG_MAX :: nat where "LOG_TAG_MAX = 32"
definition LOG_OUT_MAX :: nat where "LOG_OUT_MAX = LOG_DATE_MAX + LOG_TAG_MAX + LOG_MSG_MAX"

definition ESC :: byte where "ESC = CHR 0x1B"

datatype log_color = LOG_CLR_NORMAL | LOG_CLR_RED | LOG_CLR_GREEN | LOG_CLR_YELLOW | LOG_CLR_CYAN | LOG_CLR_WHITE

primrec color_code :: "log_color \<Rightarrow> string" where
  "color_code LOG_CLR_NORMAL = ESC # ''[0m''"
| "color_code LOG_CLR_RED = ESC # ''[31m''"
| "color_code LOG_CLR_GREEN = ESC # ''[32m''"
| "color_code LOG_CLR_YELLOW = ESC # ''[33m''"
| "color_code LOG_CLR_CYAN = ESC # ''[36m''"
| "color_code LOG_CLR_WHITE = ESC # ''[37m''"

type_synonym log_state = "string option"

datatype log_event = Log_stdout string | Log_file string string | Log_closed string

text \<open>\<open>fopen_w\<close> tells whether a file can be opened for writing.\<close>

definition log_init :: "(string \<Rightarrow> bool) \<Rightarrow> string option \<Rightarrow> log_state \<Rightarrow> int \<times> log_state" where
  "log_init fopen_w output_file lg =
     (case output_file of
        None \<Rightarrow> (0, lg)
      | Some path \<Rightarrow> if fopen_w path then (0, Some path) else (-1, None))"

definition log_close :: "log_state \<Rightarrow> log_state \<times> log_event list" where
  "log_close lg = (case lg of None \<Rightarrow> (None, []) | Some path \<Rightarrow> (None, [Log_closed path]))"

definition log_print :: "log_state \<Rightarrow> string \<Rightarrow> log_color \<Rightarrow> string \<Rightarrow> string \<Rightarrow> log_event list" where
  "log_print lg date color tag text =
     (let in_buf = take (LOG_MSG_MAX - 1) text;
          out_buf = take (LOG_OUT_MAX - 1) (color_code color @ date @ '' '' @ tag @ color_code LOG_CLR_NORMAL @ '' '' @ in_buf)
      in Log_stdout (out_buf @ [NL]) # (case lg of None \<Rightarrow> [] | Some path \<Rightarrow> [Log_file path (out_buf @ [NL])]))"

text \<open>The macros; each is empty below its level. The Makefile builds with \<open>LOG_LEVEL\<close> 3.\<close>

definition LOG_ERR :: "nat \<Rightarrow> log_state \<Rightarrow> string \<Rightarrow> string \<Rightarrow> log_event list" where
  "LOG_ERR log_level lg date text = (if 1 \<le> log_level then log_print lg date LOG_CLR_RED ''ERROR'' text else [])"

definition LOG_WARN :: "nat \<Rightarrow> log_state \<Rightarrow> string \<Rightarrow> string \<Rightarrow> log_event list" where
  "LOG_WARN log_level lg date text = (if 2 \<le> log_level then log_print lg date LOG_CLR_YELLOW ''WARN'' text else [])"

definition LOG_INFO :: "nat \<Rightarrow> log_state \<Rightarrow> string \<Rightarrow> string \<Rightarrow> log_event list" where
  "LOG_INFO log_level lg date text = (if 3 \<le> log_level then log_print lg date LOG_CLR_GREEN ''INFO'' text else [])"

definition LOG_DEBUG :: "nat \<Rightarrow> log_state \<Rightarrow> string \<Rightarrow> string \<Rightarrow> log_event list" where
  "LOG_DEBUG log_level lg date text = (if 4 \<le> log_level then log_print lg date LOG_CLR_CYAN ''DEBUG'' text else [])"

definition LOG_TRACE :: "nat \<Rightarrow> log_state \<Rightarrow> string \<Rightarrow> string \<Rightarrow> log_event list" where
  "LOG_TRACE log_level lg date text = (if 5 \<le> log_level then log_print lg date LOG_CLR_WHITE ''TRACE'' text else [])"

lemma color_code_length: "length (color_code c) \<le> 5"
  by (cases c) simp_all

text \<open>C40. A log line is never cut by the second buffer: with a date of at most 31 characters (what fits
  its buffer) and one of the program's tags, the line is the colour, the date, the tag and the
  message, and only the message is shortened, to 8195 characters. The log file gets the very line
  the terminal gets.\<close>

theorem log_line:
  assumes "length date < LOG_DATE_MAX" and "length tag \<le> 5"
  shows "log_print lg date color tag text =
    (let line = color_code color @ date @ '' '' @ tag @ color_code LOG_CLR_NORMAL @ '' '' @ take 8195 text @ [NL]
     in Log_stdout line # (case lg of None \<Rightarrow> [] | Some path \<Rightarrow> [Log_file path line]))"
proof -
  let ?l = "color_code color @ date @ '' '' @ tag @ color_code LOG_CLR_NORMAL @ '' '' @ take 8195 text"
  have "length ?l \<le> LOG_OUT_MAX - 1"
    using assms color_code_length [of color] by (simp add: LOG_OUT_MAX_def LOG_DATE_MAX_def LOG_TAG_MAX_def LOG_MSG_MAX_def)
  then have "take (LOG_OUT_MAX - 1) ?l = ?l" by (rule take_all)
  moreover have "LOG_MSG_MAX - 1 = 8195" by (simp add: LOG_MSG_MAX_def)
  ultimately show ?thesis unfolding log_print_def Let_def by (simp only: append_assoc)
qed

theorem log_line_witness:
  "log_print (Some ''log'') ''2024/01/01 00:00:00'' LOG_CLR_GREEN ''INFO'' ''started'' =
    (let line = (ESC # ''[32m'') @ ''2024/01/01 00:00:00'' @ '' '' @ ''INFO'' @ (ESC # ''[0m'') @ '' '' @ ''started'' @ [NL]
     in [Log_stdout line, Log_file ''log'' line])"
  using log_line [of "''2024/01/01 00:00:00''" "''INFO''" "Some ''log''" LOG_CLR_GREEN "''started''"]
  by (simp add: LOG_DATE_MAX_def Let_def)

end
