(* ===== verification/Program.thy ===== *)
theory Program
  imports Watch Log
begin

text \<open>
  The program, \<open>src/src/main.c\<close>: set-up, dispatch on the run mode, and the common exit. The exit
  status is \<^term>\<open>None\<close> while the program is still running at the end of the inputs it was given.
  Signals are not delivered in the model; their handlers are \<open>finish\<close> and \<open>pipe_out\<close>.
\<close>

section \<open>Data and operations\<close>

datatype pevent = P_help | P_server event | P_client cevent | P_log log_event | P_freed nat

record prog_env =
  pe_fopen_log :: "string \<Rightarrow> bool"
  pe_conn :: conn_env
  pe_turns :: "turn_env list"
  pe_run :: run_env

definition ALLOC_PAGE_SIZE :: nat where "ALLOC_PAGE_SIZE = 65536"
definition ALLOC_PAGE_COUNT :: int where "ALLOC_PAGE_COUNT = 2"

text \<open>\<open>finish\<close>: the log file is closed, the pages are freed, the process exits.\<close>

definition finish :: "int \<Rightarrow> log_state \<Rightarrow> arena \<Rightarrow> int \<times> pevent list" where
  "finish sig lg ar = (sig, map P_log (snd (log_close lg)) @ [P_freed (fst (snd (arena_free ar)))])"

definition pipe_out :: "int \<Rightarrow> string" where
  "pipe_out sig = ''Pipe broken, signal: '' @ int_str sig @ [NL]"

text \<open>\<open>daemonize\<close> has an empty body.\<close>

definition daemonize :: "arena \<Rightarrow> arena" where
  "daemonize ar = ar"

text \<open>\<open>run_as_server\<close>: start-up, then the loop over the turns it is given.\<close>

definition run_as_server ::
  "(nat \<Rightarrow> bool) \<Rightarrow> conn_env \<Rightarrow> turn_env list \<Rightarrow> Config \<Rightarrow> arena \<Rightarrow> (int option \<times> event list) crun" where
  "run_as_server mal env turns cfg ar =
     then_alloc (run_as_server_init mal env cfg ar) (\<lambda>(r, so) ar1.
       case so of
         None \<Rightarrow> Some (Ret ((Some r, []), ar1))
       | Some s \<Rightarrow>
           (case server_run cfg turns s of
              None \<Rightarrow> None
            | Some (s', evs) \<Rightarrow> Some (Ret ((if sv_running s' then None else Some 0, evs), ar1))))"

text \<open>The end of \<open>main\<close>, once the chosen mode has returned or is still running.\<close>

definition main_end :: "log_state \<Rightarrow> ('e \<Rightarrow> pevent) \<Rightarrow> (int option \<times> 'e list) crun \<Rightarrow> (int option \<times> pevent list) option" where
  "main_end lg f r =
     (case r of
        None \<Rightarrow> None
      | Some (Exit c) \<Rightarrow> Some (Some c, [])
      | Some (Ret ((ret, evs), ar)) \<Rightarrow>
          (case ret of
             None \<Rightarrow> Some (None, map f evs)
           | Some c \<Rightarrow> Some (Some (fst (finish c lg ar)), map f evs @ snd (finish c lg ar))))"

definition main :: "(nat \<Rightarrow> bool) \<Rightarrow> string list \<Rightarrow> prog_env \<Rightarrow> (int option \<times> pevent list) option" where
  "main mal argv env =
     (case arena_init mal ALLOC_PAGE_SIZE ALLOC_PAGE_COUNT True of
        None \<Rightarrow> None
      | Some (Exit c) \<Rightarrow> Some (Some c, [])
      | Some (Ret (_, ar0)) \<Rightarrow>
          (case config_init mal ar0 argv of
             None \<Rightarrow> None
           | Some (Exit c) \<Rightarrow> Some (Some c, [])
           | Some (Ret (cfg, ar1)) \<Rightarrow>
               let lg = snd (log_init (pe_fopen_log env) (a_log_file (c_args cfg)) None) in
               if a_help (c_args cfg) then Some (Some 1, [P_help])
               else
                 let ar2 = (if a_run_mode (c_args cfg) \<noteq> RUNMODE_CMD \<and> a_mode_detached (c_args cfg) then daemonize ar1 else ar1) in
                 (case a_run_mode (c_args cfg) of
                    RUNMODE_SERVER \<Rightarrow> main_end lg P_server (run_as_server mal (pe_conn env) (pe_turns env) cfg ar2)
                  | RUNMODE_CMD \<Rightarrow> main_end lg P_client (run_cmd mal cfg argv (pe_run env) ar2))))"

section \<open>Set-up\<close>

definition second_page :: arena where
  "second_page = [(fresh_page ALLOC_PAGE_SIZE)\<lparr>pg_eom := True\<rparr>]"

lemma bump_0: "bump 0 p = p"
  by (simp add: bump_def)

lemma arena_init_main:
  assumes "mal 0" and "mal 1"
  shows "arena_init mal ALLOC_PAGE_SIZE ALLOC_PAGE_COUNT True = Some (Ret (ARENA_OK, used_arena 0 second_page))"
proof -
  have "\<forall>k < 2. mal k" using assms by (auto simp: less_Suc_eq numeral_2_eq_2)
  moreover have "ALLOC_PAGE_SIZE < PAGE_LIMIT" "max 1 (nat ALLOC_PAGE_COUNT) = 2" "0 < ALLOC_PAGE_COUNT"
    by (simp_all add: ALLOC_PAGE_SIZE_def PAGE_LIMIT_def ALLOC_PAGE_COUNT_def)
  moreover have "lock_last [p, q] = [p, q\<lparr>pg_eom := True\<rparr>]" for p q by (simp add: lock_last_def)
  ultimately show ?thesis
    by (simp add: arena_init_eq used_arena_def second_page_def bump_0) (simp add: ALLOC_PAGE_SIZE_def)
qed

text \<open>Arguments that are all positional leave every flag at its default.\<close>

definition positional_args :: "nat \<Rightarrow> Args" where
  "positional_args n = (init_args (Suc n))\<lparr>a_arg_indices := map int [1..<Suc n] @ [0], a_arg_count := int n,
     a_run_mode := (if n = 0 then RUNMODE_SERVER else RUNMODE_CMD)\<rparr>"

lemma collect_positional:
  assumes "\<forall>x \<in> set args. kind_of x = KPositional" and "i \<le> length args"
  shows "collect_loop (prog # args) (int (Suc i)) (a\<lparr>a_arg_indices := map int [1..<Suc i] @ replicate (Suc (length args - i)) 0, a_arg_count := int i\<rparr>) =
    Some (a\<lparr>a_arg_indices := map int [1..<Suc (length args)] @ [0], a_arg_count := int (length args)\<rparr>)"
  using assms(2)
proof (induction "length args - i" arbitrary: i)
  case 0
  then show ?case by (simp add: collect_loop_end del: upt_Suc of_nat_Suc)
next
  case (Suc d)
  let ?a = "a\<lparr>a_arg_indices := map int [1..<Suc i] @ replicate (Suc (length args - i)) 0, a_arg_count := int i\<rparr>"
  have i: "i < length args" using Suc by simp
  have d: "drop (Suc i) (prog # args) = args ! i # drop (Suc i) args" using i by (simp add: Cons_nth_drop_Suc)
  have k: "kind_of (args ! i) = KPositional" using assms(1) i by simp
  have r: "replicate (Suc (length args - i)) (0 :: int) = 0 # replicate (Suc (length args - Suc i)) 0"
    using i by (simp add: Suc_diff_Suc flip: replicate_Suc)
  have "wr (map int [1..<Suc i] @ replicate (Suc (length args - i)) 0) (int i) (int (Suc i)) =
      Some (map int [1..<Suc (Suc i)] @ replicate (Suc (length args - Suc i)) 0)"
    unfolding r by (simp add: wr_def list_update_append del: replicate_Suc)
  then have "collect_one (prog # args) (args ! i) (int (Suc i)) ?a =
      Some (a\<lparr>a_arg_indices := map int [1..<Suc (Suc i)] @ replicate (Suc (length args - Suc i)) 0, a_arg_count := int (Suc i)\<rparr>, int (Suc i))"
    using collect_one_kind(4) [OF d k, of ?a] by (simp add: add.commute)
  then show ?case
    using collect_loop_drop [OF d, of ?a] Suc.hyps(1) [of "Suc i"] Suc.hyps(2) i by (simp add: add.commute del: upt_Suc replicate_Suc)
qed

lemma config_init_positional:
  assumes "\<forall>x \<in> set args. kind_of x = KPositional" and "length args \<le> 10000"
  shows "config_init mal (used_arena 0 rest) (prog # args) =
    Some (Ret (\<lparr>c_args = positional_args (length args), c_settings = config_default_settings\<rparr>, used_arena (132 + 4 * length args) rest))"
proof -
  have "collect_loop (prog # args) 1 (init_args (Suc (length args))) =
      Some ((init_args (Suc (length args)))\<lparr>a_arg_indices := map int [1..<Suc (length args)] @ [0], a_arg_count := int (length args)\<rparr>)"
    using collect_positional [OF assms(1), of 0 prog "init_args (Suc (length args))"] by (simp add: init_args_def del: upt_Suc)
  then show ?thesis
    using assms(2)
    by (simp add: config_init_def config_collect_args_def used_arena_alloc sizeof_Config_def positional_args_def add.commute
        del: upt_Suc) (simp add: init_args_def del: upt_Suc)
qed

lemma positional_view:
  assumes "c_args cfg = positional_args (length args)"
  shows "args_view (prog # args) cfg args"
  using assms by (simp add: args_view_def positional_args_def nth_append argv_at_def nat_add_distrib del: upt_Suc)


lemma main_positional:
  assumes "mal 0" and "mal 1" and "\<forall>x \<in> set args. kind_of x = KPositional" and "length args \<le> 10000"
  defines "cfg \<equiv> \<lparr>c_args = positional_args (length args), c_settings = config_default_settings\<rparr>"
    and "ar \<equiv> used_arena (132 + 4 * length args) second_page"
  shows "main mal (prog # args) env =
    (if args = [] then main_end None P_server (run_as_server mal (pe_conn env) (pe_turns env) cfg ar)
     else main_end None P_client (run_cmd mal cfg (prog # args) (pe_run env) ar))"
proof -
  have c: "config_init mal (used_arena 0 second_page) (prog # args) = Some (Ret (cfg, ar))"
    unfolding cfg_def ar_def by (rule config_init_positional [OF assms(3,4)])
  have f: "a_help (c_args cfg) = False" "a_log_file (c_args cfg) = None" "a_mode_detached (c_args cfg) = False"
    "a_run_mode (c_args cfg) = (if args = [] then RUNMODE_SERVER else RUNMODE_CMD)"
    by (simp_all add: cfg_def positional_args_def init_args_def del: upt_Suc)
  show ?thesis unfolding main_def arena_init_main [of mal, OF assms(1,2)] by (simp add: c f log_init_def Let_def)
qed

section \<open>Properties\<close>

text \<open>C5. Started without arguments the program is a server: once its socket is set up it enters the
  loop from an empty, well-formed server built on the two locked pages, and whatever happens in
  the turns it is given, as long as they are defined, it has not exited after them. When the
  socket cannot be made or one of the calls that set it up fails, it frees its pages and exits
  with -1.\<close>

theorem main_serves:
  assumes "mal 0" and "mal 1"
  defines "cfg \<equiv> \<lparr>c_args = positional_args 0, c_settings = config_default_settings\<rparr>"
  shows "(0 \<le> ce_socket (pe_conn env) \<and> conn_finish cfg (pe_conn env) = 1 \<longrightarrow>
      (\<exists>s0. fresh_server cfg s0 \<and>
        main mal [prog] env = map_option (\<lambda>(s, evs). (None, map P_server evs)) (server_run cfg (pe_turns env) s0)))
    \<and> (ce_socket (pe_conn env) < 0 \<or> conn_finish cfg (pe_conn env) < 1 \<longrightarrow> main mal [prog] env = Some (Some (-1), [P_freed 2]))"
proof (intro conjI impI)
  have m: "main mal [prog] env = main_end None P_server (run_as_server mal (pe_conn env) (pe_turns env) cfg (used_arena 132 second_page))"
    using main_positional [of mal "[]" prog env, OF assms(1,2)] by (simp add: cfg_def)
  have set: "c_settings cfg = config_default_settings" by (simp add: cfg_def)
  {
    assume f: "0 \<le> ce_socket (pe_conn env) \<and> conn_finish cfg (pe_conn env) = 1"
    obtain s0 a' where i: "run_as_server_init mal (pe_conn env) cfg (used_arena 132 second_page) =
        Some (Ret ((0, Some s0), used_arena a' second_page))"
      using init_default [OF set conjunct1 [OF f] conjunct2 [OF f], of 132 mal second_page] by auto
    have fr: "fresh_server cfg s0"
      by (rule init_fresh [OF i]) (simp add: sizes_ok_def set config_default_settings_def INT_MAX_def)
    have run: "sv_running s" if "server_run cfg (pe_turns env) s0 = Some (s, evs)" for s evs
      using that fr server_run_machine [of s0 cfg "pe_turns env"] server_machine.run_keeps [of s0 cfg "pe_turns env" s evs]
      by (auto simp: fresh_server_def same_shape_def)
    have "main mal [prog] env = map_option (\<lambda>(s, evs). (None, map P_server evs)) (server_run cfg (pe_turns env) s0)"
      using run by (cases "server_run cfg (pe_turns env) s0") (auto simp: m run_as_server_def i then_alloc_def main_end_def)
    then show "\<exists>s0. fresh_server cfg s0 \<and>
        main mal [prog] env = map_option (\<lambda>(s, evs). (None, map P_server evs)) (server_run cfg (pe_turns env) s0)"
      using fr by blast
  }
  assume f: "ce_socket (pe_conn env) < 0 \<or> conn_finish cfg (pe_conn env) < 1"
  have "\<exists>r conn a'. connection_init cfg (pe_conn env) mal (used_arena 132 second_page) = Some (Ret ((r, conn), used_arena a' second_page)) \<and> r < 1"
    using f by (cases "ce_socket (pe_conn env) < 0")
      (auto simp: connection_init_def alloc_buf_def set config_default_settings_def to_size_def used_arena_alloc Let_def
        fresh_connection_def SIZE_MOD_def)
  then obtain r conn a' where c: "connection_init cfg (pe_conn env) mal (used_arena 132 second_page) = Some (Ret ((r, conn), used_arena a' second_page))"
    "r < 1" by blast
  then have "run_as_server_init mal (pe_conn env) cfg (used_arena 132 second_page) = Some (Ret ((-1, None), used_arena a' second_page))"
    by (simp add: run_as_server_init_def then_alloc_def Let_def)
  moreover have "free_pages (used_arena a' second_page) = 2" by (simp add: used_arena_def second_page_def)
  ultimately show "main mal [prog] env = Some (Some (-1), [P_freed 2])"
    by (simp add: m run_as_server_def then_alloc_def main_end_def finish_def log_close_def arena_free_def)
      (simp add: used_arena_def)
qed

section \<open>Witnesses\<close>

definition demo_prog :: prog_env where
  "demo_prog = \<lparr>pe_fopen_log = (\<lambda>_. True), pe_conn = demo_env, pe_turns = [],
     pe_run = \<lparr>re_inotify = 0, re_watch = 0, re_events = [], re_cmd = demo_cmd_env\<rparr>\<rparr>"

theorem main_serves_witness:
  "main (\<lambda>_. True) [''dpatch''] demo_prog = Some (None, [])
    \<and> main (\<lambda>_. True) [''dpatch''] (demo_prog\<lparr>pe_conn := demo_env\<lparr>ce_bind := -1\<rparr>\<rparr>) = Some (Some (-1), [P_freed 2])
    \<and> main (\<lambda>_. True) [''dpatch''] (demo_prog\<lparr>pe_conn := demo_env\<lparr>ce_socket := -1\<rparr>\<rparr>) = Some (Some (-1), [P_freed 2])"
proof (intro conjI)
  let ?cfg = "\<lparr>c_args = positional_args 0, c_settings = config_default_settings\<rparr>"
  have "conn_finish ?cfg demo_env = 1" by (simp add: conn_finish_def demo_env_def)
  then show "main (\<lambda>_. True) [''dpatch''] demo_prog = Some (None, [])"
    using main_serves [of "\<lambda>_. True" demo_prog "''dpatch''"] by (auto simp: demo_prog_def demo_env_def)
  have "conn_finish ?cfg (demo_env\<lparr>ce_bind := -1\<rparr>) < 1" by (simp add: conn_finish_def demo_env_def positional_args_def)
  then show "main (\<lambda>_. True) [''dpatch''] (demo_prog\<lparr>pe_conn := demo_env\<lparr>ce_bind := -1\<rparr>\<rparr>) = Some (Some (-1), [P_freed 2])"
    using main_serves [of "\<lambda>_. True" "demo_prog\<lparr>pe_conn := demo_env\<lparr>ce_bind := -1\<rparr>\<rparr>" "''dpatch''"] by (auto simp: demo_prog_def demo_env_def)
  show "main (\<lambda>_. True) [''dpatch''] (demo_prog\<lparr>pe_conn := demo_env\<lparr>ce_socket := -1\<rparr>\<rparr>) = Some (Some (-1), [P_freed 2])"
    using main_serves [of "\<lambda>_. True" "demo_prog\<lparr>pe_conn := demo_env\<lparr>ce_socket := -1\<rparr>\<rparr>" "''dpatch''"] by (auto simp: demo_prog_def)
qed

end
