(* ===== verification/Spec2Isabelle.thy ===== *)
theory Spec2Isabelle
  imports Program
begin

text \<open>
  Verification of dpatch, a small task runner: one program (\<open>src/src/main.c\<close> and the headers it
  includes) that is a server when started without positional arguments and a client otherwise. The
  server listens on a local port, keeps an active workspace file that describes tasks, and starts
  a shell process for a task a client asks for; a task may wait for another one to complete. The
  client turns its command line into one request, sends it, prints the answer and exits, or, in
  watch mode, repeats this for every file event.

  \<^bold>\<open>How the code is modelled.\<close> C functions are HOL functions with the names of the source. A structure
  is a record, an enumeration a datatype with its numeric codes, a buffer a list of bytes with
  checked reads and writes. The outer \<^term>\<open>None\<close> of a result is undefined behaviour (an access
  outside a block, a NULL dereference, an integer outside its type), so \<open>f x = Some y\<close> says that the
  call returns \<open>y\<close> without any of these. \<open>Exit c\<close> is a call of \<open>exit\<close>. Loops are recursive
  functions proved to terminate; no fuel is used. \<open>int\<close> values are integers with range conditions
  or explicit conversions, \<open>size_t\<close> values are natural numbers with the wrap-around at \<open>2^64\<close>
  written out. The target is LP64 and little-endian. The results of system calls (malloc, sockets,
  select, poll, inotify, pipe, fork, waitpid, time, fopen) are parameters; what a call does to the
  outside is an event in the result.

  \<^bold>\<open>The theories.\<close>
  \<^item> \<open>Prelude\<close>: checked memory, C strings, integer layout, outcomes, the collections \<open>mem_simps\<close> and
    \<open>mem_lens\<close>.
  \<^item> \<open>Arena\<close> (\<open>arena.h\<close>): pages, \<open>arena_init\<close>, \<open>arena_alloc\<close>, \<open>arena_free\<close>. Returned blocks are
    inside their page, zeroed and disjoint; locked arenas do not grow. The locale \<open>region_allocator\<close>
    carries disjointness to sequences of calls and is interpreted on \<open>arena_alloc\<close>.
  \<^item> \<open>Stack\<close> (\<open>stack.h\<close>): the byte-level stack and its list of items; locale \<open>bounded_table\<close>.
  \<^item> \<open>Store\<close>, \<open>Slots\<close> (\<open>store.h\<close>): the byte-level store, and a table of typed slots it is proved to
    implement for every struct layout. The locale \<open>slot_table\<close> is interpreted on both.
  \<^item> \<open>Config\<close> (\<open>config.h\<close>): command line and default settings, against a grammar of options.
  \<^item> \<open>Net\<close> (\<open>net.h\<close>): send and read loops, connection set-up, descriptor sets.
  \<^item> \<open>Protocol\<close> (\<open>protocol.h\<close>): encoding, decoding, splitting. The locale \<open>item_codec\<close> gives the round
    trip of sequences and is interpreted on tokens and on integers.
  \<^item> \<open>Ini\<close> (\<open>ini.h\<close>): the parser of workspace files, against documents and their rendering.
  \<^item> \<open>Machine\<close>: turn-by-turn machines, reachable states and the locale \<open>machine\<close>.
  \<^item> \<open>Tasks\<close> (\<open>server.h\<close>, \<open>task_write\<close> to \<open>server_check_task_queue\<close>): reading a task from the
    workspace, launching, queueing and releasing, against an abstract task.
  \<^item> \<open>Server\<close> (\<open>server.h\<close>, \<open>server_send\<close>, \<open>server_respond\<close> and from \<open>server_eval_packet\<close> on): answers,
    packets, accepting and reading clients, supervising processes, one turn of the loop. The
    locale \<open>machine\<close> is interpreted on the turn with the server invariant.
  \<^item> \<open>Requests\<close>: requests from bytes to effects, on every branch of the two implemented requests.
  \<^item> \<open>Startup\<close>: the allocations of \<open>run_as_server\<close>, the invariant of every state of the loop, and
    that ready clients are served.
  \<^item> \<open>Client\<close>, \<open>Watch\<close> (\<open>client.h\<close>): evaluation of the command line against its reading as a
    request, one command, the watch mode and that it ends.
  \<^item> \<open>Log\<close> (\<open>log.h\<close>): the log line and its bounds.
  \<^item> \<open>Program\<close> (\<open>main.c\<close>): set-up, dispatch and exit.
  \<^item> This theory puts client program, wire and server together.

  \<^bold>\<open>Bounds.\<close> Theorems on start-up and on whole programs are for the default settings: buffers of 1024
  bytes, 30 tokens, 30 clients, two pages of 65536 bytes. Start-up is shown to fit when at most
  50000 bytes of the first page are taken before it, and a client's command when at most 40000 are,
  which leaves room for some thousands of arguments. A command line of up to 9 variables and about
  900 characters (\<open>line_ok\<close>) fits the token array and the buffers. Everything else is for
  arbitrary settings.

  \<^bold>\<open>Not modelled.\<close> The text of \<open>print_help\<close> and of \<open>perror\<close> messages; the server's own log lines (the
  output of tasks is an event); delivery of signals (the handlers are modelled); the child between
  fork and execve other than the program, directory and environment it executes; the parser
  variant in \<open>ini.h\<close> that is commented out; the Makefile and the test drivers.
\<close>

section \<open>From the client's command line to a running process\<close>

abbreviation var_args :: "string list \<Rightarrow> string list" where
  "var_args es \<equiv> concat (map (\<lambda>e. [''-e'', e]) es)"

lemma var_tokens: "req_tokens d (var_args es) = map (\<lambda>e. \<lparr>tk_type = token_code PROTOCOL_TOKEN_VAR, tk_value = Some e\<rparr>) es"
  by (induction es) auto

lemma var_args_length: "length (var_args es) = 2 * length es"
  by (induction es) auto

text \<open>The client's stream, received into a zeroed buffer, is a request of the command's type.\<close>

lemma client_request_ok:
  assumes ts: "stream_ok ts" "real_tokens ts = req_tokens d (name # var_args es)"
    "ts_length ts = int (length (name # var_args es) + length (req_tokens d (name # var_args es)))"
    and ty: "ts_type ts = request_type w name" and w: "cmd_code w = Some kind" and n: "cmd_code name = None" "name \<noteq> ''-e''"
    and cap: "ts_length ts \<le> int (length (ts_tokens (sv_token_stream s)))"
    and z: "2 * length (name # var_args es) \<le> z"
  shows "request_ok s ts z kind name es"
proof -
  let ?arg = "\<lparr>tk_type = token_code PROTOCOL_TOKEN_ARG, tk_value = Some name\<rparr>"
    and ?var = "\<lambda>e. \<lparr>tk_type = token_code PROTOCOL_TOKEN_VAR, tk_value = Some e\<rparr>"
  have R: "req_tokens d (name # var_args es) = ?arg # map ?var es" using n(2) by (simp add: var_tokens)
  have v: "values_of PROTOCOL_TOKEN_ARG (real_tokens ts) = [Some name]" "values_of PROTOCOL_TOKEN_VAR (real_tokens ts) = map Some es"
    unfolding ts(2) R by (simp_all add: values_of_def comp_def filter_map)
  have l: "nat (ts_length ts) = 2 + 3 * length es" "length (real_tokens ts) = 1 + length es"
    unfolding ts(2,3) R by (simp_all add: var_args_length)
  have "ts_type ts = msg_code kind" using ty n(1) w by (simp add: request_type_def)
  then show ?thesis using ts(1) cap z v l by (simp add: request_ok_def var_args_length)
qed

lemma run_cmd_once:
  assumes ok: "command_ok argv cfg w0 rest" and set: "c_settings cfg = config_default_settings"
    and w: "a_watch_path (c_args cfg) = None" and q: "\<not> a_quiet (c_args cfg)" and a: "a \<le> 40000"
  obtains ts where "stream_ok ts" and "message ts = message (request_of argv w0 rest)"
    and "real_tokens ts = req_tokens (hd argv) rest" and "ts_length ts = int (length rest + length (req_tokens (hd argv) rest))"
    and "ts_type ts = request_type w0 (second_word argv rest)"
    and "\<And>env ty msg. answered_by cfg (re_cmd env) ty msg \<Longrightarrow> run_cmd mal cfg argv env (used_arena a pages) =
      Some (Ret ((Some 0, [sending_text cfg, Cl_send (ce_socket (cx_conn (re_cmd env))) (message ts @ replicate 4 NUL),
        answer_text ty msg, Cl_close (ce_socket (cx_conn (re_cmd env)))]), used_arena (a + 2544) pages))"
proof -
  note [simp del] = replicate_numeral_Cons
  let ?ts0 = "\<lparr>ts_type = 0, ts_length = 0, ts_tokens = replicate 30 zero_token\<rparr>"
  have cap: "token_cap cfg = 30" by (simp add: set config_default_settings_def)
  have z: "\<not> tk_real zero_token" by (simp add: tk_real_def zero_token_def)
  have len0: "length (ts_tokens ?ts0) = token_cap cfg" by (simp add: cap)
  have z0: "tk_real t \<Longrightarrow> token_ok t" if "t \<in> set (ts_tokens ?ts0)" for t using that z by simp
  have z1: "\<not> tk_real t" if "t \<in> set (take (length rest) (ts_tokens ?ts0))" for t using that z in_set_takeD by fastforce
  obtain ts where ts: "client_eval_cmds argv cfg ?ts0 = Some (0, ts, [])" "stream_ok ts" "ts_tokens ts \<noteq> []"
    "message ts = message (request_of argv w0 rest)" "real_tokens ts = req_tokens (hd argv) rest"
    "ts_length ts = int (length rest + length (req_tokens (hd argv) rest))" "ts_type ts = request_type w0 (second_word argv rest)"
    by (rule eval_watch [OF ok len0 z0 z1]) auto
  have fit: "int (length (message ts) + 4) \<le> buffer_size (connection (c_settings cfg))" using ok ts(4) by (simp add: command_ok_def)
  have al: "protocol_tokenstream_alloc mal (protocol_token_count (general (c_settings cfg))) (used_arena a pages) =
      Some (Ret (Some ?ts0, used_arena (a + 496) pages))"
    using a by (simp add: protocol_tokenstream_alloc_def set config_default_settings_def to_size_def SIZE_MOD_def used_arena_alloc)
  have "run_cmd mal cfg argv env (used_arena a pages) =
      Some (Ret ((Some 0, [sending_text cfg, Cl_send (ce_socket (cx_conn (re_cmd env))) (message ts @ replicate 4 NUL),
        answer_text ty msg, Cl_close (ce_socket (cx_conn (re_cmd env)))]), used_arena (a + 2544) pages))"
    if an: "answered_by cfg (re_cmd env) ty msg" for env ty msg
    using round_body [OF ts(1-3) fit an open_default [OF set an, of "a + 496"]] a al w q
    by (simp add: run_cmd_def then_alloc_def add.commute)
  then show ?thesis using that ts by blast
qed


text \<open>Bytes received at the front of a zeroed buffer.\<close>

lemma received:
  assumes "length (w @ replicate 4 NUL) \<le> n"
  shows "wr_block (replicate n NUL) 0 (w @ replicate 4 NUL) = Some (w @ replicate (n - length w) NUL)"
proof -
  have "replicate 4 NUL @ replicate (n - (length w + 4)) NUL = replicate (n - length w) NUL"
    using assms by (simp flip: replicate_add del: replicate_numeral_Cons)
  then show ?thesis
    using wr_block_nat [of "replicate n NUL" 0 "w @ replicate 4 NUL"] assms by (simp add: drop_replicate del: replicate_numeral_Cons)
qed

text \<open>The client's side of an exchange: a request that any server with the default capacity decodes,
  and the run of the client for whatever answer of success comes back.\<close>

lemma client_exchange:
  assumes ok: "command_ok argv cfg w (name # var_args es)" and w: "cmd_code w = Some kind" and n: "cmd_code name = None" "name \<noteq> ''-e''"
    and set: "c_settings cfg = config_default_settings" and wp: "a_watch_path (c_args cfg) = None" and q: "\<not> a_quiet (c_args cfg)"
    and a: "a \<le> 40000" and pad: "length (message (request_of argv w (name # var_args es))) + 2 * length (name # var_args es) \<le> 1024"
    and net: "0 < cx_poll c" "0 < ce_socket (cx_conn c)" "conn_finish cfg (cx_conn c) = 1"
      "send_sane (cx_send c)" "send_progress (cx_send c) (ce_socket (cx_conn c))"
  obtains ts z where "wr_block (replicate 1024 NUL) 0 (message ts @ replicate 4 NUL) = Some (message ts @ replicate z NUL)"
    and "\<And>s. length (ts_tokens (sv_token_stream s)) = 30 \<Longrightarrow> request_ok s ts z kind name es"
    and "\<And>cfg' msg x. c_settings cfg' = config_default_settings \<Longrightarrow> reply_fits cfg' msg \<Longrightarrow> length x = 4 \<Longrightarrow>
      run_cmd mal cfg argv (env\<lparr>re_cmd := c\<lparr>cx_read := Some (message (reply PROTOCOL_MSG_SUCCESS msg) @ x)\<rparr>\<rparr>) (used_arena a pages) =
      Some (Ret ((Some 0, [sending_text cfg, Cl_send (ce_socket (cx_conn c)) (message ts @ replicate 4 NUL),
        Cl_out (''Success: '' @ msg @ [NL]), Cl_close (ce_socket (cx_conn c))]), used_arena (a + 2544) pages))"
proof -
  let ?rest = "name # var_args es"
  obtain ts where ts: "stream_ok ts" "message ts = message (request_of argv w ?rest)"
    "real_tokens ts = req_tokens (hd argv) ?rest" "ts_length ts = int (length ?rest + length (req_tokens (hd argv) ?rest))"
    "ts_type ts = request_type w (second_word argv ?rest)"
    and run: "\<And>env ty msg. answered_by cfg (re_cmd env) ty msg \<Longrightarrow> run_cmd mal cfg argv env (used_arena a pages) =
      Some (Ret ((Some 0, [sending_text cfg, Cl_send (ce_socket (cx_conn (re_cmd env))) (message ts @ replicate 4 NUL),
        answer_text ty msg, Cl_close (ce_socket (cx_conn (re_cmd env)))]), used_arena (a + 2544) pages))"
    using run_cmd_once [OF ok set wp q a] by metis
  define z where "z = 1024 - length (message ts)"
  have len: "length (message ts @ replicate 4 NUL) \<le> 1024" "2 * length ?rest \<le> z"
    using ok set pad by (simp_all add: command_ok_def config_default_settings_def ts(2) z_def)
  have ty: "ts_type ts = request_type w name" using ts(5) by (simp add: second_word_def)
  show ?thesis
  proof
    show "wr_block (replicate 1024 NUL) 0 (message ts @ replicate 4 NUL) = Some (message ts @ replicate z NUL)"
      using received [OF len(1)] by (simp only: z_def)
    show "request_ok s ts z kind name es" if "length (ts_tokens (sv_token_stream s)) = 30" for s
      using client_request_ok [OF ts(1,3,4) ty w n _ len(2)] ok set ts(4) that by (simp add: command_ok_def config_default_settings_def)
    show "run_cmd mal cfg argv (env\<lparr>re_cmd := c\<lparr>cx_read := Some (message (reply PROTOCOL_MSG_SUCCESS msg) @ x)\<rparr>\<rparr>) (used_arena a pages) =
      Some (Ret ((Some 0, [sending_text cfg, Cl_send (ce_socket (cx_conn c)) (message ts @ replicate 4 NUL),
        Cl_out (''Success: '' @ msg @ [NL]), Cl_close (ce_socket (cx_conn c))]), used_arena (a + 2544) pages))"
      if "c_settings cfg' = config_default_settings" "reply_fits cfg' msg" "length x = 4" for cfg' msg x
    proof -
      let ?rsp = "message (reply PROTOCOL_MSG_SUCCESS msg) @ x"
      have "answered_by cfg (c\<lparr>cx_read := Some ?rsp\<rparr>) PROTOCOL_MSG_SUCCESS msg"
        using net that by (simp add: answered_by_def reply_fits_def set config_default_settings_def)
      then show ?thesis using run [of "env\<lparr>re_cmd := c\<lparr>cx_read := Some ?rsp\<rparr>\<rparr>"] by (simp add: answer_text_def)
    qed
  qed
qed

text \<open>A command line of one command word, an argument and variables. The argument and the variables
  are no options, the argument is no command word, and all fit the token array and the buffers of
  the default settings.\<close>

definition cmd_line :: "string \<Rightarrow> string \<Rightarrow> string \<Rightarrow> string list \<Rightarrow> string list" where
  "cmd_line prog w name es = prog # w # name # var_args es"

definition line_ok :: "string \<Rightarrow> string list \<Rightarrow> bool" where
  "line_ok name es \<longleftrightarrow> (\<forall>x \<in> set (name # es). kind_of x = KPositional \<and> cstring x)
     \<and> \<not> info_word name \<and> cmd_code name = None \<and> name \<noteq> ''-e''
     \<and> length es \<le> 9 \<and> length name + sum_list (map length es) + 6 * length es \<le> 900"

lemma request_message_length:
  assumes "name \<noteq> ''-e''"
  shows "length (message (request_of (prog # args) w (name # var_args es))) = 14 + length name + sum_list (map length es) + 2 * length es"
proof -
  let ?var = "\<lambda>e. \<lparr>tk_type = token_code PROTOCOL_TOKEN_VAR, tk_value = Some e\<rparr>"
    and ?arg = "\<lparr>tk_type = token_code PROTOCOL_TOKEN_ARG, tk_value = Some name\<rparr>"
  let ?q = "request_of (prog # args) w (name # var_args es)"
  have R: "req_tokens prog (name # var_args es) = ?arg # map ?var es" using assms by (simp add: var_tokens)
  have f: "filter tk_real (?arg # map ?var es) = ?arg # map ?var es" by (intro filter_True) (auto simp: tk_real_def)
  have "real_tokens ?q = filter tk_real (replicate (length (name # var_args es)) zero_token) @ filter tk_real (?arg # map ?var es)"
    unfolding request_of_def Let_def list.sel R real_tokens_def by simp
  then have r: "real_tokens ?q = ?arg # map ?var es" unfolding f by (simp add: tk_real_def zero_token_def)
  have e: "length (concat (map enc_token (map ?var es))) = sum_list (map length es) + 2 * length es"
    by (induction es) (simp_all add: enc_token_def)
  show ?thesis unfolding message_length payload_def r by (simp add: enc_token_def e [simplified])
qed

lemma cmd_line_ok:
  assumes ok: "line_ok name es" and prog: "cstring prog" and w: "\<not> info_word w"
    and cfg: "c_args cfg = positional_args (length (w # name # var_args es))" "c_settings cfg = config_default_settings"
  shows "command_ok (cmd_line prog w name es) cfg w (name # var_args es)"
proof -
  have n: "name \<noteq> ''-e''" "\<not> info_word name" "cstring name" "\<forall>e \<in> set es. cstring e" "length es \<le> 9"
    using ok by (auto simp: line_ok_def)
  have view: "args_view (cmd_line prog w name es) cfg (w # name # var_args es)"
    unfolding cmd_line_def by (rule positional_view [OF cfg(1)])
  have c: "\<forall>x \<in> set (name # var_args es). cstring x" using n by (auto simp: cstring_def)
  have l: "length (req_tokens prog (name # var_args es)) = 1 + length es" using n(1) by (simp add: var_tokens)
  have m: "length (message (request_of (cmd_line prog w name es) w (name # var_args es))) + 4 \<le> 1024"
    using ok request_message_length [OF n(1), of prog "w # name # var_args es" w es] by (simp add: line_ok_def cmd_line_def)
  show ?thesis
    using view c l m n prog w cfg(2)
    by (simp add: command_ok_def second_word_def config_default_settings_def INT_MAX_def var_args_length)
      (simp add: cmd_line_def)
qed

section \<open>A client program and a server\<close>

text \<open>What the operating system does for a client program that gets through: its socket connects, its
  sends make progress and its poll reports an answer.\<close>

definition client_connects :: "cmd_env \<Rightarrow> bool" where
  "client_connects c \<longleftrightarrow> 0 < cx_poll c \<and> 0 < ce_socket (cx_conn c) \<and> send_sane (cx_send c)
     \<and> send_progress (cx_send c) (ce_socket (cx_conn c)) \<and> ce_reuse (cx_conn c) = 0 \<and> ce_rcvtimeo (cx_conn c) = 0
     \<and> ce_sndtimeo (cx_conn c) = 0 \<and> ce_connect (cx_conn c) = 0"

definition answered :: "prog_env \<Rightarrow> cmd_env \<Rightarrow> byte list \<Rightarrow> prog_env" where
  "answered env c rsp = env\<lparr>pe_run := (pe_run env)\<lparr>re_cmd := c\<lparr>cx_read := Some rsp\<rparr>\<rparr>\<rparr>"

text \<open>The events and the exit status of a client program that sent \<open>wire\<close> and got the answer \<open>msg\<close>.\<close>

definition client_success :: "int \<Rightarrow> byte list \<Rightarrow> string \<Rightarrow> int option \<times> pevent list" where
  "client_success sock wire msg =
     (Some 0, [P_client (Cl_out (''Sending command to dpatch server at port 9999...'' @ [NL])), P_client (Cl_send sock wire),
        P_client (Cl_out (''Success: '' @ msg @ [NL])), P_client (Cl_close sock), P_freed 2])"

lemma program_exchange:
  assumes mal: "mal 0" "mal 1" and w: "kind_of w = KPositional" "\<not> info_word w" "cmd_code w = Some kind"
    and ok: "line_ok name es" and prog: "cstring prog" and c: "client_connects c"
  obtains wire ts z where "wr_block (replicate 1024 NUL) 0 wire = Some (message ts @ replicate z NUL)"
    and "\<And>s. length (ts_tokens (sv_token_stream s)) = 30 \<Longrightarrow> request_ok s ts z kind name es"
    and "\<And>cfg msg x. c_settings cfg = config_default_settings \<Longrightarrow> reply_fits cfg msg \<Longrightarrow> length x = 4 \<Longrightarrow>
      main mal (cmd_line prog w name es) (answered env c (message (reply PROTOCOL_MSG_SUCCESS msg) @ x)) =
      Some (client_success (ce_socket (cx_conn c)) wire msg)"
proof -
  let ?args = "w # name # var_args es" and ?argv = "cmd_line prog w name es"
  define ccfg where "ccfg = \<lparr>c_args = positional_args (length ?args), c_settings = config_default_settings\<rparr>"
  have cc: "c_args ccfg = positional_args (length ?args)" "c_settings ccfg = config_default_settings" by (simp_all add: ccfg_def)
  have n: "cmd_code name = None" "name \<noteq> ''-e''" "length es \<le> 9" using ok by (auto simp: line_ok_def)
  have fl: "a_watch_path (c_args ccfg) = None" "\<not> a_quiet (c_args ccfg)" "a_run_mode (c_args ccfg) = RUNMODE_CMD" "a_port (c_args ccfg) = 9999"
    unfolding cc by (simp_all add: positional_args_def init_args_def del: upt_Suc)
  have st: "sending_text ccfg = Cl_out (''Sending command to dpatch server at port 9999...'' @ [NL])"
    by (simp add: sending_text_def fl int_str_def nat_str.simps char_of_def bit_0)
  have net: "0 < cx_poll c" "0 < ce_socket (cx_conn c)" "conn_finish ccfg (cx_conn c) = 1"
    "send_sane (cx_send c)" "send_progress (cx_send c) (ce_socket (cx_conn c))"
    using c fl(3) by (simp_all add: client_connects_def conn_finish_def)
  let ?a = "132 + 4 * length ?args"
  have a: "?a \<le> 40000" "length ?args \<le> 10000" using n(3) by (simp_all add: var_args_length)
  have pad: "length (message (request_of ?argv w (name # var_args es))) + 2 * length (name # var_args es) \<le> 1024"
    using ok request_message_length [OF n(2), of prog ?args w es] by (simp add: line_ok_def cmd_line_def var_args_length)
  note cok = cmd_line_ok [OF ok prog w(2) cc]
  have pos: "\<forall>x \<in> set ?args. kind_of x = KPositional" using ok w(1) by (auto simp: line_ok_def kind_of_def)
  obtain ts z where x: "wr_block (replicate 1024 NUL) 0 (message ts @ replicate 4 NUL) = Some (message ts @ replicate z NUL)"
    "\<And>s. length (ts_tokens (sv_token_stream s)) = 30 \<Longrightarrow> request_ok s ts z kind name es"
    "\<And>cfg msg x. c_settings cfg = config_default_settings \<Longrightarrow> reply_fits cfg msg \<Longrightarrow> length x = 4 \<Longrightarrow>
      run_cmd mal ccfg ?argv ((pe_run env)\<lparr>re_cmd := c\<lparr>cx_read := Some (message (reply PROTOCOL_MSG_SUCCESS msg) @ x)\<rparr>\<rparr>) (used_arena ?a second_page) =
      Some (Ret ((Some 0, [sending_text ccfg, Cl_send (ce_socket (cx_conn c)) (message ts @ replicate 4 NUL),
        Cl_out (''Success: '' @ msg @ [NL]), Cl_close (ce_socket (cx_conn c))]), used_arena (?a + 2544) second_page))"
    by (rule client_exchange [where mal = mal and env = "pe_run env" and pages = second_page,
        OF cok w(3) n(1,2) cc(2) fl(1,2) a(1) pad net]) blast
  have fp: "free_pages (used_arena b second_page) = 2" "used_arena b second_page \<noteq> []" for b by (simp_all add: used_arena_def second_page_def)
  have mn: "main mal ?argv (answered env c rsp) =
      main_end None P_client (run_cmd mal ccfg ?argv ((pe_run env)\<lparr>re_cmd := c\<lparr>cx_read := Some rsp\<rparr>\<rparr>) (used_arena ?a second_page))" for rsp
    unfolding cmd_line_def ccfg_def answered_def using main_positional [OF mal pos a(2), of prog] by simp
  show ?thesis
    by (rule that [OF x(1,2)]) (use x(3) fp in \<open>simp_all add: mn main_end_def finish_def log_close_def arena_free_def st client_success_def\<close>)
qed

text \<open>An argument a command line can carry is short enough for the answers that quote it.\<close>

lemma line_reply_fits:
  assumes "line_ok name es" and "c_settings cfg = config_default_settings"
  shows "reply_fits cfg (quoted ''Task '' name '' started succesfully'')" and "reply_fits cfg (quoted ''Workspace '' name '' set as active'')"
  using assms by (auto simp: line_ok_def reply_fits_def cstring_def QUOTE_def config_default_settings_def)

lemma command_words:
  "kind_of ''run'' = KPositional" "\<not> info_word ''run''" "cmd_code ''run'' = Some PROTOCOL_MSG_TASK_RUN"
  "kind_of ''set'' = KPositional" "\<not> info_word ''set''" "cmd_code ''set'' = Some PROTOCOL_MSG_WORKSPACE_SET"
  by (simp_all add: kind_of_def info_word_def cmd_code_def)

section \<open>Properties\<close>

text \<open>C1. The program end to end. The client program, started as \<open>dpatch run NAME -e V1 -e V2 ...\<close>,
  sends bytes that a server with the default sizes, whose workspace defines NAME, answers by
  starting exactly the process the workspace describes, with the variables of the command line
  behind those of the file; given the answer the server sends, the client program prints the
  success line, closes its connection, frees its pages and exits with 0.\<close>

theorem dpatch_run_end_to_end:
  assumes mal: "mal 0" "mal 1" and line: "line_ok name es" "cstring prog" and c: "client_connects c"
    and srv: "c_settings cfg = config_default_settings" "length (ts_tokens (sv_token_stream s)) = 30" "can_reply f cfg packet s"
    and task: "task_request fopen cfg s ls name es" "at_cmd (task_of ls name es) = Some cmd"
      "slots_ok (sv_process_store s)" "procs_named s" "\<not> waits_on s (at_wait (task_of ls name es))"
      "1 \<le> sl_open_cnt (sv_process_store s)" "launch_ready le"
  shows "\<exists>wire rsp data s'. main mal (cmd_line prog ''run'' name es) (answered env c rsp) =
      Some (client_success (ce_socket (cx_conn c)) wire (quoted ''Task '' name '' started succesfully''))
    \<and> wr_block (replicate 1024 NUL) 0 wire = Some data
    \<and> server_eval_packet f fopen access cfg le (packet\<lparr>cp_data := Some data\<rparr>) s =
      Some (0, s', [Ev_spawn (le_fork le) (child_of cfg ls name es), Ev_send (cp_socket packet) rsp, Ev_close (cp_socket packet)])"
proof -
  obtain wire ts z where x: "wr_block (replicate 1024 NUL) 0 wire = Some (message ts @ replicate z NUL)"
    "\<And>s. length (ts_tokens (sv_token_stream s)) = 30 \<Longrightarrow> request_ok s ts z PROTOCOL_MSG_TASK_RUN name es"
    "\<And>cfg msg x. c_settings cfg = config_default_settings \<Longrightarrow> reply_fits cfg msg \<Longrightarrow> length x = 4 \<Longrightarrow>
      main mal (cmd_line prog ''run'' name es) (answered env c (message (reply PROTOCOL_MSG_SUCCESS msg) @ x)) =
      Some (client_success (ce_socket (cx_conn c)) wire msg)"
    by (rule program_exchange [OF mal command_words(1-3) line c, where env = env]) blast
  let ?pk = "packet\<lparr>cp_data := Some (message ts @ replicate z NUL)\<rparr>"
  have can: "can_reply f cfg ?pk s" "cp_data ?pk = Some (message ts @ replicate z NUL)" using srv(3) by (simp_all add: can_reply_def)
  note fits = line_reply_fits(1) [OF line(1) srv(1)]
  obtain s' y where "server_eval_packet f fopen access cfg le ?pk s = Some (0, s', Ev_spawn (le_fork le) (child_of cfg ls name es)
      # answer ?pk PROTOCOL_MSG_SUCCESS (quoted ''Task '' name '' started succesfully'') y)" "length y = 4"
    using run_started [where access = access, OF x(2) [OF srv(2)] can(2,1) fits task] by blast
  then show ?thesis using x(1) x(3) [OF srv(1) fits, of y]
    by (intro exI [of _ wire] exI [of _ "message (reply PROTOCOL_MSG_SUCCESS (quoted ''Task '' name '' started succesfully'')) @ y"]
        exI [of _ "message ts @ replicate z NUL"] exI [of _ s']) simp
qed

text \<open>C2. A session of two commands on one server. After \<open>dpatch set PATH\<close> the server reads tasks from
  PATH: a following \<open>dpatch run NAME -e V ...\<close> starts the process that the file at PATH describes,
  whatever workspace was active before. Both client programs print the server's answer and exit
  with 0. The two clients are connected when the first is served and PATH fits the workspace
  buffer.\<close>

theorem dpatch_set_then_run:
  assumes mal: "mal 0" "mal 1" and prog: "cstring prog" and set: "line_ok path []" "client_connects c1"
    and run: "line_ok name es" "client_connects c2"
    and srv: "c_settings cfg = config_default_settings" "length (ts_tokens (sv_token_stream s)) = 30" "can_reply f cfg p1 s"
      "send_progress f (cp_socket p2)" "0 \<le> cp_client p2" "cp_client p2 + 1 < int (st_count (sv_client_stack s))"
    and path: "access path" "length path < length (sv_workspace s)"
    and task: "task_request fopen cfg (s\<lparr>sv_workspace := path @ [NUL]\<rparr>) ls name es" "at_cmd (task_of ls name es) = Some cmd"
      "slots_ok (sv_process_store s)" "procs_named s" "\<not> waits_on s (at_wait (task_of ls name es))"
      "1 \<le> sl_open_cnt (sv_process_store s)" "launch_ready le"
  shows "\<exists>wire1 rsp1 data1 s1 wire2 rsp2 data2 s2.
      main mal (cmd_line prog ''set'' path []) (answered env c1 rsp1) =
        Some (client_success (ce_socket (cx_conn c1)) wire1 (quoted ''Workspace '' path '' set as active''))
    \<and> wr_block (replicate 1024 NUL) 0 wire1 = Some data1
    \<and> server_eval_packet f fopen access cfg le (p1\<lparr>cp_data := Some data1\<rparr>) s =
        Some (0, s1, [Ev_send (cp_socket p1) rsp1, Ev_close (cp_socket p1)])
    \<and> main mal (cmd_line prog ''run'' name es) (answered env c2 rsp2) =
        Some (client_success (ce_socket (cx_conn c2)) wire2 (quoted ''Task '' name '' started succesfully''))
    \<and> wr_block (replicate 1024 NUL) 0 wire2 = Some data2
    \<and> server_eval_packet f fopen access cfg le (p2\<lparr>cp_data := Some data2\<rparr>) s1 =
        Some (0, s2, [Ev_spawn (le_fork le) (child_of cfg ls name es), Ev_send (cp_socket p2) rsp2, Ev_close (cp_socket p2)])"
proof -
  let ?m1 = "quoted ''Workspace '' path '' set as active''" and ?m2 = "quoted ''Task '' name '' started succesfully''"
  obtain wire1 ts1 z1 where x: "wr_block (replicate 1024 NUL) 0 wire1 = Some (message ts1 @ replicate z1 NUL)"
    "\<And>s. length (ts_tokens (sv_token_stream s)) = 30 \<Longrightarrow> request_ok s ts1 z1 PROTOCOL_MSG_WORKSPACE_SET path []"
    "\<And>cfg msg x. c_settings cfg = config_default_settings \<Longrightarrow> reply_fits cfg msg \<Longrightarrow> length x = 4 \<Longrightarrow>
      main mal (cmd_line prog ''set'' path []) (answered env c1 (message (reply PROTOCOL_MSG_SUCCESS msg) @ x)) =
      Some (client_success (ce_socket (cx_conn c1)) wire1 msg)"
    by (rule program_exchange [OF mal command_words(4-6) set(1) prog set(2), where env = env]) blast
  obtain wire2 ts2 z2 where y: "wr_block (replicate 1024 NUL) 0 wire2 = Some (message ts2 @ replicate z2 NUL)"
    "\<And>s. length (ts_tokens (sv_token_stream s)) = 30 \<Longrightarrow> request_ok s ts2 z2 PROTOCOL_MSG_TASK_RUN name es"
    "\<And>cfg msg x. c_settings cfg = config_default_settings \<Longrightarrow> reply_fits cfg msg \<Longrightarrow> length x = 4 \<Longrightarrow>
      main mal (cmd_line prog ''run'' name es) (answered env c2 (message (reply PROTOCOL_MSG_SUCCESS msg) @ x)) =
      Some (client_success (ce_socket (cx_conn c2)) wire2 msg)"
    by (rule program_exchange [OF mal command_words(1-3) run(1) prog run(2), where env = env]) blast
  let ?p1 = "p1\<lparr>cp_data := Some (message ts1 @ replicate z1 NUL)\<rparr>" and ?p2 = "p2\<lparr>cp_data := Some (message ts2 @ replicate z2 NUL)\<rparr>"
  have can1: "can_reply f cfg ?p1 s" "cp_data ?p1 = Some (message ts1 @ replicate z1 NUL)" using srv(3) by (simp_all add: can_reply_def)
  note fits = line_reply_fits(2) [OF set(1) srv(1)] line_reply_fits(1) [OF run(1) srv(1)]
  obtain s1 x1 where s1: "server_eval_packet f fopen access cfg le ?p1 s = Some (0, s1, answer ?p1 PROTOCOL_MSG_SUCCESS ?m1 x1)" "length x1 = 4"
    "cstr_at (sv_workspace s1) 0 = Some path" "sv_task_store s1 = sv_task_store s" "sv_process_store s1 = sv_process_store s"
    "stack_remove_at_fast (sv_client_stack s) (cp_client ?p1) = Some (1, sv_client_stack s1)" "ready_again cfg s s1"
    using workspace_set_done(1) [where access = access, OF x(2) [OF srv(2)] can1(2,1) fits(1) path] by blast
  have can2: "can_reply f cfg ?p2 s1" "cp_data ?p2 = Some (message ts2 @ replicate z2 NUL)"
    using next_can_reply [OF can1(1) s1(7,6), of ?p2] srv(4-6) by simp_all
  have cap: "length (ts_tokens (sv_token_stream s1)) = 30" using s1(7) srv(2) by (simp add: ready_again_def)
  have "cstr_at (path @ [NUL]) 0 = Some path" using cstr_at_append [of path "[]" "[]"] set(1) by (simp add: line_ok_def)
  then have task1: "task_request fopen cfg s1 ls name es" using task(1) s1(3,4) by (simp add: task_request_def)
  have t1: "slots_ok (sv_process_store s1)" "procs_named s1" "\<not> waits_on s1 (at_wait (task_of ls name es))" "1 \<le> sl_open_cnt (sv_process_store s1)"
    using task(3-6) s1(5) by (simp_all add: procs_named_def waits_on_def)
  obtain s2 x2 where s2: "server_eval_packet f fopen access cfg le ?p2 s1 = Some (0, s2, Ev_spawn (le_fork le) (child_of cfg ls name es)
      # answer ?p2 PROTOCOL_MSG_SUCCESS ?m2 x2)" "length x2 = 4"
    using run_started [where access = access, OF y(2) [OF cap] can2(2,1) fits(2) task1 task(2) t1 task(7)] by blast
  have sock: "cp_socket (p\<lparr>cp_data := d\<rparr>) = cp_socket p" for p :: ClientPacket and d by simp
  show ?thesis
    by (intro exI conjI) (rule x(3) [OF srv(1) fits(1) s1(2)], rule x(1), rule s1(1) [unfolded sock],
        rule y(3) [OF srv(1) fits(2) s2(2)], rule y(1), rule s2(1) [unfolded sock])
qed

section \<open>Witnesses\<close>

lemma demo_connects: "client_connects demo_cmd_env" "ce_socket (cx_conn demo_cmd_env) = 3"
  using demo_answered by (auto simp: answered_by_def client_connects_def demo_cmd_env_def demo_env_def)

lemma demo_lines: "line_ok ''do'' [''A=1'']" "line_ok ''ws.ini'' []" "cstring ''dpatch''"
  by (simp_all add: line_ok_def kind_of_def cstring_def info_word_def cmd_code_def)

lemma demo_ready: "launch_ready demo_launch" "le_fork demo_launch = 1234" "1 \<le> sl_open_cnt (sv_process_store demo_live)"
  "length (ts_tokens (sv_token_stream demo_live)) = 30" "cp_socket (demo_packet ty arg) = 9"
  by (simp_all add: launch_ready_def demo_launch_def demo_live_ok demo_packet_def) (simp add: demo_live_def demo_server_def)

theorem dpatch_run_end_to_end_witness:
  "\<exists>wire rsp data s'. main (\<lambda>_. True) [''dpatch'', ''run'', ''do'', ''-e'', ''A=1''] (answered demo_prog demo_cmd_env rsp) =
      Some (client_success 3 wire (quoted ''Task '' ''do'' '' started succesfully''))
    \<and> wr_block (replicate 1024 NUL) 0 wire = Some data
    \<and> server_eval_packet demo_send demo_fopen (\<lambda>_. True) demo_config demo_launch
        ((demo_packet PROTOCOL_MSG_NONE [])\<lparr>cp_data := Some data\<rparr>) demo_live =
      Some (0, s', [Ev_spawn 1234 (Some \<lparr>ch_argv = [''/bin/sh'', ''-c'', ''ls -l'' @ [NL] @ ''pwd''], ch_dir = None, ch_env = [''A=1'']\<rparr>),
        Ev_send 9 rsp, Ev_close 9])"
proof -
  have line: "cmd_line ''dpatch'' ''run'' ''do'' [''A=1''] = [''dpatch'', ''run'', ''do'', ''-e'', ''A=1'']" by (simp add: cmd_line_def)
  show ?thesis
    using dpatch_run_end_to_end [where access = "\<lambda>_. True" and mal = "\<lambda>_. True" and env = demo_prog,
        OF TrueI TrueI demo_lines(1,3) demo_connects(1) demo_finish(3) demo_ready(4) demo_can_reply demo_task_request [OF disjI1 [OF refl]]
          demo_cmd(1) demo_live_ok(4,2,3) demo_ready(3,1)]
    unfolding demo_child demo_connects(2) demo_ready(2,5) line by blast
qed


text \<open>A server with two connected clients and no workspace set.\<close>

definition demo_pair :: Server where
  "demo_pair = demo_live\<lparr>sv_workspace := replicate 256 NUL, sv_client_stack :=
     \<lparr>st_count = 2, st_capacity = 30, st_item_size = 4, st_data = 132, st_base = 100,
      st_mem = int_bytes 9 @ int_bytes 10 @ replicate 112 NUL\<rparr>\<rparr>"

lemma demo_pair_ok:
  "can_reply demo_send demo_config (demo_packet PROTOCOL_MSG_NONE []) demo_pair" "st_count (sv_client_stack demo_pair) = 2"
  "sv_process_store demo_pair = sv_process_store demo_live" "length (sv_workspace demo_pair) = 256"
  "length (ts_tokens (sv_token_stream demo_pair)) = 30"
  "task_request demo_fopen demo_config (demo_pair\<lparr>sv_workspace := ''ws.ini'' @ [NUL]\<rparr>) demo_doc ''do'' [''A=1'']"
proof -
  have "clients_ok (sv_client_stack demo_pair)"
    by (simp add: demo_pair_def clients_ok_def stack_ok_def sizeof_Stack_def SIZE_MOD_def)
  then show "can_reply demo_send demo_config (demo_packet PROTOCOL_MSG_NONE []) demo_pair"
    using demo_can_reply [of PROTOCOL_MSG_NONE "[]"] by (auto simp: can_reply_def demo_pair_def demo_packet_def)
  show "st_count (sv_client_stack demo_pair) = 2" "sv_process_store demo_pair = sv_process_store demo_live"
    "length (sv_workspace demo_pair) = 256" by (simp_all add: demo_pair_def)
  show "length (ts_tokens (sv_token_stream demo_pair)) = 30" using demo_ready(4) by (simp add: demo_pair_def)
  have "cstr_at (''ws.ini'' @ [NUL]) 0 = Some ''ws.ini''" "cstr_at (sv_workspace demo_live) 0 = Some ''ws.ini''"
    by (simp_all add: cstr_at_def demo_live_def demo_server_def)
  then show "task_request demo_fopen demo_config (demo_pair\<lparr>sv_workspace := ''ws.ini'' @ [NUL]\<rparr>) demo_doc ''do'' [''A=1'']"
    using demo_task_request [of "''do''"] by (simp add: task_request_def demo_pair_def)
qed

theorem dpatch_set_then_run_witness:
  "\<exists>wire1 rsp1 data1 s1 wire2 rsp2 data2 s2.
      main (\<lambda>_. True) [''dpatch'', ''set'', ''ws.ini''] (answered demo_prog demo_cmd_env rsp1) =
        Some (client_success 3 wire1 (quoted ''Workspace '' ''ws.ini'' '' set as active''))
    \<and> wr_block (replicate 1024 NUL) 0 wire1 = Some data1
    \<and> server_eval_packet demo_send demo_fopen (\<lambda>_. True) demo_config demo_launch
        ((demo_packet PROTOCOL_MSG_NONE [])\<lparr>cp_data := Some data1\<rparr>) demo_pair = Some (0, s1, [Ev_send 9 rsp1, Ev_close 9])
    \<and> main (\<lambda>_. True) [''dpatch'', ''run'', ''do'', ''-e'', ''A=1''] (answered demo_prog demo_cmd_env rsp2) =
        Some (client_success 3 wire2 (quoted ''Task '' ''do'' '' started succesfully''))
    \<and> wr_block (replicate 1024 NUL) 0 wire2 = Some data2
    \<and> server_eval_packet demo_send demo_fopen (\<lambda>_. True) demo_config demo_launch
        ((demo_packet PROTOCOL_MSG_NONE [])\<lparr>cp_data := Some data2\<rparr>) s1 =
      Some (0, s2, [Ev_spawn 1234 (Some \<lparr>ch_argv = [''/bin/sh'', ''-c'', ''ls -l'' @ [NL] @ ''pwd''], ch_dir = None, ch_env = [''A=1'']\<rparr>),
        Ev_send 9 rsp2, Ev_close 9])"
proof -
  let ?pk = "demo_packet PROTOCOL_MSG_NONE []"
  have line: "cmd_line ''dpatch'' ''run'' ''do'' [''A=1''] = [''dpatch'', ''run'', ''do'', ''-e'', ''A=1'']"
    "cmd_line ''dpatch'' ''set'' ''ws.ini'' [] = [''dpatch'', ''set'', ''ws.ini'']" by (simp_all add: cmd_line_def)
  have p2: "send_progress demo_send (cp_socket ?pk)" "0 \<le> cp_client ?pk" "cp_client ?pk + 1 < int (st_count (sv_client_stack demo_pair))"
    using demo_pair_ok(1,2) by (simp_all add: can_reply_def demo_packet_def)
  have l: "length ''ws.ini'' < length (sv_workspace demo_pair)" by (simp add: demo_pair_ok)
  have t: "slots_ok (sv_process_store demo_pair)" "procs_named demo_pair" "\<not> waits_on demo_pair w" "1 \<le> sl_open_cnt (sv_process_store demo_pair)" for w
    using demo_live_ok(2-4) demo_ready(3) by (simp_all add: demo_pair_ok(3) procs_named_def waits_on_def)
  show ?thesis
    using dpatch_set_then_run [where access = "\<lambda>_. True" and mal = "\<lambda>_. True" and env = demo_prog,
        OF TrueI TrueI demo_lines(3,2) demo_connects(1) demo_lines(1) demo_connects(1) demo_finish(3) demo_pair_ok(5,1) p2 TrueI l
          demo_pair_ok(6) demo_cmd(1) t demo_ready(1)]
    unfolding demo_child demo_connects(2) demo_ready(2,5) line by blast
qed

end
